(* ===== verification/Prelude.thy ===== *)
theory Prelude
  imports Main
begin

text \<open>
  Shared vocabulary of the development: the values every component exchanges
  (bytes, errors, panics) and the generic list lemmas the component proofs use.

  A Go string and a Go \<open>[]byte\<close> are both sequences of bytes; a \<open>char\<close> of HOL
  is a byte, so both are \<open>string\<close> here.  An \<open>error\<close> interface value is an
  \<open>goerr option\<close> (\<open>None\<close> is Go's \<open>nil\<close>), and a run-time panic is a value of
  type \<open>outcome\<close>, so that every early return and every crash of the source is a
  branch of the model.
\<close>

named_theorems go_list "list facts shared by the component proofs"

type_synonym bytes = string

datatype goerr = EOF | Err string | Aborted string

text \<open>\<open>Aborted\<close> is no error value of the program: it ends the byte stream of a body whose
  \<open>Read\<close> panicked or never returned.\<close>

fun error_text :: "goerr \<Rightarrow> string" where
  "error_text EOF = ''EOF''"
| "error_text (Err m) = m"
| "error_text (Aborted m) = m"

datatype 'a outcome = Ret 'a | Panic string

fun bind_outcome :: "'a outcome \<Rightarrow> ('a \<Rightarrow> 'b outcome) \<Rightarrow> 'b outcome" where
  "bind_outcome (Ret x) f = f x"
| "bind_outcome (Panic m) f = Panic m"

lemma bind_outcome_Ret_iff:
  "bind_outcome m f = Ret y \<longleftrightarrow> (\<exists>x. m = Ret x \<and> f x = Ret y)"
  by (cases m) auto

lemma bind_outcome_assoc:
  "bind_outcome (bind_outcome m f) g = bind_outcome m (\<lambda>x. bind_outcome (f x) g)"
  by (cases m) auto

text \<open>Writing a run of bytes into a buffer at an offset, as \<open>copy(buf[i:], bs)\<close> does.\<close>

definition splice :: "'a list \<Rightarrow> nat \<Rightarrow> 'a list \<Rightarrow> 'a list" where
  "splice buf i bs =
     take i buf @ take (length buf - i) bs @ drop (i + length bs) buf"

lemma length_splice [simp]: "length (splice buf i bs) = length buf"
  by (simp add: splice_def min_def)

lemma splice_Nil [simp]: "splice buf i [] = buf"
  by (simp add: splice_def)

lemma splice_at_prefix:
  assumes "length xs + length bs \<le> length xs + length ys"
  shows "splice (xs @ ys) (length xs) bs = xs @ bs @ drop (length bs) ys"
  using assms by (simp add: splice_def)

lemma take_splice_full:
  "i + length bs = length buf \<Longrightarrow> splice buf i bs = take i buf @ bs"
  by (auto simp: splice_def)

lemma take_drop_mid [go_list]: "take m xs @ drop m xs @ ys = xs @ ys"
  by (metis append.assoc append_take_drop_id)

lemma takeWhile_neq_id [go_list]: "c \<notin> set xs \<Longrightarrow> takeWhile (\<lambda>x. x \<noteq> c) xs = xs"
  by (induction xs) auto

lemma dropWhile_neq_Nil [go_list]: "c \<notin> set xs \<Longrightarrow> dropWhile (\<lambda>x. x \<noteq> c) xs = []"
  by (induction xs) auto

lemma takeWhile_neq_append [go_list]:
  "c \<notin> set xs \<Longrightarrow> takeWhile (\<lambda>x. x \<noteq> c) (xs @ c # ys) = xs"
  by (induction xs) auto

lemma dropWhile_neq_append [go_list]:
  "c \<notin> set xs \<Longrightarrow> dropWhile (\<lambda>x. x \<noteq> c) (xs @ c # ys) = c # ys"
  by (induction xs) auto

end
