(* ===== verification/GoStrings.thy ===== *)
theory GoStrings
  imports Prelude
begin

text \<open>
  The parts of Go's \<open>strings\<close>, \<open>strconv\<close> and \<open>net/textproto\<close> packages the
  program calls, on byte strings: \<open>strings.Split\<close> and \<open>strings.SplitN\<close> with a
  one-byte separator, \<open>strings.TrimSpace\<close>, \<open>strconv.Atoi\<close>, and \<open>http.Header\<close>
  with its canonical keys.
\<close>

subsection \<open>Splitting\<close>

text \<open>\<open>strings.Split(s, sep)\<close> for a separator of one byte: never an empty list.\<close>

fun split_on :: "char \<Rightarrow> string \<Rightarrow> string list" where
  "split_on c [] = [[]]"
| "split_on c (x # xs) =
     (if x = c then [] # split_on c xs
      else (case split_on c xs of [] \<Rightarrow> [[x]] | p # ps \<Rightarrow> (x # p) # ps))"

text \<open>\<open>strings.SplitN(s, sep, 2)\<close>: cut at the first separator only.\<close>

definition splitn2 :: "char \<Rightarrow> string \<Rightarrow> string list" where
  "splitn2 c s =
     (case dropWhile (\<lambda>x. x \<noteq> c) s of
        [] \<Rightarrow> [s]
      | _ # rest \<Rightarrow> [takeWhile (\<lambda>x. x \<noteq> c) s, rest])"

fun join_on :: "char \<Rightarrow> string list \<Rightarrow> string" where
  "join_on c [] = []"
| "join_on c [p] = p"
| "join_on c (p # q # ps) = p @ c # join_on c (q # ps)"

lemma split_on_nonempty [simp]: "split_on c s \<noteq> []"
  by (cases s) (auto split: list.splits)

lemma length_split_on_pos [simp]: "0 < length (split_on c s)"
  by simp

lemma Suc_0_le_length_split_on [simp]: "Suc 0 \<le> length (split_on c s)"
  by (simp add: Suc_leI)

lemma split_on_free: "c \<notin> set s \<Longrightarrow> split_on c s = [s]"
  by (induction s) auto

lemma split_on_append: "c \<notin> set p \<Longrightarrow> split_on c (p @ c # s) = p # split_on c s"
  by (induction p) auto

lemma split_on_parts_free: "p \<in> set (split_on c s) \<Longrightarrow> c \<notin> set p"
  by (induction s arbitrary: p) (fastforce split: if_splits list.splits)+

lemma join_split_on: "join_on c (split_on c s) = s"
proof (induction s)
  case (Cons x s)
  obtain p ps where ps: "split_on c s = p # ps"
    by (meson list.exhaust split_on_nonempty)
  with Cons show ?case by (cases ps) auto
qed simp

lemma split_join_on:
  "ps \<noteq> [] \<Longrightarrow> \<forall>p \<in> set ps. c \<notin> set p \<Longrightarrow> split_on c (join_on c ps) = ps"
  by (induction c ps rule: join_on.induct) (auto simp: split_on_free split_on_append)

lemma hd_split_on: "hd (split_on c s) = takeWhile (\<lambda>x. x \<noteq> c) s"
  by (induction s) (auto split: list.splits)

lemma nth_0_split_on [simp]: "split_on c s ! 0 = takeWhile (\<lambda>x. x \<noteq> c) s"
  by (simp add: hd_split_on [symmetric] hd_conv_nth)

lemma splitn2_free: "c \<notin> set s \<Longrightarrow> splitn2 c s = [s]"
  by (simp add: splitn2_def dropWhile_neq_Nil)

lemma splitn2_append: "c \<notin> set p \<Longrightarrow> splitn2 c (p @ c # s) = [p, s]"
  by (simp add: splitn2_def go_list)

subsection \<open>Trimming white space\<close>

text \<open>
  \<open>strings.TrimSpace\<close> strips the runes for which \<open>unicode.IsSpace\<close> holds.  They are
  listed by their UTF-8 encodings, so that the model works on bytes: a rune is stripped
  at an end of the string exactly when its encoding stands there.
\<close>

definition space_runes :: "string list" where
  "space_runes =
     [[CHR 0x09], [CHR 0x0A], [CHR 0x0B], [CHR 0x0C], [CHR 0x0D], [CHR 0x20],
      [CHR 0xC2, CHR 0x85], [CHR 0xC2, CHR 0xA0], [CHR 0xE1, CHR 0x9A, CHR 0x80],
      [CHR 0xE2, CHR 0x80, CHR 0x80], [CHR 0xE2, CHR 0x80, CHR 0x81],
      [CHR 0xE2, CHR 0x80, CHR 0x82], [CHR 0xE2, CHR 0x80, CHR 0x83],
      [CHR 0xE2, CHR 0x80, CHR 0x84], [CHR 0xE2, CHR 0x80, CHR 0x85],
      [CHR 0xE2, CHR 0x80, CHR 0x86], [CHR 0xE2, CHR 0x80, CHR 0x87],
      [CHR 0xE2, CHR 0x80, CHR 0x88], [CHR 0xE2, CHR 0x80, CHR 0x89],
      [CHR 0xE2, CHR 0x80, CHR 0x8A], [CHR 0xE2, CHR 0x80, CHR 0xA8],
      [CHR 0xE2, CHR 0x80, CHR 0xA9], [CHR 0xE2, CHR 0x80, CHR 0xAF],
      [CHR 0xE2, CHR 0x81, CHR 0x9F], [CHR 0xE3, CHR 0x80, CHR 0x80]]"

definition leading :: "string list \<Rightarrow> string \<Rightarrow> string option" where
  "leading ws s = find (\<lambda>w. w \<noteq> [] \<and> take (length w) s = w) ws"

lemma leading_Some: "leading ws s = Some w \<Longrightarrow> w \<in> set ws \<and> w \<noteq> [] \<and> take (length w) s = w"
  by (auto simp: leading_def find_Some_iff)

function strip :: "string list \<Rightarrow> string \<Rightarrow> string" where
  "strip ws s = (case leading ws s of None \<Rightarrow> s | Some w \<Rightarrow> strip ws (drop (length w) s))"
  by pat_completeness auto
termination
proof (relation "measure (\<lambda>(ws, s). length s)")
  fix ws s w
  assume "leading ws s = Some w"
  then have "w \<noteq> []" "take (length w) s = w" by (auto dest: leading_Some)
  then have "0 < length w" "0 < length s" by (auto simp: take_eq_Nil)
  then show "((ws, drop (length w) s), ws, s) \<in> measure (\<lambda>(ws, s). length s)" by simp
qed simp

declare strip.simps [simp del]

definition TrimSpace :: "string \<Rightarrow> string" where
  "TrimSpace s = rev (strip (map rev space_runes) (rev (strip space_runes s)))"

lemma leading_Nil [simp]: "leading ws [] = None"
  by (induction ws) (auto simp: leading_def)

lemma strip_Nil [simp]: "strip ws [] = []"
  by (subst strip.simps) simp

lemma strip_space: "strip space_runes (CHR '' '' # s) = strip space_runes s"
  by (subst strip.simps) (simp add: leading_def space_runes_def)

lemma TrimSpace_Nil [simp]: "TrimSpace [] = []"
  by (simp add: TrimSpace_def)

lemma TrimSpace_space [simp]: "TrimSpace (CHR '' '' # s) = TrimSpace s"
  by (simp add: TrimSpace_def strip_space)

subsection \<open>Numbers\<close>

definition digit_val :: "char \<Rightarrow> int option" where
  "digit_val c = map_of (zip ''0123456789'' [0, 1, 2, 3, 4, 5, 6, 7, 8, 9]) c"

fun digits_val :: "int \<Rightarrow> string \<Rightarrow> int option" where
  "digits_val acc [] = Some acc"
| "digits_val acc (c # cs) =
     (case digit_val c of None \<Rightarrow> None | Some d \<Rightarrow> digits_val (10 * acc + d) cs)"

text \<open>
  \<open>strconv.Atoi\<close>: an optional sign and decimal digits, in the range of a 64-bit \<open>int\<close>;
  \<open>None\<close> is the error result.
\<close>

definition Atoi :: "string \<Rightarrow> int option" where
  "Atoi s =
     (let neg = (case s of c # _ \<Rightarrow> c = CHR ''-'' | [] \<Rightarrow> False);
          body = (case s of c # cs \<Rightarrow> if c = CHR ''-'' \<or> c = CHR ''+'' then cs else s | [] \<Rightarrow> [])
      in if body = [] then None
         else case digits_val 0 body of
             None \<Rightarrow> None
           | Some n \<Rightarrow>
               (let v = (if neg then - n else n)
                in if - (2 ^ 63) \<le> v \<and> v < 2 ^ 63 then Some v else None))"

subsection \<open>HTTP headers\<close>

text \<open>
  \<open>http.Header\<close> is a Go map from keys to lists of values.  Its methods canonicalise
  the key first: each byte up to and after a hyphen is put in upper or lower case, unless
  some byte is not allowed in a header name, when the key is left alone.
\<close>

type_synonym header = "string \<rightharpoonup> string list"

definition lower_letters :: string where
  "lower_letters = ''abcdefghijklmnopqrstuvwxyz''"

definition upper_letters :: string where
  "upper_letters = ''ABCDEFGHIJKLMNOPQRSTUVWXYZ''"

definition token_byte :: "char \<Rightarrow> bool" where
  "token_byte c \<longleftrightarrow>
     c \<in> set lower_letters \<or> c \<in> set upper_letters \<or> c \<in> set ''0123456789'' \<or>
     c \<in> set ''!#$%&*+-.^_|~'' \<or> c = CHR 0x27 \<or> c = CHR 0x60"

definition to_upper :: "char \<Rightarrow> char" where
  "to_upper c = (case map_of (zip lower_letters upper_letters) c of None \<Rightarrow> c | Some u \<Rightarrow> u)"

definition to_lower :: "char \<Rightarrow> char" where
  "to_lower c = (case map_of (zip upper_letters lower_letters) c of None \<Rightarrow> c | Some l \<Rightarrow> l)"

fun canon_from :: "bool \<Rightarrow> string \<Rightarrow> string" where
  "canon_from up [] = []"
| "canon_from up (c # cs) =
     (let c' = (if up then to_upper c else to_lower c) in c' # canon_from (c' = CHR ''-'') cs)"

definition CanonicalHeaderKey :: "string \<Rightarrow> string" where
  "CanonicalHeaderKey k = (if list_all token_byte k then canon_from True k else k)"

definition hdr_values :: "header \<Rightarrow> string \<Rightarrow> string list" where
  "hdr_values h k = (case h (CanonicalHeaderKey k) of None \<Rightarrow> [] | Some vs \<Rightarrow> vs)"

definition hdr_Get :: "header \<Rightarrow> string \<Rightarrow> string" where
  "hdr_Get h k = (case hdr_values h k of [] \<Rightarrow> [] | v # _ \<Rightarrow> v)"

definition hdr_Add :: "header \<Rightarrow> string \<Rightarrow> string \<Rightarrow> header" where
  "hdr_Add h k v = h(CanonicalHeaderKey k \<mapsto> hdr_values h k @ [v])"

definition hdr_Set :: "header \<Rightarrow> string \<Rightarrow> string \<Rightarrow> header" where
  "hdr_Set h k v = h(CanonicalHeaderKey k \<mapsto> [v])"

definition hdr_Del :: "header \<Rightarrow> string \<Rightarrow> header" where
  "hdr_Del h k = h(CanonicalHeaderKey k := None)"

lemma hdr_Get_Set [simp]: "hdr_Get (hdr_Set h k v) k = v"
  by (simp add: hdr_Get_def hdr_Set_def hdr_values_def)

lemma hdr_values_Del:
  "hdr_values (hdr_Del h k) k' =
     (if CanonicalHeaderKey k' = CanonicalHeaderKey k then [] else hdr_values h k')"
  by (simp add: hdr_values_def hdr_Del_def)

lemma hdr_values_Add:
  "hdr_values (hdr_Add h k v) k' =
     (if CanonicalHeaderKey k' = CanonicalHeaderKey k then hdr_values h k @ [v]
      else hdr_values h k')"
  by (simp add: hdr_values_def hdr_Add_def)

lemma hdr_values_Set:
  "hdr_values (hdr_Set h k v) k' =
     (if CanonicalHeaderKey k' = CanonicalHeaderKey k then [v] else hdr_values h k')"
  by (simp add: hdr_values_def hdr_Set_def)

lemmas hdr_simps = hdr_values_Del hdr_values_Add hdr_values_Set

end
