(* ===== verification/HostPort.thy ===== *)
theory HostPort
  imports GoStrings
begin

text \<open>
  The address helpers of \<open>proxy/helpers.go\<close>: taking \<open>host:port\<close> apart, adding and
  removing the default port of a scheme, and resolving the host a request is for.
\<close>

text \<open>The fields of Go's \<open>net/url.URL\<close>; \<open>url_User\<close> is the userinfo, if any.\<close>

record url =
  url_Scheme :: string
  url_Opaque :: string
  url_User :: "string option"
  url_Host :: string
  url_Path :: string
  url_RawPath :: string
  url_ForceQuery :: bool
  url_RawQuery :: string
  url_Fragment :: string

definition SplitHostAndPort :: "string \<Rightarrow> string \<times> string" where
  "SplitHostAndPort hostWithPort =
     (let s = split_on CHR '':'' hostWithPort;
          host = (if 1 \<le> length s then s ! 0 else []);
          port = (if 2 \<le> length s then s ! 1 else [])
      in (host, port))"

definition insertPort :: "url \<Rightarrow> url" where
  "insertPort u =
     (let (host, port) = SplitHostAndPort (url_Host u);
          port' = (if port = [] then (if url_Scheme u = ''https'' then ''443'' else ''80'')
                   else port)
      in u\<lparr>url_Host := host @ '':'' @ port'\<rparr>)"

definition removeRedundantPort :: "url \<Rightarrow> url" where
  "removeRedundantPort u =
     (let (host, port) = SplitHostAndPort (url_Host u)
      in if url_Scheme u = ''http'' \<and> port = ''80'' then u\<lparr>url_Host := host\<rparr>
         else if url_Scheme u = ''https'' \<and> port = ''443'' then u\<lparr>url_Host := host\<rparr>
         else u)"

definition resolveRealHost :: "url \<Rightarrow> string \<Rightarrow> string" where
  "resolveRealHost URL headerHost =
     (let URL' = insertPort URL;
          (hostFromURL, portFromURL) = SplitHostAndPort (url_Host URL')
      in if headerHost \<noteq> [] then
           (let (host, port) = SplitHostAndPort headerHost;
                port' = (if port = [] then portFromURL else port);
                host' = (if host = [] then hostFromURL else host)
            in host' @ '':'' @ port')
         else url_Host URL')"

fun contains :: "string list \<Rightarrow> string \<Rightarrow> bool" where
  "contains [] element = False"
| "contains (x # xs) element = (if x = element then True else contains xs element)"

lemma contains_iff [simp]: "contains slice element \<longleftrightarrow> element \<in> set slice"
  by (induction slice) auto

subsection \<open>Splitting and joining\<close>

lemma SplitHostAndPort_alt:
  "SplitHostAndPort s =
     (takeWhile (\<lambda>x. x \<noteq> CHR '':'') s,
      case split_on CHR '':'' s of _ # p # _ \<Rightarrow> p | _ \<Rightarrow> [])"
  by (cases "split_on CHR '':'' s"; cases "tl (split_on CHR '':'' s)")
     (auto simp: SplitHostAndPort_def hd_split_on [symmetric])

lemma SplitHostAndPort_host_free: "CHR '':'' \<notin> set (fst (SplitHostAndPort s))"
  by (auto simp: SplitHostAndPort_alt dest: set_takeWhileD)

lemma SplitHostAndPort_port_free: "CHR '':'' \<notin> set (snd (SplitHostAndPort s))"
proof -
  have "p \<in> set (split_on CHR '':'' s) \<Longrightarrow> CHR '':'' \<notin> set p" for p
    by (rule split_on_parts_free)
  then show ?thesis
    by (cases "split_on CHR '':'' s"; cases "tl (split_on CHR '':'' s)")
       (auto simp: SplitHostAndPort_alt)
qed

lemma SplitHostAndPort_no_port:
  "CHR '':'' \<notin> set h \<Longrightarrow> SplitHostAndPort h = (h, [])"
  by (simp add: SplitHostAndPort_def split_on_free)

lemma SplitHostAndPort_join:
  assumes "CHR '':'' \<notin> set h" and "CHR '':'' \<notin> set p"
  shows "SplitHostAndPort (h @ CHR '':'' # p) = (h, p)"
  using assms by (simp add: SplitHostAndPort_def split_on_append split_on_free)

lemmas split_host_port = SplitHostAndPort_no_port SplitHostAndPort_join

abbreviation default_port :: "string \<Rightarrow> string" where
  "default_port scheme \<equiv> (if scheme = ''https'' then ''443'' else ''80'')"

lemma insertPort_cases:
  obtains h p where
    "SplitHostAndPort (url_Host u) = (h, p)"
    "CHR '':'' \<notin> set h" "CHR '':'' \<notin> set p"
    "insertPort u = u\<lparr>url_Host := h @ CHR '':'' #
       (if p = [] then default_port (url_Scheme u) else p)\<rparr>"
proof -
  obtain h p where hp: "SplitHostAndPort (url_Host u) = (h, p)"
    by fastforce
  with SplitHostAndPort_host_free [of "url_Host u"] SplitHostAndPort_port_free [of "url_Host u"]
  have "CHR '':'' \<notin> set h" "CHR '':'' \<notin> set p"
    by simp_all
  with hp show thesis
    by (intro that) (simp_all add: insertPort_def)
qed

lemma default_port_free [simp]: "CHR '':'' \<notin> set (default_port scheme)"
  by simp

lemma insertPort_split:
  assumes "SplitHostAndPort (url_Host u) = (h, p)"
  shows "SplitHostAndPort (url_Host (insertPort u)) =
           (h, if p = [] then default_port (url_Scheme u) else p)"
proof -
  have "CHR '':'' \<notin> set h" "CHR '':'' \<notin> set p"
    using SplitHostAndPort_host_free [of "url_Host u"] SplitHostAndPort_port_free [of "url_Host u"]
    by (simp_all add: assms)
  then show ?thesis
    by (simp add: insertPort_def assms SplitHostAndPort_join)
qed

subsection \<open>Properties\<close>

text \<open>Adding the default port is idempotent: whatever the URL's host looks like, a
  second \<open>insertPort\<close> changes nothing, so the callers that add the port to a copy of an
  already completed URL (\<open>Open\<close> and then \<open>createConn\<close>) agree on the address.\<close>

theorem insertPort_idem: "insertPort (insertPort u) = insertPort u"
proof -
  obtain h p where hp: "SplitHostAndPort (url_Host u) = (h, p)"
    by fastforce
  have s: "url_Scheme (insertPort u) = url_Scheme u"
    by (simp add: insertPort_def hp)
  show ?thesis
    unfolding insertPort_def [of "insertPort u"]
    by (simp add: insertPort_split [OF hp] s) (simp add: insertPort_def hp)
qed

text \<open>Removing the redundant port never loses the address that is dialled: completing
  the shortened URL gives back what completing the original gives, for every scheme and
  every host.\<close>

theorem insertPort_removeRedundantPort:
  "insertPort (removeRedundantPort u) = insertPort u"
proof -
  obtain h p where hp: "SplitHostAndPort (url_Host u) = (h, p)"
    by fastforce
  then have "CHR '':'' \<notin> set h"
    using SplitHostAndPort_host_free [of "url_Host u"] by simp
  then show ?thesis
    by (simp add: removeRedundantPort_def insertPort_def hp SplitHostAndPort_no_port)
qed

text \<open>What \<open>resolveRealHost\<close> computes: the \<open>Host\<close> header wins over the URL, part by
  part; a part the header lacks comes from the URL, and a port both lack is the default of
  the scheme.  The result always splits back into exactly these two parts.\<close>

theorem resolveRealHost_spec:
  "SplitHostAndPort (resolveRealHost u hdr) =
     (let (hh, hp) = SplitHostAndPort hdr; (uh, up) = SplitHostAndPort (url_Host u)
      in (if hh \<noteq> [] then hh else uh,
          if hp \<noteq> [] then hp else if up \<noteq> [] then up else default_port (url_Scheme u)))"
proof -
  obtain hh hp where h: "SplitHostAndPort hdr = (hh, hp)" by fastforce
  obtain uh up where u: "SplitHostAndPort (url_Host u) = (uh, up)" by fastforce
  have free: "CHR '':'' \<notin> set hh" "CHR '':'' \<notin> set hp" "CHR '':'' \<notin> set uh" "CHR '':'' \<notin> set up"
    using SplitHostAndPort_host_free [of hdr] SplitHostAndPort_port_free [of hdr]
      SplitHostAndPort_host_free [of "url_Host u"] SplitHostAndPort_port_free [of "url_Host u"]
    by (simp_all add: h u)
  have "hh = [] \<and> hp = []" if "hdr = []"
    using that h by (simp add: SplitHostAndPort_def)
  then show ?thesis
    using free
    by (auto simp: resolveRealHost_def h u insertPort_split [OF u] SplitHostAndPort_join)
qed

text \<open>A bracketed IPv6 address is cut at its first colon: the host is \<open>[\<close> and the port is
  empty, so no caller reaches the address it was given.\<close>

lemma SplitHostAndPort_ipv6: "SplitHostAndPort ''[::1]:443'' = (''['', [])"
  by (simp add: SplitHostAndPort_def)

end
