(* ===== verification/GoIo.thy ===== *)
theory GoIo
  imports Prelude
begin

text \<open>
  Go's \<open>io\<close> interfaces.  A reader with state \<open>'s\<close> is its \<open>Read\<close> method: given the
  state and the length of the buffer it returns the bytes it delivered, the error value
  (\<open>None\<close> is \<open>nil\<close>) and the new state.  A closer is its \<open>Close\<close> method.

  The contract of \<open>io.Reader\<close> is the locale \<open>io_reader\<close>: a state stands for the bytes
  still to come (\<open>rest\<close>) and the error that ends them (\<open>fin\<close>); a read delivers a prefix
  of them, no more than was asked for, and a read into a non-empty buffer that reports no
  error makes progress (\<open>rank\<close>), so that a loop of reads ends.  Everything the program
  puts around a body is proved to keep this contract, in the theories that follow.
\<close>

type_synonym 's read_fn = "'s \<Rightarrow> nat \<Rightarrow> bytes \<times> goerr option \<times> 's"
type_synonym 's close_fn = "'s \<Rightarrow> goerr option \<times> 's"

subsection \<open>The loops that consume a reader\<close>

text \<open>
  Reading to the end with buffers of the sizes \<open>sz 0, sz 1, ...\<close>, as \<open>io.Copy\<close> and
  \<open>ioutil.ReadAll\<close> do: the bytes, the error that ended them and the last state.
  \<open>None\<close> means that the loop never ends.
\<close>

partial_function (option) drain ::
  "'s read_fn \<Rightarrow> (nat \<Rightarrow> nat) \<Rightarrow> nat \<Rightarrow> bytes \<Rightarrow> 's \<Rightarrow> (bytes \<times> goerr \<times> 's) option" where
  "drain rd sz i acc s =
     (let (bs, e, s') = rd s (sz i)
      in case e of
           Some x \<Rightarrow> Some (acc @ bs, x, s')
         | None \<Rightarrow> drain rd sz (Suc i) (acc @ bs) s')"

subsection \<open>The contract\<close>

locale io_reader =
  fixes rd :: "'s \<Rightarrow> nat \<Rightarrow> bytes \<times> goerr option \<times> 's"
    and ok :: "'s \<Rightarrow> bool"
    and rest :: "'s \<Rightarrow> bytes"
    and fin :: "'s \<Rightarrow> goerr"
    and rank :: "'s \<Rightarrow> nat"
  assumes rd_len: "ok s \<Longrightarrow> rd s n = (bs, e, s') \<Longrightarrow> length bs \<le> n"
    and rd_ok: "ok s \<Longrightarrow> rd s n = (bs, e, s') \<Longrightarrow> ok s'"
    and rd_rest: "ok s \<Longrightarrow> rd s n = (bs, e, s') \<Longrightarrow> rest s = bs @ rest s'"
    and rd_fin: "ok s \<Longrightarrow> rd s n = (bs, e, s') \<Longrightarrow> fin s' = fin s"
    and rd_more: "ok s \<Longrightarrow> rd s n = (bs, None, s') \<Longrightarrow> 0 < n \<Longrightarrow> rank s' < rank s"
    and rd_end: "ok s \<Longrightarrow> rd s n = (bs, Some x, s') \<Longrightarrow> x = fin s \<and> rest s' = []"
begin

lemmas rd_laws = rd_len rd_ok rd_rest rd_fin

text \<open>All laws of one step at once, and the same as an introduction rule for the contract.\<close>

lemma rd_step:
  assumes "ok s" and "rd s n = (bs, e, s')"
  shows "length bs \<le> n" "ok s'" "rest s = bs @ rest s'" "fin s' = fin s"
    "e = None \<Longrightarrow> 0 < n \<Longrightarrow> rank s' < rank s"
    "e = Some x \<Longrightarrow> x = fin s" "e = Some x \<Longrightarrow> rest s' = []"
  using assms rd_len rd_ok rd_rest rd_fin rd_more [of s n bs s'] rd_end [of s n bs x s']
  by auto

text \<open>A wrapper whose reads are the reads of the reader inside it keeps the contract.\<close>

lemma wrapped_reader:
  assumes "\<And>w n bs e w'. wr w n = (bs, e, w') \<Longrightarrow> rd (p w) n = (bs, e, p w')"
  shows "io_reader wr (\<lambda>w. ok (p w)) (\<lambda>w. rest (p w)) (\<lambda>w. fin (p w)) (\<lambda>w. rank (p w))"
proof
  fix w n bs e w' x
  assume ok: "ok (p w)"
  { assume r: "wr w n = (bs, e, w')"
    from rd_laws [OF ok assms [OF r]]
    show "length bs \<le> n" "ok (p w')" "rest (p w) = bs @ rest (p w')" "fin (p w') = fin (p w)"
      by simp_all }
  { assume "wr w n = (bs, None, w')" and "0 < n"
    with rd_more [OF ok assms] show "rank (p w') < rank (p w)" by blast }
  { assume "wr w n = (bs, Some x, w')"
    with rd_end [OF ok assms] show "x = fin (p w) \<and> rest (p w') = []" by blast }
qed

lemma drain_all:
  assumes "ok s" and "\<And>i. 0 < sz i"
  shows "\<exists>s'. drain rd sz i acc s = Some (acc @ rest s, fin s, s') \<and> ok s' \<and> rest s' = []"
  using assms(1)
proof (induction "rank s" arbitrary: s i acc rule: less_induct)
  case less
  obtain bs e s' where r: "rd s (sz i) = (bs, e, s')"
    by (cases "rd s (sz i)") auto
  note step = rd_ok [OF less.prems r] rd_rest [OF less.prems r] rd_fin [OF less.prems r]
  show ?case
  proof (cases e)
    case None
    with less.hyps [OF rd_more [OF less.prems r [unfolded None] assms(2)] step(1),
        of "Suc i" "acc @ bs"] step r
    show ?thesis by (simp add: drain.simps [of rd sz i])
  next
    case (Some x)
    with rd_end [OF less.prems r [unfolded Some]] step r
    show ?thesis by (simp add: drain.simps [of rd sz i])
  qed
qed

end

subsection \<open>A source of bytes\<close>

text \<open>
  The body a connection delivers, as any finite behaviour of a reader: a list of events,
  each some bytes with or without an error; a read takes the first event, or a part of it
  when the buffer is shorter.  The end of the list is \<open>EOF\<close>, an error stays, and a
  closed source refuses to be read.
\<close>

record source =
  src_events :: "(bytes \<times> goerr option) list"
  src_closed :: bool

definition src_read :: "source read_fn" where
  "src_read s n =
     (if src_closed s then ([], Some (Err ''read on closed body''), s)
      else case src_events s of
             [] \<Rightarrow> ([], Some EOF, s)
           | (bs, e) # evs \<Rightarrow>
               (if length bs \<le> n
                then (case e of
                        None \<Rightarrow> (bs, None, s\<lparr>src_events := evs\<rparr>)
                      | Some x \<Rightarrow> (bs, Some x, s\<lparr>src_events := [([], Some x)]\<rparr>))
                else (take n bs, None, s\<lparr>src_events := (drop n bs, e) # evs\<rparr>)))"

definition src_close :: "source close_fn" where
  "src_close s = (None, s\<lparr>src_closed := True\<rparr>)"

fun events_rest :: "(bytes \<times> goerr option) list \<Rightarrow> bytes" where
  "events_rest [] = []"
| "events_rest ((bs, None) # evs) = bs @ events_rest evs"
| "events_rest ((bs, Some x) # evs) = bs"

fun events_fin :: "(bytes \<times> goerr option) list \<Rightarrow> goerr" where
  "events_fin [] = EOF"
| "events_fin ((bs, None) # evs) = events_fin evs"
| "events_fin ((bs, Some x) # evs) = x"

definition src_ok :: "source \<Rightarrow> bool" where
  "src_ok s \<longleftrightarrow> \<not> src_closed s"

definition src_rest :: "source \<Rightarrow> bytes" where
  "src_rest s = events_rest (src_events s)"

definition src_fin :: "source \<Rightarrow> goerr" where
  "src_fin s = events_fin (src_events s)"

definition src_rank :: "source \<Rightarrow> nat" where
  "src_rank s = sum_list (map (\<lambda>(bs, e). Suc (length bs)) (src_events s))"

lemmas src_defs = src_read_def src_ok_def src_rest_def src_fin_def src_rank_def

interpretation src: io_reader src_read src_ok src_rest src_fin src_rank
proof (unfold_locales, goal_cases)
  case (3 s n bs e s')
  then show ?case
    by (cases "src_events s"; cases "snd (hd (src_events s))")
       (auto simp: src_defs split: if_splits)
next
  case (4 s n bs e s')
  then show ?case
    by (cases "src_events s"; cases "snd (hd (src_events s))")
       (auto simp: src_defs split: if_splits)
qed (auto simp: src_defs split: list.splits if_splits option.splits)

subsection \<open>Readers over strings\<close>

text \<open>\<open>strings.Reader\<close> and \<open>bytes.Reader\<close> report \<open>EOF\<close> whenever nothing is left;
  \<open>bytes.Buffer\<close> does so only for a non-empty read buffer.\<close>

definition string_read :: "bytes read_fn" where
  "string_read s n = (if s = [] then ([], Some EOF, []) else (take n s, None, drop n s))"

definition buffer_read :: "bytes read_fn" where
  "buffer_read s n =
     (if s = [] then (if n = 0 then ([], None, []) else ([], Some EOF, []))
      else (take n s, None, drop n s))"

interpretation strr: io_reader string_read "\<lambda>_. True" "\<lambda>s. s" "\<lambda>_. EOF" length
  by unfold_locales (auto simp: string_read_def split: if_splits)

interpretation bufr: io_reader buffer_read "\<lambda>_. True" "\<lambda>s. s" "\<lambda>_. EOF" length
  by unfold_locales (auto simp: buffer_read_def split: if_splits)

subsection \<open>io.MultiReader\<close>

text \<open>
  \<open>io.MultiReader(a, b)\<close>: \<open>mr_left\<close> counts the readers still in its list.  A reader
  that reports \<open>EOF\<close> is dropped; its \<open>EOF\<close> is passed on only when it was the last.  The
  states of dropped readers stay in the record, since others may hold them too.
\<close>

record ('a, 'b) multi =
  mr_left :: nat
  mr_a :: 'a
  mr_b :: 'b

definition MultiReader :: "'a \<Rightarrow> 'b \<Rightarrow> ('a, 'b) multi" where
  "MultiReader a b = \<lparr>mr_left = 2, mr_a = a, mr_b = b\<rparr>"

definition multi_read_last :: "'b read_fn \<Rightarrow> ('a, 'b) multi read_fn" where
  "multi_read_last rdb m n =
     (if mr_left m = 0 then ([], Some EOF, m)
      else let (bs, e, b') = rdb (mr_b m) n
           in if e = Some EOF then (bs, Some EOF, m\<lparr>mr_left := 0, mr_b := b'\<rparr>)
              else (bs, e, m\<lparr>mr_b := b'\<rparr>))"

definition multi_read :: "'a read_fn \<Rightarrow> 'b read_fn \<Rightarrow> ('a, 'b) multi read_fn" where
  "multi_read rda rdb m n =
     (if mr_left m = 2 then
        (let (bs, e, a') = rda (mr_a m) n
         in if e = Some EOF then
              (let m' = m\<lparr>mr_left := 1, mr_a := a'\<rparr>
               in if bs \<noteq> [] then (bs, None, m') else multi_read_last rdb m' n)
            else (bs, e, m\<lparr>mr_a := a'\<rparr>))
      else multi_read_last rdb m n)"

locale reader_pair =
  a: io_reader rda oka resta fina ranka + b: io_reader rdb okb restb finb rankb
  for rda :: "'a read_fn" and oka resta fina ranka
    and rdb :: "'b read_fn" and okb restb finb rankb
begin

definition multi_ok :: "('a, 'b) multi \<Rightarrow> bool" where
  "multi_ok m \<longleftrightarrow> oka (mr_a m) \<and> okb (mr_b m)"

definition multi_rest :: "('a, 'b) multi \<Rightarrow> bytes" where
  "multi_rest m =
     (if mr_left m = 2 then
        resta (mr_a m) @ (if fina (mr_a m) = EOF then restb (mr_b m) else [])
      else if mr_left m = 0 then [] else restb (mr_b m))"

definition multi_fin :: "('a, 'b) multi \<Rightarrow> goerr" where
  "multi_fin m =
     (if mr_left m = 2 then (if fina (mr_a m) = EOF then finb (mr_b m) else fina (mr_a m))
      else if mr_left m = 0 then EOF else finb (mr_b m))"

definition multi_rank :: "('a, 'b) multi \<Rightarrow> nat" where
  "multi_rank m = (if mr_left m = 2 then Suc (ranka (mr_a m)) else 0) + rankb (mr_b m)"

lemmas multi_defs = multi_ok_def multi_rest_def multi_fin_def multi_rank_def

lemma multi_last_step:
  assumes "multi_ok m" and "mr_left m \<noteq> 2" and "multi_read_last rdb m n = (bs, e, m')"
  shows "length bs \<le> n \<and> multi_ok m' \<and> multi_rest m = bs @ multi_rest m' \<and>
    multi_fin m' = multi_fin m \<and> mr_left m' \<noteq> 2 \<and>
    (e = None \<longrightarrow> 0 < n \<longrightarrow> multi_rank m' < multi_rank m) \<and>
    (\<forall>x. e = Some x \<longrightarrow> x = multi_fin m \<and> multi_rest m' = [])"
proof (cases "mr_left m = 0")
  case True
  with assms show ?thesis by (auto simp: multi_read_last_def multi_defs)
next
  case False
  obtain cs d b' where r: "rdb (mr_b m) n = (cs, d, b')"
    by (cases "rdb (mr_b m) n") auto
  have ok: "okb (mr_b m)" using assms(1) by (simp add: multi_ok_def)
  note st = b.rd_step [OF ok r]
  show ?thesis
  proof (cases "d = Some EOF")
    case True
    with st(6,7) have "finb (mr_b m) = EOF" "restb b' = []" by metis+
    with assms False r st(1-4) True show ?thesis
      by (simp add: multi_read_last_def multi_defs) (auto simp: multi_defs)
  next
    case noteof: False
    with assms False r have m': "bs = cs" "e = d" "m' = m\<lparr>mr_b := b'\<rparr>"
      by (simp_all add: multi_read_last_def)
    from assms(1,2) False st(1-5) st(6,7) [of "the d"] show ?thesis
      by (cases d) (simp_all add: m' multi_defs)
  qed
qed

lemma multi_step:
  assumes "multi_ok m" and "multi_read rda rdb m n = (bs, e, m')"
  shows "length bs \<le> n \<and> multi_ok m' \<and> multi_rest m = bs @ multi_rest m' \<and>
    multi_fin m' = multi_fin m \<and>
    (e = None \<longrightarrow> 0 < n \<longrightarrow> multi_rank m' < multi_rank m) \<and>
    (\<forall>x. e = Some x \<longrightarrow> x = multi_fin m \<and> multi_rest m' = [])"
proof (cases "mr_left m = 2")
  case False
  with assms multi_last_step [OF assms(1), of n bs e m'] show ?thesis
    by (auto simp: multi_read_def)
next
  case True
  obtain cs d a' where r: "rda (mr_a m) n = (cs, d, a')"
    by (cases "rda (mr_a m) n") auto
  have ok: "oka (mr_a m)" using assms(1) by (simp add: multi_ok_def)
  note st = a.rd_step [OF ok r]
  let ?m1 = "m\<lparr>mr_left := 1, mr_a := a'\<rparr>"
  show ?thesis
  proof (cases "d = Some EOF")
    case False
    with assms True r have m': "bs = cs" "e = d" "m' = m\<lparr>mr_a := a'\<rparr>"
      by (simp_all add: multi_read_def)
    from False have "fina (mr_a m) \<noteq> EOF" if "d \<noteq> None"
      using that st(6) [of "the d"] by auto
    with assms(1) True st(1-5) st(6,7) [of "the d"] show ?thesis
      by (cases d) (simp_all add: m' multi_defs)
  next
    case eof: True
    with st(6,7) have "fina (mr_a m) = EOF" "resta a' = []" by metis+
    then have m1: "multi_ok ?m1" "multi_rest m = cs @ multi_rest ?m1" "multi_fin ?m1 = multi_fin m"
      "multi_rank ?m1 < multi_rank m"
      using True assms(1) st(1-4) by (simp_all add: multi_defs)
    show ?thesis
    proof (cases "cs = []")
      case False
      with True assms(2) r eof have "bs = cs" "e = None" "m' = ?m1"
        by (simp_all add: multi_read_def Let_def)
      with m1 st(1) show ?thesis by simp
    next
      case nil: True
      with True assms(2) r eof have "multi_read_last rdb ?m1 n = (bs, e, m')"
        by (simp add: multi_read_def)
      from multi_last_step [OF m1(1) _ this] m1 nil show ?thesis by fastforce
    qed
  qed
qed

lemma multi_reader: "io_reader (multi_read rda rdb) multi_ok multi_rest multi_fin multi_rank"
proof
  fix m n bs e m' x
  assume ok: "multi_ok m"
  note st = multi_step [OF ok]
  { assume r: "multi_read rda rdb m n = (bs, e, m')"
    from st [OF r] show "length bs \<le> n" "multi_ok m'" "multi_rest m = bs @ multi_rest m'"
      "multi_fin m' = multi_fin m" by simp_all }
  { assume "multi_read rda rdb m n = (bs, None, m')" and "0 < n"
    with st show "multi_rank m' < multi_rank m" by blast }
  { assume "multi_read rda rdb m n = (bs, Some x, m')"
    with st show "x = multi_fin m \<and> multi_rest m' = []" by blast }
qed

end

end
