(* ===== verification/BodyReaders.thy ===== *)
theory BodyReaders
  imports GoIo
begin

text \<open>
  The readers the proxy wraps around message bodies: \<open>ReadCloserPair\<close>
  (\<open>readCustomCloser.go\<close>), \<open>doubleCloser\<close> (\<open>doubleReadCloser.go\<close>),
  \<open>readCloserStats\<close> (\<open>ReadCloserStats.go\<close>) and \<open>teeReadCloser\<close>
  (\<open>TeeReadCloser.go\<close>).  An interface field of the source is the method it holds, acting
  on the state \<open>'s\<close> that all the fields share, so a reader and a closer that refer to the
  same body see each other's effects.
\<close>

subsection \<open>ReadCloserPair\<close>

record 's ReadCloserPair =
  rcp_c :: "'s close_fn"
  rcp_r :: "'s read_fn"

definition rcp_Close :: "'s ReadCloserPair \<Rightarrow> 's close_fn" where
  "rcp_Close rcp s = rcp_c rcp s"

definition rcp_Read :: "'s ReadCloserPair \<Rightarrow> 's read_fn" where
  "rcp_Read rcp s p = rcp_r rcp s p"

subsection \<open>doubleCloser\<close>

record 's doubleCloser =
  dc_c :: "'s close_fn"
  dc_rc_Close :: "'s close_fn"
  dc_rc_Read :: "'s read_fn"

definition NewReadDoubleCloser :: "'s read_fn \<Rightarrow> 's close_fn \<Rightarrow> 's close_fn \<Rightarrow> 's doubleCloser" where
  "NewReadDoubleCloser rcRead rcClose c =
     \<lparr>dc_c = c, dc_rc_Close = rcClose, dc_rc_Read = rcRead\<rparr>"

definition dc_Close :: "'s doubleCloser \<Rightarrow> 's close_fn" where
  "dc_Close dc s =
     (let (err1, s1) = dc_rc_Close dc s;
          (err2, s2) = dc_c dc s1
      in (if err1 \<noteq> None then err1 else err2, s2))"

definition dc_Read :: "'s doubleCloser \<Rightarrow> 's read_fn" where
  "dc_Read dc s p = dc_rc_Read dc s p"

text \<open>A closer of one component of a pair, and of the other.\<close>

definition on_fst :: "'a close_fn \<Rightarrow> ('a \<times> 'b) close_fn" where
  "on_fst cl ab = (let (e, a) = cl (fst ab) in (e, (a, snd ab)))"

definition on_snd :: "'b close_fn \<Rightarrow> ('a \<times> 'b) close_fn" where
  "on_snd cl ab = (let (e, b) = cl (snd ab) in (e, (fst ab, b)))"

subsection \<open>readCloserStats\<close>

record 's readCloserStats =
  rcs_rc :: 's
  rcs_Closed :: bool
  rcs_Used :: bool

definition ReadCloserStats :: "'s \<Rightarrow> 's readCloserStats" where
  "ReadCloserStats rc = \<lparr>rcs_rc = rc, rcs_Closed = False, rcs_Used = False\<rparr>"

definition rcs_Close :: "'s close_fn \<Rightarrow> 's readCloserStats close_fn" where
  "rcs_Close cl rcs =
     (let rcs' = rcs\<lparr>rcs_Closed := True, rcs_Used := True\<rparr>;
          (e, s) = cl (rcs_rc rcs')
      in (e, rcs'\<lparr>rcs_rc := s\<rparr>))"

definition rcs_Read :: "'s read_fn \<Rightarrow> 's readCloserStats read_fn" where
  "rcs_Read rd rcs p =
     (let rcs' = rcs\<lparr>rcs_Used := True\<rparr>;
          (bs, e, s) = rd (rcs_rc rcs') p
      in (bs, e, rcs'\<lparr>rcs_rc := s\<rparr>))"

datatype rcs_op = RcsRead nat | RcsClose

fun rcs_run :: "'s read_fn \<Rightarrow> 's close_fn \<Rightarrow> rcs_op list \<Rightarrow> 's readCloserStats \<Rightarrow> 's readCloserStats"
  where
  "rcs_run rd cl [] r = r"
| "rcs_run rd cl (RcsRead n # ops) r = rcs_run rd cl ops (snd (snd (rcs_Read rd r n)))"
| "rcs_run rd cl (RcsClose # ops) r = rcs_run rd cl ops (snd (rcs_Close cl r))"

subsection \<open>teeReadCloser\<close>

text \<open>
  \<open>io.TeeReader(r, w)\<close>: what a read delivers is written to \<open>w\<close>; a write error is
  returned with the count of bytes written.  \<open>'w\<close> is the state of the writer.
\<close>

type_synonym 'w write_fn = "'w \<Rightarrow> bytes \<Rightarrow> nat \<times> goerr option \<times> 'w"

definition tee_read :: "'s read_fn \<Rightarrow> 'w write_fn \<Rightarrow> ('s \<times> 'w) read_fn" where
  "tee_read rd wr sw p =
     (let (bs, e, s) = rd (fst sw) p
      in if bs \<noteq> [] then
           (let (n, we, w) = wr (snd sw) bs
            in case we of Some x \<Rightarrow> (take n bs, Some x, (s, w)) | None \<Rightarrow> (bs, e, (s, w)))
         else (bs, e, (s, snd sw)))"

record 's teeReadCloser =
  trc_tee :: "'s read_fn"
  trc_close :: "'s close_fn"

definition TeeReadCloser ::
  "'s read_fn \<Rightarrow> 's close_fn \<Rightarrow> 'w write_fn \<Rightarrow> ('s \<times> 'w) teeReadCloser" where
  "TeeReadCloser rd cl wr = \<lparr>trc_tee = tee_read rd wr, trc_close = on_fst cl\<rparr>"

definition trc_Read :: "'s teeReadCloser \<Rightarrow> 's read_fn" where
  "trc_Read trc s p = trc_tee trc s p"

definition trc_Close :: "'s teeReadCloser \<Rightarrow> 's close_fn" where
  "trc_Close trc s = trc_close trc s"

text \<open>A writer that keeps everything, as \<open>bytes.Buffer\<close>.\<close>

definition sink_write :: "bytes write_fn" where
  "sink_write w bs = (length bs, None, w @ bs)"

subsection \<open>The wrappers keep the reader contract\<close>

context io_reader
begin

lemma stats_reader:
  "io_reader (rcs_Read rd) (\<lambda>r. ok (rcs_rc r)) (\<lambda>r. rest (rcs_rc r)) (\<lambda>r. fin (rcs_rc r))
     (\<lambda>r. rank (rcs_rc r))"
  by (rule wrapped_reader) (auto simp: rcs_Read_def split: prod.splits)

lemma double_reader:
  "dc_rc_Read dc = rd \<Longrightarrow> io_reader (dc_Read dc) ok rest fin rank"
  by (rule wrapped_reader [where p = "\<lambda>s. s"]) (simp add: dc_Read_def)

lemma tee_reader:
  "io_reader (tee_read rd sink_write) (\<lambda>r. ok (fst r)) (\<lambda>r. rest (fst r)) (\<lambda>r. fin (fst r))
     (\<lambda>r. rank (fst r))"
  by (rule wrapped_reader) (auto simp: tee_read_def sink_write_def split: prod.splits if_splits)

text \<open>The tee hands on what it read: a whole read of it leaves the same bytes in the sink.\<close>

lemma tee_drain:
  assumes "ok s" and "\<And>i. 0 < sz i"
  shows "\<exists>s'. drain (tee_read rd sink_write) sz i acc (s, w) =
    Some (acc @ rest s, fin s, (s', w @ rest s))"
  using assms(1)
proof (induction "rank s" arbitrary: s i acc w rule: less_induct)
  case less
  obtain bs e s' where r: "rd s (sz i) = (bs, e, s')"
    by (cases "rd s (sz i)") auto
  then have t: "tee_read rd sink_write (s, w) (sz i) = (bs, e, (s', w @ bs))"
    by (simp add: tee_read_def sink_write_def)
  note st = rd_step [OF less.prems r]
  show ?case
  proof (cases e)
    case None
    with less.hyps [OF st(5) st(2), of "Suc i" "acc @ bs" "w @ bs"] assms(2) st t
    show ?thesis by (simp add: drain.simps [of "tee_read rd sink_write" sz i])
  next
    case (Some x)
    with st(3) st(6,7) [OF Some] t show ?thesis
      by (simp add: drain.simps [of "tee_read rd sink_write" sz i])
  qed
qed

end

interpretation stats_src: io_reader "rcs_Read src_read" "\<lambda>r. src_ok (rcs_rc r)"
  "\<lambda>r. src_rest (rcs_rc r)" "\<lambda>r. src_fin (rcs_rc r)" "\<lambda>r. src_rank (rcs_rc r)"
  by (rule src.stats_reader)

interpretation tee_src: io_reader "tee_read src_read sink_write" "\<lambda>r. src_ok (fst r)"
  "\<lambda>r. src_rest (fst r)" "\<lambda>r. src_fin (fst r)" "\<lambda>r. src_rank (fst r)"
  by (rule src.tee_reader)

subsection \<open>Properties\<close>

lemma rcs_run_Used: "rcs_Used (rcs_run rd cl ops r) \<longleftrightarrow> rcs_Used r \<or> ops \<noteq> []"
  by (induction rd cl ops r rule: rcs_run.induct)
     (auto simp: rcs_Read_def rcs_Close_def split: prod.splits)

lemma rcs_run_Closed: "rcs_Closed (rcs_run rd cl ops r) \<longleftrightarrow> rcs_Closed r \<or> RcsClose \<in> set ops"
  by (induction rd cl ops r rule: rcs_run.induct)
     (auto simp: rcs_Read_def rcs_Close_def split: prod.splits)

text \<open>The statistics of a wrapped body tell the truth about its whole history: after any
  sequence of reads and closes on a fresh \<open>readCloserStats\<close>, \<open>Used\<close> holds exactly when the
  body was touched at all and \<open>Closed\<close> exactly when it was closed.  This is what the retry
  guard of \<open>RoundTrip\<close> relies on.\<close>

theorem readCloserStats_history:
  "rcs_Used (rcs_run rd cl ops (ReadCloserStats b)) = (ops \<noteq> []) \<and>
   rcs_Closed (rcs_run rd cl ops (ReadCloserStats b)) = (RcsClose \<in> set ops)"
  by (simp add: rcs_run_Used rcs_run_Closed) (simp add: ReadCloserStats_def)

text \<open>A doubly closed body releases both of its resources, whatever the first close
  reports: closing a decoder \<open>a\<close> stacked on a connection \<open>b\<close> runs both closers, once each,
  and returns the decoder's error if there is one and the connection's otherwise.\<close>

theorem doubleCloser_closes_both:
  "dc_Close (NewReadDoubleCloser rd (on_fst cla) (on_snd clb)) (a, b) =
     (let (ea, a') = cla a; (eb, b') = clb b
      in (case ea of Some x \<Rightarrow> Some x | None \<Rightarrow> eb, (a', b')))"
  by (auto simp: dc_Close_def NewReadDoubleCloser_def on_fst_def on_snd_def
      split: prod.splits option.splits)

text \<open>A tee is invisible to its reader and complete for its sink: reading a teed body to
  the end, with buffers of any non-zero sizes, gives exactly the body's bytes and its final
  error, and leaves exactly those bytes in the sink.\<close>

theorem TeeReadCloser_copies:
  assumes "\<not> src_closed s" and "\<And>i. 0 < sz i"
  shows "\<exists>s'. drain (trc_Read (TeeReadCloser src_read src_close sink_write)) sz 0 [] (s, []) =
    Some (src_rest s, src_fin s, (s', src_rest s))"
proof -
  have "trc_Read (TeeReadCloser src_read src_close sink_write) = tee_read src_read sink_write"
    by (intro ext) (simp add: trc_Read_def TeeReadCloser_def)
  with src.tee_drain [of s sz 0 "[]" "[]"] assms show ?thesis
    by (simp add: src_ok_def)
qed

theorem TeeReadCloser_copies_witness:
  "\<exists>s'. drain (trc_Read (TeeReadCloser src_read src_close sink_write)) (\<lambda>_. 2) 0 []
      (\<lparr>src_events = [(''abc'', None), (''d'', Some EOF)], src_closed = False\<rparr>, []) =
    Some (''abcd'', EOF, (s', ''abcd''))"
  using TeeReadCloser_copies
    [of "\<lparr>src_events = [(''abc'', None), (''d'', Some EOF)], src_closed = False\<rparr>" "\<lambda>_. 2"]
  by (simp add: src_rest_def src_fin_def)

end
