(* ===== verification/GoRegexp.thy ===== *)
theory GoRegexp
  imports Prelude
begin

text \<open>
  What the program uses of Go's \<open>regexp\<close>: a compiled expression and its \<open>String\<close>,
  \<open>MatchString\<close> and \<open>ReplaceAll\<close>.  The matcher itself (leftmost-first search from a
  position) is a field of the record, so everything below holds for every engine;
  \<open>ReplaceAll\<close> and the expansion of \<open>$\<close> in its replacement are the library's loops,
  written out.  \<open>regexp.Compile\<close> is an argument of the functions that call it.
\<close>

subsection \<open>Runes\<close>

definition cont_byte :: "char \<Rightarrow> bool" where
  "cont_byte c \<longleftrightarrow> digit7 c \<and> \<not> digit6 c"

text \<open>The valid encodings of two, three and four bytes: lead byte, the range it allows for the
  second byte, and continuation bytes.\<close>

definition valid2 :: "char \<Rightarrow> char \<Rightarrow> bool" where
  "valid2 c d \<longleftrightarrow> digit7 c \<and> digit6 c \<and> \<not> digit5 c \<and>
     (digit4 c \<or> digit3 c \<or> digit2 c \<or> digit1 c) \<and> cont_byte d"

definition valid3 :: "char \<Rightarrow> char \<Rightarrow> char \<Rightarrow> bool" where
  "valid3 c d e \<longleftrightarrow> digit7 c \<and> digit6 c \<and> digit5 c \<and> \<not> digit4 c \<and> cont_byte d \<and> cont_byte e \<and>
     (\<not> digit3 c \<and> \<not> digit2 c \<and> \<not> digit1 c \<and> \<not> digit0 c \<longrightarrow> digit5 d) \<and>
     (digit3 c \<and> digit2 c \<and> \<not> digit1 c \<and> digit0 c \<longrightarrow> \<not> digit5 d)"

definition valid4 :: "char \<Rightarrow> char \<Rightarrow> char \<Rightarrow> char \<Rightarrow> bool" where
  "valid4 c d e f \<longleftrightarrow> digit7 c \<and> digit6 c \<and> digit5 c \<and> digit4 c \<and> \<not> digit3 c \<and>
     cont_byte d \<and> cont_byte e \<and> cont_byte f \<and>
     (\<not> digit2 c \<and> \<not> digit1 c \<and> \<not> digit0 c \<longrightarrow> digit5 d \<or> digit4 d) \<and>
     (digit2 c \<longrightarrow> \<not> digit1 c \<and> \<not> digit0 c \<and> \<not> digit5 d \<and> \<not> digit4 d)"

text \<open>The width \<open>utf8.DecodeRune\<close> reports: 0 at the end, the length of a valid encoding, and
  1 for ASCII and for a byte that starts no valid encoding.\<close>

definition rune_width :: "string \<Rightarrow> nat" where
  "rune_width s =
     (case s of
        [] \<Rightarrow> 0
      | c # cs \<Rightarrow>
          if (case cs of d # _ \<Rightarrow> valid2 c d | _ \<Rightarrow> False) then 2
          else if (case cs of d # e # _ \<Rightarrow> valid3 c d e | _ \<Rightarrow> False) then 3
          else if (case cs of d # e # f # _ \<Rightarrow> valid4 c d e f | _ \<Rightarrow> False) then 4
          else 1)"

lemma valid_high:
  "valid2 c d \<Longrightarrow> digit7 c \<and> digit7 d"
  "valid3 c d e \<Longrightarrow> digit7 c \<and> digit7 d \<and> digit7 e"
  "valid4 c d e f \<Longrightarrow> digit7 c \<and> digit7 d \<and> digit7 e \<and> digit7 f"
  by (auto simp: valid2_def valid3_def valid4_def cont_byte_def)

lemma rune_width_Nil [simp]: "rune_width [] = 0"
  by (simp add: rune_width_def)

lemma rune_width_pos: "s \<noteq> [] \<Longrightarrow> 0 < rune_width s"
  by (auto simp: rune_width_def split: list.split)

lemma rune_width_ascii: "s \<noteq> [] \<Longrightarrow> \<not> digit7 (hd s) \<Longrightarrow> rune_width s = 1"
  by (auto simp: rune_width_def valid2_def valid3_def valid4_def split: list.split)

lemma rune_width_le: "rune_width s \<le> length s"
  by (auto simp: rune_width_def split: list.splits)

lemma rune_width_bytes: "1 < rune_width s \<Longrightarrow> \<forall>c \<in> set (take (rune_width s) s). digit7 c"
  by (auto simp: rune_width_def split: list.splits if_splits dest!: valid_high)

lemma rune_width_high:
  assumes "i < rune_width s" and "1 < rune_width s"
  shows "digit7 (s ! i)"
proof -
  have "s ! i = take (rune_width s) s ! i" using assms(1) by simp
  also have "\<dots> \<in> set (take (rune_width s) s)"
    using assms(1) rune_width_le [of s] by (intro nth_mem) simp
  finally show ?thesis using rune_width_bytes [OF assms(2)] by blast
qed

subsection \<open>Compiled expressions\<close>

text \<open>
  \<open>rx_expr\<close> is the source text (\<open>String()\<close>), \<open>rx_names\<close> the names of the groups
  (index 0 is the whole match), \<open>rx_exec b pos\<close> the group positions of the leftmost match
  of \<open>b\<close> that starts at \<open>pos\<close> or later.  \<open>rx_wide\<close> says of a rune of several bytes
  whether it is a Unicode letter or digit (the tables of package \<open>unicode\<close>).
\<close>

record regexp =
  rx_expr :: string
  rx_names :: "string list"
  rx_exec :: "string \<Rightarrow> nat \<Rightarrow> (nat \<times> nat) option list option"
  rx_wide :: "string \<Rightarrow> bool"

definition slice :: "string \<Rightarrow> nat \<Rightarrow> nat \<Rightarrow> string" where
  "slice s i j = take (j - i) (drop i s)"

text \<open>The matches an engine can report lie in the subject, at the search position or later.\<close>

definition rx_find :: "regexp \<Rightarrow> string \<Rightarrow> nat \<Rightarrow> (nat \<times> nat \<times> (nat \<times> nat) option list) option" where
  "rx_find rx b pos =
     (case rx_exec rx b pos of
        Some (Some (i, j) # gs) \<Rightarrow>
          if pos \<le> i \<and> i \<le> j \<and> j \<le> length b then Some (i, j, Some (i, j) # gs) else None
      | _ \<Rightarrow> None)"

lemma rx_find_bounds:
  "rx_find rx b pos = Some (i, j, m) \<Longrightarrow> pos \<le> i \<and> i \<le> j \<and> j \<le> length b"
  by (auto simp: rx_find_def split: option.splits list.splits if_splits)

definition MatchString :: "regexp \<Rightarrow> string \<Rightarrow> bool" where
  "MatchString rx s \<longleftrightarrow> rx_find rx s 0 \<noteq> None"

subsection \<open>Expanding the replacement\<close>

definition word_chars :: string where
  "word_chars = ''abcdefghijklmnopqrstuvwxyzABCDEFGHIJKLMNOPQRSTUVWXYZ0123456789_''"

function name_len :: "(string \<Rightarrow> bool) \<Rightarrow> string \<Rightarrow> nat" where
  "name_len wide s =
     (if s = [] then 0
      else if hd s \<in> set word_chars then Suc (name_len wide (tl s))
      else if 1 < rune_width s \<and> wide (take (rune_width s) s)
        then rune_width s + name_len wide (drop (rune_width s) s)
      else 0)"
  by pat_completeness auto
termination
  by (relation "measure (\<lambda>(wide, s). length s)") auto

declare name_len.simps [simp del]

text \<open>The group number a name stands for, if it is one: digits, no leading zero, and no
  more digits once the value has reached \<open>1e8\<close>.\<close>

fun group_num :: "nat \<Rightarrow> string \<Rightarrow> nat option" where
  "group_num acc [] = Some acc"
| "group_num acc (c # cs) =
     (case map_of (zip ''0123456789'' [0..<10]) c of
        None \<Rightarrow> None
      | Some d \<Rightarrow> if 100000000 \<le> acc then None else group_num (10 * acc + d) cs)"

definition extract_ref :: "(string \<Rightarrow> bool) \<Rightarrow> string \<Rightarrow> (string \<times> nat option \<times> string) option" where
  "extract_ref wide str =
     (if length str < 2 then None
      else
        let brace = (str ! 1 = CHR ''{'');
            body = drop (if brace then 2 else 1) str;
            i = name_len wide body;
            name = take i body
        in if i = 0 then None
           else if brace \<and> (length body \<le> i \<or> body ! i \<noteq> CHR ''}'') then None
           else Some (name,
                  (if hd name = CHR ''0'' \<and> 1 < length name then None else group_num 0 name),
                  drop (if brace then Suc i else i) body))"

lemma extract_ref_shorter: "extract_ref wide str = Some (name, num, r) \<Longrightarrow> length r < length str"
  by (auto simp: extract_ref_def Let_def split: if_splits)

definition group_text :: "regexp \<Rightarrow> string \<Rightarrow> (nat \<times> nat) option list \<Rightarrow> string \<times> nat option \<Rightarrow> string"
  where
  "group_text rx src m nn =
     (case snd nn of
        Some k \<Rightarrow>
          (if k < length m then (case m ! k of Some (i, j) \<Rightarrow> slice src i j | None \<Rightarrow> []) else [])
      | None \<Rightarrow>
          (case find (\<lambda>k. rx_names rx ! k = fst nn \<and> k < length m \<and> m ! k \<noteq> None)
                  [0..<length (rx_names rx)] of
             None \<Rightarrow> []
           | Some k \<Rightarrow> (case m ! k of Some (i, j) \<Rightarrow> slice src i j | None \<Rightarrow> [])))"

function expand :: "regexp \<Rightarrow> string \<Rightarrow> (nat \<times> nat) option list \<Rightarrow> string \<Rightarrow> string" where
  "expand rx src m template =
     (let t = dropWhile (\<lambda>c. c \<noteq> CHR ''$'') template
      in takeWhile (\<lambda>c. c \<noteq> CHR ''$'') template @
         (if t = [] then []
          else if 1 < length t \<and> t ! 1 = CHR ''$'' then CHR ''$'' # expand rx src m (drop 2 t)
          else case extract_ref (rx_wide rx) t of
                 None \<Rightarrow> CHR ''$'' # expand rx src m (drop 1 t)
               | Some (name, num, r) \<Rightarrow> group_text rx src m (name, num) @ expand rx src m r))"
  by pat_completeness auto
termination
proof (relation "measure (\<lambda>(rx, src, m, template). length template)", goal_cases)
  case (2 rx src m template x)
  then have "drop 2 x = drop 2 (dropWhile (\<lambda>c. c \<noteq> CHR ''$'') template)" "template \<noteq> []" by auto
  moreover have "length (dropWhile (\<lambda>c. c \<noteq> CHR ''$'') template) \<le> length template"
    by (rule length_dropWhile_le)
  ultimately show ?case by (simp add: less_le_trans) (cases template; simp)
next
  case (3 rx src m template x)
  then have "template \<noteq> []" by auto
  with 3 length_dropWhile_le [of "\<lambda>c. c \<noteq> CHR ''$''" template] show ?case
    by (cases template) auto
next
  case (4 rx src m template x a name y num r)
  then have "length r < length x" by (auto dest: extract_ref_shorter)
  with 4 length_dropWhile_le [of "\<lambda>c. c \<noteq> CHR ''$''" template] show ?case by simp
qed simp

declare expand.simps [simp del]

lemma expand_plain: "CHR ''$'' \<notin> set template \<Longrightarrow> expand rx src m template = template"
  by (subst expand.simps) (simp add: go_list)

subsection \<open>ReplaceAll\<close>

text \<open>
  The loop of \<open>replaceAll\<close>: \<open>lastMatchEnd\<close> is the end of the last match, \<open>searchPos\<close>
  the place to search from next, which always moves forward.
\<close>

definition next_pos :: "string \<Rightarrow> nat \<Rightarrow> nat \<Rightarrow> nat" where
  "next_pos src searchPos j =
     (let width = rune_width (drop searchPos src)
      in if j < searchPos + width then searchPos + width
         else if j < searchPos + 1 then searchPos + 1
         else j)"

lemma next_pos_gt: "searchPos \<le> j \<Longrightarrow> searchPos < next_pos src searchPos j"
  by (auto simp: next_pos_def Let_def)

function replace_loop :: "regexp \<Rightarrow> string \<Rightarrow> string \<Rightarrow> nat \<Rightarrow> nat \<Rightarrow> string \<Rightarrow> string" where
  "replace_loop rx repl src lastMatchEnd searchPos buf =
     (if searchPos \<le> length src then
        case rx_find rx src searchPos of
          None \<Rightarrow> buf @ drop lastMatchEnd src
        | Some (i, j, m) \<Rightarrow>
            replace_loop rx repl src j (next_pos src searchPos j)
              ((buf @ slice src lastMatchEnd i) @
               (if lastMatchEnd < j \<or> i = 0 then expand rx src m repl else []))
      else buf @ drop lastMatchEnd src)"
  by pat_completeness auto
termination
proof (relation "measure (\<lambda>(rx, repl, src, l, p, buf). Suc (length src) - p)", goal_cases)
  case (2 rx repl src l p buf a i b j m)
  then have "p \<le> j" by (auto dest: rx_find_bounds)
  then have "p < next_pos src p j" by (rule next_pos_gt)
  with 2 show ?case by simp
qed simp

declare replace_loop.simps [simp del]

definition ReplaceAll :: "regexp \<Rightarrow> bytes \<Rightarrow> bytes \<Rightarrow> bytes" where
  "ReplaceAll rx src repl = replace_loop rx repl src 0 0 []"

text \<open>An expression that matches nowhere changes nothing.\<close>

lemma ReplaceAll_no_match: "\<not> MatchString rx src \<Longrightarrow> ReplaceAll rx src repl = src"
  by (cases "rx_find rx src 0") (simp_all add: ReplaceAll_def MatchString_def replace_loop.simps)

subsection \<open>Two engines\<close>

text \<open>
  Engines for two kinds of expressions, on which the general results are used: a class of
  ASCII bytes such as \<open>[0-9]\<close>, and a literal text such as \<open>bing\<close>.
\<close>

definition class_regexp :: "string \<Rightarrow> (char \<Rightarrow> bool) \<Rightarrow> regexp" where
  "class_regexp expr P =
     \<lparr>rx_expr = expr, rx_names = [[]],
      rx_exec = (\<lambda>b pos. map_option (\<lambda>i. [Some (i, Suc i)])
                          (find (\<lambda>i. P (b ! i)) [pos..<length b])),
      rx_wide = (\<lambda>_. False)\<rparr>"

definition literal_regexp :: "string \<Rightarrow> regexp" where
  "literal_regexp lit =
     \<lparr>rx_expr = lit, rx_names = [[]],
      rx_exec = (\<lambda>b pos. map_option (\<lambda>i. [Some (i, i + length lit)])
                          (find (\<lambda>i. take (length lit) (drop i b) = lit) [pos..<Suc (length b)])),
      rx_wide = (\<lambda>_. False)\<rparr>"

definition map_class :: "(char \<Rightarrow> bool) \<Rightarrow> string \<Rightarrow> string \<Rightarrow> string" where
  "map_class P repl s = concat (map (\<lambda>c. if P c then repl else [c]) s)"

lemma map_class_append [simp]: "map_class P repl (s @ t) = map_class P repl s @ map_class P repl t"
  by (simp add: map_class_def)

lemma map_class_none: "\<forall>c \<in> set s. \<not> P c \<Longrightarrow> map_class P repl s = s"
  by (induction s) (auto simp: map_class_def)

lemma find_upt_Some:
  "find p [a..<b] = Some i \<Longrightarrow> a \<le> i \<and> i < b \<and> p i \<and> (\<forall>k. a \<le> k \<longrightarrow> k < i \<longrightarrow> \<not> p k)"
proof -
  assume "find p [a..<b] = Some i"
  then obtain n where n: "n < length [a..<b]" "p ([a..<b] ! n)" "i = [a..<b] ! n"
    and before: "\<forall>j<n. \<not> p ([a..<b] ! j)"
    by (auto simp: find_Some_iff)
  have "\<not> p k" if "a \<le> k" "k < i" for k
    using before [rule_format, of "k - a"] n that by simp
  with n show ?thesis by simp
qed

lemma find_upt_None: "find p [a..<b] = None \<longleftrightarrow> (\<forall>k. a \<le> k \<longrightarrow> k < b \<longrightarrow> \<not> p k)"
  by (auto simp: find_None_iff)

lemma class_find:
  "rx_find (class_regexp expr P) b pos =
     map_option (\<lambda>i. (i, Suc i, [Some (i, Suc i)])) (find (\<lambda>i. P (b ! i)) [pos..<length b])"
  by (auto simp: rx_find_def class_regexp_def split: option.splits dest!: find_upt_Some)

lemma class_replace_loop:
  assumes ascii: "\<And>c. P c \<Longrightarrow> \<not> digit7 c" and plain: "CHR ''$'' \<notin> set repl"
    and "p \<le> length src"
  shows "replace_loop (class_regexp expr P) repl src p p buf = buf @ map_class P repl (drop p src)"
  using assms(3)
proof (induction "length src - p" arbitrary: p buf rule: less_induct)
  case less
  show ?case
  proof (cases "find (\<lambda>i. P (src ! i)) [p..<length src]")
    case None
    then have "\<forall>c \<in> set (drop p src). \<not> P c"
      by (auto simp: find_upt_None in_set_conv_nth)
    with None less.prems show ?thesis
      by (simp add: replace_loop.simps [of _ _ _ p p] class_find map_class_none)
  next
    case (Some i)
    then have i: "p \<le> i" "i < length src" "P (src ! i)"
      and before: "\<And>k. p \<le> k \<Longrightarrow> k < i \<Longrightarrow> \<not> P (src ! k)"
      by (auto dest: find_upt_Some)
    have w: "\<not> Suc i < p + rune_width (drop p src)"
    proof
      assume w: "Suc i < p + rune_width (drop p src)"
      with i(1) have "i - p < rune_width (drop p src)" "1 < rune_width (drop p src)" by auto
      from rune_width_high [OF this] i(1,2) have "digit7 (src ! i)" by simp
      with ascii i(3) show False by blast
    qed
    have pos: "next_pos src p (Suc i) = Suc i"
      using w i(1) by (simp add: next_pos_def)
    have split: "drop p src = slice src p i @ src ! i # drop (Suc i) src"
      using id_take_nth_drop [of "i - p" "drop p src"] i(1,2) by (simp add: slice_def)
    have "\<forall>c \<in> set (slice src p i). \<not> P c"
      using before i(1,2) by (auto simp: slice_def in_set_conv_nth)
    then have "map_class P repl (drop p src) = slice src p i @ repl @ map_class P repl (drop (Suc i) src)"
      using i(3) by (simp add: split map_class_none) (simp add: map_class_def)
    moreover have "length src - Suc i < length src - p" "Suc i \<le> length src" using i(1,2) by auto
    ultimately show ?thesis
      using less.hyps [of "Suc i"] Some i(1) less.prems plain
      by (simp add: replace_loop.simps [of _ _ _ p p] class_find pos expand_plain)
  qed
qed

lemma ReplaceAll_class:
  assumes "\<And>c. P c \<Longrightarrow> \<not> digit7 c" and "CHR ''$'' \<notin> set repl"
  shows "ReplaceAll (class_regexp expr P) src repl = map_class P repl src"
  using class_replace_loop [OF assms, where p = 0 and buf = "[]"] by (simp add: ReplaceAll_def)

end
