(* ===== verification/ChunkedRegex.thy ===== *)
theory ChunkedRegex
  imports GoIo GoRegexp
begin

text \<open>
  The streaming search and replace of \<open>rewriteLogic/chunkedRegexReader.go\<close>.  The
  \<open>fixedChunkRegexReader\<close> keeps a buffer of about two blocks, rewrites it, hands out its
  first half and keeps the second half, in front of the next block, for the next round;
  \<open>regexReader\<close> turns these chunks into an \<open>io.Reader\<close>.

  The buffers, their lengths and the three indices are modelled as the code has them;
  slicing beyond a buffer is a panic, and a read loop over a source that never ends is
  \<open>None\<close>.
\<close>

subsection \<open>The model\<close>

partial_function (option) readUntilFull ::
  "'s read_fn \<Rightarrow> bytes \<Rightarrow> nat \<Rightarrow> 's \<Rightarrow> (bytes \<times> nat \<times> goerr option \<times> 's) option" where
  "readUntilFull rd buffer totalRead s =
     (let (bs, err, s') = rd s (length buffer - totalRead);
          buffer' = splice buffer totalRead bs;
          totalRead' = totalRead + length bs
      in case err of
           Some x \<Rightarrow> Some (buffer', totalRead', Some x, s')
         | None \<Rightarrow>
             if length buffer' \<le> totalRead' then Some (buffer', totalRead', None, s')
             else readUntilFull rd buffer' totalRead' s')"

record 's fixedChunkRegexReader =
  fc_dataSource :: 's
  fc_find :: regexp
  fc_replace :: bytes
  fc_buffer :: "bytes option"
  fc_rightIndex :: nat
  fc_leftIndex :: nat
  fc_midIndex :: nat
  fc_bufferSize :: nat

definition FixedChunkRegexReader ::
  "'s \<Rightarrow> nat \<Rightarrow> regexp \<Rightarrow> bytes \<Rightarrow> 's fixedChunkRegexReader" where
  "FixedChunkRegexReader reader bufferSize rx repl =
     \<lparr>fc_dataSource = reader, fc_find = rx, fc_replace = repl, fc_buffer = None,
      fc_rightIndex = 0, fc_leftIndex = 0, fc_midIndex = 0, fc_bufferSize = bufferSize\<rparr>"

text \<open>The first call, when the buffer is still nil.\<close>

definition fc_Read_first ::
  "'s read_fn \<Rightarrow> 's fixedChunkRegexReader \<Rightarrow>
     (bytes \<times> goerr option \<times> 's fixedChunkRegexReader) outcome option" where
  "fc_Read_first rd r =
     (case readUntilFull rd (replicate (fc_bufferSize r * 2) CHR 0x00) 0 (fc_dataSource r) of
        None \<Rightarrow> None
      | Some (buf, n, err, s) \<Rightarrow>
          (let r1 = r\<lparr>fc_dataSource := s, fc_buffer := Some buf, fc_leftIndex := 0,
                      fc_midIndex := fc_bufferSize r, fc_rightIndex := fc_bufferSize r * 2\<rparr>
           in if err \<noteq> None then
                Some (Ret (ReplaceAll (fc_find r) (take n buf) (fc_replace r), err, r1))
              else
                (let buffer = ReplaceAll (fc_find r) buf (fc_replace r);
                     right = length buffer;
                     mid = right div 2
                 in Some (Ret (take mid buffer, None,
                      r1\<lparr>fc_rightIndex := right, fc_midIndex := mid, fc_buffer := Some buffer\<rparr>)))))"

text \<open>Every later call: the kept half of the old buffer, then a new block.\<close>

definition fc_Read_next ::
  "'s read_fn \<Rightarrow> 's fixedChunkRegexReader \<Rightarrow> bytes \<Rightarrow>
     (bytes \<times> goerr option \<times> 's fixedChunkRegexReader) outcome option" where
  "fc_Read_next rd r old =
     (if length old < fc_midIndex r then Some (Panic ''slice bounds out of range'')
      else
        let rightBufferSize = fc_rightIndex r - fc_midIndex r;
            buffer0 = splice (replicate (rightBufferSize + fc_bufferSize r) CHR 0x00) 0
                        (drop (fc_midIndex r) old)
        in case readUntilFull rd (drop rightBufferSize buffer0) 0 (fc_dataSource r) of
             None \<Rightarrow> None
           | Some (tail, n, err, s) \<Rightarrow>
               (let buf = take rightBufferSize buffer0 @ tail;
                    r1 = r\<lparr>fc_dataSource := s, fc_buffer := Some buf,
                           fc_midIndex := rightBufferSize, fc_rightIndex := length buffer0\<rparr>
                in if err \<noteq> None then
                     Some (Ret (ReplaceAll (fc_find r) (take (rightBufferSize + n) buf)
                                  (fc_replace r), err, r1))
                   else
                     (let buffer = ReplaceAll (fc_find r) buf (fc_replace r);
                          right = length buffer;
                          mid = right div 2;
                          buf' = splice buf 0 buffer
                      in if length buf' < mid then Some (Panic ''slice bounds out of range'')
                         else Some (Ret (take mid buf', None,
                                r1\<lparr>fc_rightIndex := right, fc_midIndex := mid,
                                   fc_buffer := Some buf'\<rparr>)))))"

definition fc_Read ::
  "'s read_fn \<Rightarrow> 's fixedChunkRegexReader \<Rightarrow>
     (bytes \<times> goerr option \<times> 's fixedChunkRegexReader) outcome option" where
  "fc_Read rd r =
     (case fc_buffer r of None \<Rightarrow> fc_Read_first rd r | Some old \<Rightarrow> fc_Read_next rd r old)"

record 's regexReader =
  rr_chunkReader :: "'s fixedChunkRegexReader"
  rr_chunk :: bytes
  rr_err :: "goerr option"

definition RegexReader :: "'s \<Rightarrow> nat \<Rightarrow> regexp \<Rightarrow> bytes \<Rightarrow> 's regexReader" where
  "RegexReader data bufferSize rx repl =
     \<lparr>rr_chunkReader =
        \<lparr>fc_dataSource = data, fc_find = rx, fc_replace = repl, fc_buffer = None,
         fc_rightIndex = 0, fc_leftIndex = 0, fc_midIndex = 0, fc_bufferSize = bufferSize\<rparr>,
      rr_chunk = [], rr_err = None\<rparr>"

text \<open>One turn of the loop of \<open>Read\<close> fetches a chunk if there is none and no error yet.\<close>

definition rr_fetch ::
  "'s read_fn \<Rightarrow> 's regexReader \<Rightarrow> 's regexReader outcome option" where
  "rr_fetch rd r =
     (if rr_err r = None \<and> rr_chunk r = [] then
        (case fc_Read rd (rr_chunkReader r) of
           None \<Rightarrow> None
         | Some (Panic m) \<Rightarrow> Some (Panic m)
         | Some (Ret (chunk, err, cr)) \<Rightarrow>
             Some (Ret (r\<lparr>rr_chunk := chunk, rr_err := err, rr_chunkReader := cr\<rparr>)))
      else Some (Ret r))"

text \<open>The loop, with the bytes copied so far (\<open>totalCopied\<close> is their number) and the
  length of what is left of \<open>p\<close>.\<close>

function rr_loop ::
  "'s read_fn \<Rightarrow> 's regexReader \<Rightarrow> nat \<Rightarrow> bytes \<Rightarrow>
     (bytes \<times> goerr option \<times> 's regexReader) outcome option" where
  "rr_loop rd r lenP copied =
     (if lenP = 0 then Some (Ret (copied, None, r))
      else
        case rr_fetch rd r of
          None \<Rightarrow> None
        | Some (Panic m) \<Rightarrow> Some (Panic m)
        | Some (Ret r1) \<Rightarrow>
            if rr_chunk r1 = [] then Some (Ret (copied, rr_err r1, r1))
            else
              let numCopied = (if length (rr_chunk r1) < lenP then length (rr_chunk r1) else lenP)
              in rr_loop rd (r1\<lparr>rr_chunk := drop numCopied (rr_chunk r1)\<rparr>) (lenP - numCopied)
                   (copied @ take numCopied (rr_chunk r1)))"
  by pat_completeness auto
termination
  by (relation "measure (\<lambda>(rd, r, lenP, copied). lenP)") auto

declare rr_loop.simps [simp del]

definition rr_Read ::
  "'s read_fn \<Rightarrow> 's regexReader \<Rightarrow> nat \<Rightarrow> (bytes \<times> goerr option \<times> 's regexReader) outcome option" where
  "rr_Read rd r lenP = rr_loop rd r lenP []"

text \<open>The same as a \<open>read_fn\<close>: a panic and an endless loop end the stream.\<close>

definition rr_read_fn :: "'s read_fn \<Rightarrow> 's regexReader read_fn" where
  "rr_read_fn rd r n =
     (case rr_Read rd r n of
        Some (Ret x) \<Rightarrow> x
      | Some (Panic m) \<Rightarrow> ([], Some (Aborted m), r)
      | None \<Rightarrow> ([], Some (Aborted ''never returns''), r))"

subsection \<open>Filling a buffer\<close>

text \<open>
  What a completed \<open>readUntilFull\<close> means, for any reader that keeps the contract: the
  buffer is overwritten by a prefix of the bytes to come, all the way unless the reader
  ended, and the loop makes progress.
\<close>

definition filled :: "('s \<Rightarrow> bytes) \<Rightarrow> ('s \<Rightarrow> goerr) \<Rightarrow> ('s \<Rightarrow> nat) \<Rightarrow> nat \<Rightarrow> 's \<Rightarrow> bytes \<Rightarrow> goerr option \<Rightarrow> 's \<Rightarrow> bool"
  where
  "filled rest fin rank room s bs e s' \<longleftrightarrow>
     length bs \<le> room \<and> rest s = bs @ rest s' \<and> fin s' = fin s \<and>
     (case e of
        None \<Rightarrow> length bs = room \<and> (0 < room \<longrightarrow> rank s' < rank s)
      | Some x \<Rightarrow> x = fin s \<and> rest s' = [])"

context io_reader
begin

lemma readUntilFull_filled:
  assumes "ok s" and "got \<le> length buf"
  shows "\<exists>bs e s'. readUntilFull rd buf got s =
      Some (take got buf @ bs @ drop (got + length bs) buf, got + length bs, e, s') \<and>
    ok s' \<and> filled rest fin rank (length buf - got) s bs e s'"
  using assms
proof (induction "rank s" arbitrary: s buf got rule: less_induct)
  case less
  let ?room = "length buf - got"
  obtain bs e s' where r: "rd s ?room = (bs, e, s')"
    by (cases "rd s ?room") auto
  note st = rd_step [OF less.prems(1) r]
  let ?buf = "splice buf got bs"
  have buf: "?buf = take got buf @ bs @ drop (got + length bs) buf"
    using st(1) by (simp add: splice_def)
  show ?case
  proof (cases e)
    case (Some x)
    then have "filled rest fin rank ?room s bs e s'"
      using st(1,3,4) st(6,7) [OF Some] by (simp add: filled_def)
    moreover have "readUntilFull rd buf got s =
        Some (take got buf @ bs @ drop (got + length bs) buf, got + length bs, e, s')"
      using Some r by (simp add: readUntilFull.simps [of rd buf] buf Let_def)
    ultimately show ?thesis using st(2) by blast
  next
    case None
    show ?thesis
    proof (cases "length bs = ?room")
      case True
      then have "filled rest fin rank ?room s bs e s'"
        using None st(3-5) by (simp add: filled_def)
      moreover have "readUntilFull rd buf got s =
          Some (take got buf @ bs @ drop (got + length bs) buf, got + length bs, e, s')"
        using True None r less.prems(2) by (simp add: readUntilFull.simps [of rd buf] buf Let_def)
      ultimately show ?thesis using st(2) by blast
    next
      case False
      with st(1) have lt: "got + length bs < length buf" by simp
      with st(5) None have rank: "rank s' < rank s" by simp
      have le: "got + length bs \<le> length ?buf" using lt by simp
      from less.hyps [OF rank st(2) le] obtain ds d s'' where
        rec: "readUntilFull rd ?buf (got + length bs) s' =
            Some (take (got + length bs) ?buf @ ds @ drop (got + length bs + length ds) ?buf,
              got + length bs + length ds, d, s'')"
          "ok s''" "filled rest fin rank (length ?buf - (got + length bs)) s' ds d s''"
        by blast
      have "filled rest fin rank ?room s (bs @ ds) d s''"
        using rec(3) st(3,4) lt rank by (auto simp: filled_def split: option.splits)
      moreover have "readUntilFull rd buf got s =
          Some (take got buf @ (bs @ ds) @ drop (got + length (bs @ ds)) buf,
            got + length (bs @ ds), d, s'')"
        using rec(1) r None lt
        by (simp add: readUntilFull.simps [of rd buf] buf ac_simps Let_def)
      ultimately show ?thesis using rec(2) by blast
    qed
  qed
qed

end

subsection \<open>One chunk\<close>

text \<open>
  The bytes a chunk reader will put in front of its next block (padded with zero bytes when
  its buffer ends before its right index), the size of that block, and the invariant that
  keeps the slice of the old buffer in range.
\<close>

definition pad :: "nat \<Rightarrow> bytes \<Rightarrow> bytes" where
  "pad k bs = take k (bs @ replicate k CHR 0x00)"

definition fc_kept :: "'s fixedChunkRegexReader \<Rightarrow> bytes" where
  "fc_kept r =
     (case fc_buffer r of
        None \<Rightarrow> []
      | Some b \<Rightarrow> pad (fc_rightIndex r - fc_midIndex r) (drop (fc_midIndex r) b))"

definition fc_block :: "'s fixedChunkRegexReader \<Rightarrow> nat" where
  "fc_block r = (if fc_buffer r = None then fc_bufferSize r * 2 else fc_bufferSize r)"

definition fc_wf :: "'s fixedChunkRegexReader \<Rightarrow> bool" where
  "fc_wf r \<longleftrightarrow> (\<forall>b. fc_buffer r = Some b \<longrightarrow> fc_midIndex r \<le> length b)"

lemma length_pad [simp]: "length (pad k bs) = k"
  by (simp add: pad_def)

lemma pad_enough: "k \<le> length bs \<Longrightarrow> pad k bs = take k bs"
  by (simp add: pad_def)

lemma take_splice_zeros:
  "take k (splice (replicate (k + n) CHR 0x00) 0 bs) = pad k bs"
  by (cases "k \<le> length bs") (auto simp: splice_def pad_def min_def take_Cons')

definition same_rule :: "'s fixedChunkRegexReader \<Rightarrow> 's fixedChunkRegexReader \<Rightarrow> bool" where
  "same_rule r r' \<longleftrightarrow> fc_find r' = fc_find r \<and> fc_replace r' = fc_replace r \<and>
     fc_bufferSize r' = fc_bufferSize r"

text \<open>A rewrite that never makes a text longer.\<close>

definition shrinking :: "(bytes \<Rightarrow> bytes) \<Rightarrow> bool" where
  "shrinking R \<longleftrightarrow> (\<forall>x. length (R x) \<le> length x)"

abbreviation fc_rewrite :: "'s fixedChunkRegexReader \<Rightarrow> bytes \<Rightarrow> bytes" where
  "fc_rewrite r x \<equiv> ReplaceAll (fc_find r) x (fc_replace r)"

text \<open>
  The outcome of a call that has read the block \<open>bs\<close>: the rewritten window \<open>w\<close> is handed out
  whole at the end of the input.  Otherwise its first half is handed out and its second half
  is kept, but only as much of it as fits the buffer the window was read into (the first
  buffer is replaced by the window, later ones are not); a half that does not fit panics.
\<close>

definition fc_room :: "'s fixedChunkRegexReader \<Rightarrow> bytes \<Rightarrow> nat" where
  "fc_room r bs =
     (if fc_buffer r = None then length (fc_rewrite r (fc_kept r @ bs))
      else length (fc_kept r @ bs))"

definition fc_reads ::
  "'s fixedChunkRegexReader \<Rightarrow> (bytes \<times> goerr option \<times> 's fixedChunkRegexReader) outcome option \<Rightarrow>
   bytes \<Rightarrow> goerr option \<Rightarrow> 's \<Rightarrow> bool" where
  "fc_reads r res bs e s' \<longleftrightarrow>
     (let w = fc_rewrite r (fc_kept r @ bs); m = length w div 2
      in case e of
           None \<Rightarrow>
             if fc_room r bs < m then res = Some (Panic ''slice bounds out of range'')
             else \<exists>r'. res = Some (Ret (take m w, None, r')) \<and> fc_dataSource r' = s' \<and>
                    same_rule r r' \<and> fc_wf r' \<and> fc_buffer r' \<noteq> None \<and>
                    fc_kept r' = pad (length w - m) (drop m (take (fc_room r bs) w))
         | Some x \<Rightarrow> \<exists>r'. res = Some (Ret (w, Some x, r')))"

context io_reader
begin

lemma fc_Read_first_reads:
  assumes "ok (fc_dataSource r)" and "fc_buffer r = None"
  shows "\<exists>bs e s'. filled rest fin rank (fc_block r) (fc_dataSource r) bs e s' \<and> ok s' \<and>
    fc_reads r (fc_Read rd r) bs e s'"
proof -
  let ?zeros = "replicate (fc_bufferSize r * 2) CHR 0x00"
  have "0 \<le> length ?zeros" by simp
  from readUntilFull_filled [OF assms(1) this] obtain bs e s' where
    fill: "readUntilFull rd ?zeros 0 (fc_dataSource r) =
        Some (bs @ drop (length bs) ?zeros, length bs, e, s')"
    and ok': "ok s'" and filled: "filled rest fin rank (fc_block r) (fc_dataSource r) bs e s'"
    using assms(2) by (auto simp: fc_block_def)
  have "fc_reads r (fc_Read rd r) bs e s'"
  proof (cases e)
    case None
    with filled assms(2) have "length bs = fc_bufferSize r * 2"
      by (simp add: filled_def fc_block_def)
    with None fill assms(2) show ?thesis
      by (simp add: fc_reads_def fc_Read_def fc_Read_first_def fc_kept_def fc_wf_def fc_room_def
          same_rule_def Let_def)
  next
    case (Some x)
    with fill assms(2) show ?thesis
      by (simp add: fc_reads_def fc_Read_def fc_Read_first_def fc_kept_def Let_def)
  qed
  with filled ok' show ?thesis by blast
qed

lemma fc_Read_next_reads:
  assumes "ok (fc_dataSource r)" and "fc_buffer r = Some old" and "fc_wf r"
  shows "\<exists>bs e s'. filled rest fin rank (fc_block r) (fc_dataSource r) bs e s' \<and> ok s' \<and>
    fc_reads r (fc_Read rd r) bs e s'"
proof -
  define k where "k = fc_rightIndex r - fc_midIndex r"
  define buf0 where
    "buf0 = splice (replicate (k + fc_bufferSize r) CHR 0x00) 0 (drop (fc_midIndex r) old)"
  have start: "\<not> length old < fc_midIndex r"
    using assms(2,3) by (simp add: fc_wf_def)
  have kept: "take k buf0 = fc_kept r" "length (fc_kept r) = k"
    using assms(2) by (simp_all add: buf0_def take_splice_zeros fc_kept_def k_def)
  have len0: "length buf0 = k + fc_bufferSize r" by (simp add: buf0_def)
  from readUntilFull_filled [OF assms(1), of 0 "drop k buf0"] obtain bs e s' where
    fill: "readUntilFull rd (drop k buf0) 0 (fc_dataSource r) =
        Some (bs @ drop (length bs) (drop k buf0), length bs, e, s')"
    and ok': "ok s'" and filled: "filled rest fin rank (fc_bufferSize r) (fc_dataSource r) bs e s'"
    by (auto simp: len0)
  have next_call: "fc_Read rd r = fc_Read_next rd r old"
    using assms(2) by (simp add: fc_Read_def)
  note unfolded = fc_Read_next_def [of rd r old, folded k_def, unfolded Let_def, folded buf0_def,
      unfolded fill kept(1)]
  have "fc_reads r (fc_Read rd r) bs e s'"
  proof (cases e)
    case None
    define w where "w = fc_rewrite r (fc_kept r @ bs)"
    define room where "room = length (fc_kept r @ bs)"
    define buf' where "buf' = splice (fc_kept r @ bs) 0 w"
    have "length bs = fc_bufferSize r" using None filled by (simp add: filled_def)
    then have tail: "drop (length bs) (drop k buf0) = []" by (simp add: len0)
    have buf': "buf' = take room w @ drop (length w) (fc_kept r @ bs)" "length buf' = room"
      by (simp_all add: buf'_def room_def splice_def)
    have room: "fc_room r bs = room" using assms(2) by (simp add: fc_room_def room_def)
    let ?m = "length w div 2"
    let ?r' = "r\<lparr>fc_dataSource := s', fc_buffer := Some buf', fc_midIndex := ?m,
        fc_rightIndex := length w\<rparr>"
    have res: "fc_Read rd r = (if room < ?m then Some (Panic ''slice bounds out of range'')
        else Some (Ret (take ?m buf', None, ?r')))"
      unfolding next_call unfolded
      using start buf'(2)
      by (simp add: None tail w_def [symmetric] buf'_def [symmetric] del: drop_drop)
    have half: "take ?m buf' = take ?m w" if "\<not> room < ?m"
      using that by (simp add: buf'(1))
    have kept': "fc_kept ?r' = pad (length w - ?m) (drop ?m (take room w))" if "\<not> room < ?m"
    proof (cases "length w \<le> room")
      case True
      then show ?thesis by (simp add: fc_kept_def buf'(1) pad_def)
    next
      case False
      then have "drop (length w) (fc_kept r @ bs) = []" by (simp add: room_def)
      then show ?thesis unfolding fc_kept_def buf'(1) by simp
    qed
    have wf: "fc_wf ?r'" if "\<not> room < ?m"
      using that by (simp add: fc_wf_def buf'(2))
    have "same_rule r ?r'" by (simp add: same_rule_def)
    with res half kept' wf show ?thesis
      unfolding fc_reads_def Let_def w_def [symmetric] None option.case room by force
  next
    case (Some x)
    have "\<exists>r'. fc_Read rd r = Some (Ret (fc_rewrite r (fc_kept r @ bs), Some x, r'))"
      unfolding next_call unfolded using start by (simp add: Some kept(2))
    then show ?thesis unfolding fc_reads_def Let_def Some option.case .
  qed
  with filled ok' assms(2) show ?thesis by (auto simp: fc_block_def)
qed

lemma fc_Read_reads:
  assumes "ok (fc_dataSource r)" and "fc_wf r"
  obtains bs e s' where "filled rest fin rank (fc_block r) (fc_dataSource r) bs e s'" "ok s'"
    "fc_reads r (fc_Read rd r) bs e s'"
  using fc_Read_first_reads [OF assms(1)] fc_Read_next_reads [OF assms(1) _ assms(2)]
  by (cases "fc_buffer r") blast+

end

lemma shrinking_room:
  assumes "shrinking (fc_rewrite r)"
  shows "length (fc_rewrite r (fc_kept r @ bs)) \<le> fc_room r bs"
  using assms [unfolded shrinking_def, rule_format, of "fc_kept r @ bs"]
  by (simp add: fc_room_def)

subsection \<open>The whole stream\<close>

text \<open>
  The abstract view of the chunk reader: the input cut into blocks, each block rewritten
  together with what was kept, half of the result handed out and half kept; the last,
  shorter block is rewritten and handed out whole.
\<close>

fun window_out :: "(bytes \<Rightarrow> bytes) \<Rightarrow> bytes \<Rightarrow> bytes list \<Rightarrow> bytes \<Rightarrow> bytes" where
  "window_out R kept [] last_block = R (kept @ last_block)"
| "window_out R kept (b # bs) last_block =
     (let w = R (kept @ b); m = length w div 2
      in take m w @ window_out R (drop m w) bs last_block)"

text \<open>All chunks of a chunk reader, and the error that ends them.\<close>

partial_function (option) fc_stream ::
  "'s read_fn \<Rightarrow> 's fixedChunkRegexReader \<Rightarrow> (bytes \<times> goerr) option" where
  "fc_stream rd r =
     (case fc_Read rd r of
        None \<Rightarrow> None
      | Some (Panic m) \<Rightarrow> Some ([], Aborted m)
      | Some (Ret (chunk, Some x, r')) \<Rightarrow> Some (chunk, x)
      | Some (Ret (chunk, None, r')) \<Rightarrow>
          Option.bind (fc_stream rd r') (\<lambda>(chunks, x). Some (chunk @ chunks, x)))"

definition rr_fin_of :: "('s \<Rightarrow> goerr) \<Rightarrow> 's regexReader \<Rightarrow> goerr" where
  "rr_fin_of fin r =
     (case rr_err r of Some x \<Rightarrow> x | None \<Rightarrow> fin (fc_dataSource (rr_chunkReader r)))"

definition rr_rest_of :: "'s read_fn \<Rightarrow> 's regexReader \<Rightarrow> bytes" where
  "rr_rest_of rd r =
     rr_chunk r @ (if rr_err r = None then fst (the (fc_stream rd (rr_chunkReader r))) else [])"

definition rr_fuel_of :: "('s \<Rightarrow> nat) \<Rightarrow> 's regexReader \<Rightarrow> nat" where
  "rr_fuel_of rank r =
     (if rr_err r = None then Suc (rank (fc_dataSource (rr_chunkReader r))) else 0)"

lemmas rr_of_defs = rr_fin_of_def rr_rest_of_def rr_fuel_of_def

context io_reader
begin

definition fc_mild :: "'s fixedChunkRegexReader \<Rightarrow> bool" where
  "fc_mild r \<longleftrightarrow> ok (fc_dataSource r) \<and> fc_wf r \<and> shrinking (fc_rewrite r) \<and> 0 < fc_bufferSize r"

text \<open>One chunk of a well-formed reader: the last one, or one more and a reader with less to do.\<close>

lemma fc_mild_cases:
  assumes "fc_mild r"
  obtains (Last) bs r' where
    "fc_Read rd r = Some (Ret (fc_rewrite r (fc_kept r @ bs), Some (fin (fc_dataSource r)), r'))"
    "rest (fc_dataSource r) = bs" "length bs \<le> fc_block r"
  | (More) bs r' w where
    "w = fc_rewrite r (fc_kept r @ bs)"
    "fc_Read rd r = Some (Ret (take (length w div 2) w, None, r'))"
    "fc_kept r' = drop (length w div 2) w" "length bs = fc_block r" "fc_buffer r' \<noteq> None"
    "fc_mild r'" "same_rule r r'" "rest (fc_dataSource r) = bs @ rest (fc_dataSource r')"
    "fin (fc_dataSource r') = fin (fc_dataSource r)"
    "rank (fc_dataSource r') < rank (fc_dataSource r)"
proof -
  from assms have B: "0 < fc_bufferSize r" and shr: "shrinking (fc_rewrite r)"
    by (simp_all add: fc_mild_def)
  from assms have "ok (fc_dataSource r)" "fc_wf r"
    by (simp_all add: fc_mild_def)
  then obtain bs e s' where f: "filled rest fin rank (fc_block r) (fc_dataSource r) bs e s'"
    and ok': "ok s'" and reads: "fc_reads r (fc_Read rd r) bs e s'"
    by (rule fc_Read_reads)
  show thesis
  proof (cases e)
    case (Some x)
    with f have "x = fin (fc_dataSource r)" "rest (fc_dataSource r) = bs" "length bs \<le> fc_block r"
      by (simp_all add: filled_def)
    with Last reads Some show thesis by (auto simp: fc_reads_def Let_def)
  next
    case None
    define w where "w = fc_rewrite r (fc_kept r @ bs)"
    have "length w \<le> fc_room r bs" using shrinking_room [OF shr] by (simp add: w_def)
    then have "\<not> fc_room r bs < length w div 2" "take (fc_room r bs) w = w" by simp_all
    with reads None obtain r' where r':
      "fc_dataSource r' = s'" "same_rule r r'"
      "fc_Read rd r = Some (Ret (take (length w div 2) w, None, r'))"
      "fc_kept r' = drop (length w div 2) w" "fc_wf r'" "fc_buffer r' \<noteq> None"
      by (auto simp: fc_reads_def Let_def w_def pad_enough)
    moreover have "fc_mild r'"
      using assms ok' r' by (simp add: fc_mild_def same_rule_def)
    moreover have "0 < fc_block r" using B by (simp add: fc_block_def)
    ultimately show thesis
      using More [OF w_def] f None by (simp add: filled_def)
  qed
qed

text \<open>The blocks a chunk reader cuts its input into: the first of the size it asks for now,
  the others of the buffer size, the last of at most that.\<close>

lemma fc_stream_window:
  assumes "fc_mild r"
  shows "\<exists>blocks last_block. fc_stream rd r =
      Some (window_out (fc_rewrite r) (fc_kept r) blocks last_block, fin (fc_dataSource r)) \<and>
    concat blocks @ last_block = rest (fc_dataSource r) \<and>
    (blocks \<noteq> [] \<longrightarrow> length (hd blocks) = fc_block r) \<and>
    (\<forall>b \<in> set (tl blocks). length b = fc_bufferSize r)"
  using assms
proof (induction "rank (fc_dataSource r)" arbitrary: r rule: less_induct)
  case less
  from less.prems show ?case
  proof (cases rule: fc_mild_cases)
    case (Last bs r')
    then have "fc_stream rd r =
        Some (window_out (fc_rewrite r) (fc_kept r) [] bs, fin (fc_dataSource r)) \<and>
      concat [] @ bs = rest (fc_dataSource r)"
      by (simp add: fc_stream.simps [of rd r])
    then show ?thesis by (metis list.sel(2) list.set(1) empty_iff)
  next
    case (More bs r' w)
    from less.hyps [OF More(10,6)] obtain blocks lb where ih:
      "fc_stream rd r' =
        Some (window_out (fc_rewrite r') (fc_kept r') blocks lb, fin (fc_dataSource r'))"
      "concat blocks @ lb = rest (fc_dataSource r')"
      "blocks \<noteq> [] \<longrightarrow> length (hd blocks) = fc_block r'"
      "\<forall>b \<in> set (tl blocks). length b = fc_bufferSize r'"
      by blast
    have same: "fc_rewrite r' = fc_rewrite r" "fc_bufferSize r' = fc_bufferSize r"
      "fc_block r' = fc_bufferSize r"
      using More(5,7) by (auto simp: same_rule_def fc_block_def)
    have "fc_stream rd r =
        Some (window_out (fc_rewrite r) (fc_kept r) (bs # blocks) lb, fin (fc_dataSource r))"
      using ih(1) More(2,3,9) same
      by (simp add: fc_stream.simps [of rd r] Let_def More(1) [symmetric])
    moreover have "concat (bs # blocks) @ lb = rest (fc_dataSource r)"
      using ih(2) More(8) by simp
    moreover have "\<forall>b \<in> set blocks. length b = fc_bufferSize r"
      using ih(3,4) same by (cases blocks) auto
    ultimately show ?thesis
      using More(4) by (intro exI [of _ "bs # blocks"] exI [of _ lb]) simp
  qed
qed

text \<open>
  A reader none of whose chunks panics, and which comes to its last chunk.  Every reader of
  a rule that never lengthens is one; a rule that does may be one on some bodies.
\<close>

inductive fc_runs :: "'s fixedChunkRegexReader \<Rightarrow> bool" where
  last: "fc_Read rd r = Some (Ret (c, Some x, r')) \<Longrightarrow> fc_runs r"
| more: "fc_Read rd r = Some (Ret (c, None, r')) \<Longrightarrow> fc_runs r' \<Longrightarrow> fc_runs r"

inductive_cases fc_runsE: "fc_runs r"

definition fc_good :: "'s fixedChunkRegexReader \<Rightarrow> bool" where
  "fc_good r \<longleftrightarrow> ok (fc_dataSource r) \<and> fc_wf r \<and> 0 < fc_bufferSize r \<and> fc_runs r"

definition rr_good :: "'s regexReader \<Rightarrow> bool" where
  "rr_good r \<longleftrightarrow> (rr_err r = None \<longrightarrow> fc_good (rr_chunkReader r))"

lemma fc_mild_good:
  assumes "fc_mild r"
  shows "fc_good r"
proof -
  from assms have "fc_runs r"
  proof (induction "rank (fc_dataSource r)" arbitrary: r rule: less_induct)
    case less
    from less.prems show ?case
    proof (cases rule: fc_mild_cases)
      case (Last bs r')
      then show ?thesis by (auto intro: fc_runs.last)
    next
      case (More bs r' w)
      from less.hyps [OF More(10,6)] More(2) show ?thesis by (auto intro: fc_runs.more)
    qed
  qed
  with assms show ?thesis by (simp add: fc_mild_def fc_good_def)
qed

lemma fc_Read_cases:
  assumes "fc_good r"
  obtains (Last) c r' where
    "fc_Read rd r = Some (Ret (c, Some (fin (fc_dataSource r)), r'))"
  | (More) c r' where
    "fc_Read rd r = Some (Ret (c, None, r'))" "fc_good r'"
    "fin (fc_dataSource r') = fin (fc_dataSource r)"
    "rank (fc_dataSource r') < rank (fc_dataSource r)"
proof -
  from assms have pre: "ok (fc_dataSource r)" "fc_wf r" and B: "0 < fc_bufferSize r"
    and runs: "fc_runs r" by (simp_all add: fc_good_def)
  from pre obtain bs e s' where f: "filled rest fin rank (fc_block r) (fc_dataSource r) bs e s'"
    and ok': "ok s'" and reads: "fc_reads r (fc_Read rd r) bs e s'"
    by (rule fc_Read_reads)
  show thesis
  proof (cases e)
    case (Some x)
    with f have "x = fin (fc_dataSource r)" by (simp add: filled_def)
    with Last reads Some show thesis by (auto simp: fc_reads_def Let_def)
  next
    case None
    from runs have "\<not> (\<exists>m. fc_Read rd r = Some (Panic m))" by (auto elim: fc_runsE)
    with reads None obtain c r' where r': "fc_Read rd r = Some (Ret (c, None, r'))"
      "fc_dataSource r' = s'" "same_rule r r'" "fc_wf r'"
      by (auto simp: fc_reads_def Let_def split: if_splits)
    with runs have "fc_runs r'" by (auto elim: fc_runsE)
    with r' ok' B have "fc_good r'" by (simp add: fc_good_def same_rule_def)
    moreover have "0 < fc_block r" using B by (simp add: fc_block_def)
    ultimately show thesis using More [OF r'(1)] r'(2) f None by (simp add: filled_def)
  qed
qed

lemma fc_stream_Some:
  assumes "fc_good r"
  shows "\<exists>x. fc_stream rd r = Some (x, fin (fc_dataSource r))"
  using assms
proof (induction "rank (fc_dataSource r)" arbitrary: r rule: less_induct)
  case less
  from less.prems show ?case
  proof (cases rule: fc_Read_cases)
    case (Last c r')
    then show ?thesis by (simp add: fc_stream.simps [of rd r])
  next
    case (More c r')
    from less.hyps [OF More(4,2)] More(1,3) show ?thesis
      by (auto simp: fc_stream.simps [of rd r])
  qed
qed

lemma rr_fetch_ok:
  assumes "rr_good r"
  shows "\<exists>r1. rr_fetch rd r = Some (Ret r1) \<and> rr_good r1 \<and> rr_rest_of rd r1 = rr_rest_of rd r \<and>
    rr_fin_of fin r1 = rr_fin_of fin r \<and> rr_fuel_of rank r1 \<le> rr_fuel_of rank r \<and>
    (rr_chunk r1 = [] \<longrightarrow> rr_err r1 = None \<longrightarrow> rr_fuel_of rank r1 < rr_fuel_of rank r)"
proof (cases "rr_err r = None \<and> rr_chunk r = []")
  case False
  with assms show ?thesis by (auto simp: rr_fetch_def)
next
  case True
  then have good: "fc_good (rr_chunkReader r)" using assms by (simp add: rr_good_def)
  then show ?thesis
  proof (cases rule: fc_Read_cases)
    case (Last c r')
    with True show ?thesis
      by (simp add: rr_fetch_def rr_good_def rr_of_defs fc_stream.simps [of rd "rr_chunkReader r"])
  next
    case (More c r')
    from fc_stream_Some [OF More(2)] obtain cs where
      "fc_stream rd r' = Some (cs, fin (fc_dataSource r'))" by blast
    with True More show ?thesis
      by (simp add: rr_fetch_def rr_good_def rr_of_defs fc_stream.simps [of rd "rr_chunkReader r"])
  qed
qed

lemma rr_loop_ok:
  assumes "rr_good r"
  shows "\<exists>bs e r'. rr_loop rd r lenP copied = Some (Ret (copied @ bs, e, r')) \<and>
    length bs \<le> lenP \<and> rr_good r' \<and> rr_rest_of rd r = bs @ rr_rest_of rd r' \<and>
    rr_fin_of fin r' = rr_fin_of fin r \<and> rr_fuel_of rank r' \<le> rr_fuel_of rank r \<and>
    (e = None \<longrightarrow> length bs = lenP \<or> rr_fuel_of rank r' < rr_fuel_of rank r) \<and>
    (\<forall>x. e = Some x \<longrightarrow> x = rr_fin_of fin r \<and> rr_rest_of rd r' = [])"
  using assms
proof (induction lenP arbitrary: r copied rule: less_induct)
  case (less lenP)
  show ?case
  proof (cases "lenP = 0")
    case True
    then have "rr_loop rd r lenP copied = Some (Ret (copied @ [], None, r))"
      by (simp add: rr_loop.simps [of rd r 0])
    with less.prems True show ?thesis
      by (intro exI [of _ "[]"] exI [of _ None] exI [of _ r]) simp
  next
    case pos: False
    obtain r1 where r1: "rr_fetch rd r = Some (Ret r1) \<and> rr_good r1 \<and>
        rr_rest_of rd r1 = rr_rest_of rd r \<and> rr_fin_of fin r1 = rr_fin_of fin r \<and>
        rr_fuel_of rank r1 \<le> rr_fuel_of rank r \<and>
        (rr_chunk r1 = [] \<longrightarrow> rr_err r1 = None \<longrightarrow> rr_fuel_of rank r1 < rr_fuel_of rank r)"
      using rr_fetch_ok [OF less.prems] ..
    then have fetch: "rr_fetch rd r = Some (Ret r1)" "rr_good r1"
      "rr_rest_of rd r1 = rr_rest_of rd r" "rr_fin_of fin r1 = rr_fin_of fin r"
      "rr_fuel_of rank r1 \<le> rr_fuel_of rank r" by blast+
    from r1 have empty: "rr_chunk r1 = [] \<Longrightarrow> rr_err r1 = None \<Longrightarrow>
        rr_fuel_of rank r1 < rr_fuel_of rank r" by blast
    show ?thesis
    proof (cases "rr_chunk r1 = []")
      case True
      then have "rr_loop rd r lenP copied = Some (Ret (copied @ [], rr_err r1, r1))"
        using pos fetch(1) by (simp add: rr_loop.simps [of rd r lenP])
      moreover have "x = rr_fin_of fin r \<and> rr_rest_of rd r1 = []" if "rr_err r1 = Some x" for x
        using that True fetch(4) by (simp add: rr_fin_of_def rr_rest_of_def)
      ultimately show ?thesis
        using fetch(2-5) empty [OF True] by (intro exI [of _ "[]"] exI [of _ "rr_err r1"]) auto
    next
      case False
      define n where "n = (if length (rr_chunk r1) < lenP then length (rr_chunk r1) else lenP)"
      define r2 where "r2 = r1\<lparr>rr_chunk := drop n (rr_chunk r1)\<rparr>"
      have n: "0 < n" "n \<le> lenP" "n \<le> length (rr_chunk r1)" using pos False by (auto simp: n_def)
      have r2: "rr_good r2" "rr_rest_of rd r1 = take n (rr_chunk r1) @ rr_rest_of rd r2"
        "rr_fin_of fin r2 = rr_fin_of fin r1" "rr_fuel_of rank r2 = rr_fuel_of rank r1"
        using fetch(2) by (simp_all add: r2_def rr_good_def rr_of_defs split: option.split)
      have "lenP - n < lenP" using n pos by simp
      from less.IH [OF this r2(1), of "copied @ take n (rr_chunk r1)"] obtain bs e r' where
        ih: "rr_loop rd r2 (lenP - n) (copied @ take n (rr_chunk r1)) =
            Some (Ret ((copied @ take n (rr_chunk r1)) @ bs, e, r'))"
          "length bs \<le> lenP - n" "rr_good r'" "rr_rest_of rd r2 = bs @ rr_rest_of rd r'"
          "rr_fin_of fin r' = rr_fin_of fin r2" "rr_fuel_of rank r' \<le> rr_fuel_of rank r2"
          "e = None \<longrightarrow> length bs = lenP - n \<or> rr_fuel_of rank r' < rr_fuel_of rank r2"
          "\<forall>x. e = Some x \<longrightarrow> x = rr_fin_of fin r2 \<and> rr_rest_of rd r' = []"
        by blast
      have run: "rr_loop rd r lenP copied = Some (Ret (copied @ (take n (rr_chunk r1) @ bs), e, r'))"
        using ih(1) pos fetch(1) False
        by (simp add: rr_loop.simps [of rd r lenP] Let_def n_def r2_def)
      have len: "length (take n (rr_chunk r1) @ bs) \<le> lenP"
        using ih(2) n by simp
      have bytes: "rr_rest_of rd r = (take n (rr_chunk r1) @ bs) @ rr_rest_of rd r'"
        using ih(4) r2(2) fetch(3) by simp
      have fin': "rr_fin_of fin r2 = rr_fin_of fin r"
        using r2(3) fetch(4) by simp
      have prog: "e = None \<longrightarrow>
          length (take n (rr_chunk r1) @ bs) = lenP \<or> rr_fuel_of rank r' < rr_fuel_of rank r"
        using ih(7) n r2(4) fetch(5) by auto
      have fuel: "rr_fuel_of rank r' \<le> rr_fuel_of rank r"
        using ih(6) r2(4) fetch(5) by simp
      show ?thesis
        using run len ih(3) bytes ih(5,8) fuel prog unfolding fin' by blast
    qed
  qed
qed

text \<open>So a \<open>regexReader\<close> over a reader that keeps the contract keeps it, too, unless it
  panics.\<close>

lemma rr_reader:
  "io_reader (rr_read_fn rd) rr_good (rr_rest_of rd) (rr_fin_of fin)
     (\<lambda>r. length (rr_rest_of rd r) + rr_fuel_of rank r)"
proof
  fix r n bs e r' x
  assume good: "rr_good r"
  from rr_loop_ok [OF good, of n "[]"] obtain cs d q where
    loop: "rr_loop rd r n [] = Some (Ret (cs, d, q))" and step: "length cs \<le> n" "rr_good q"
      "rr_rest_of rd r = cs @ rr_rest_of rd q" "rr_fin_of fin q = rr_fin_of fin r"
      "rr_fuel_of rank q \<le> rr_fuel_of rank r"
      "d = None \<longrightarrow> length cs = n \<or> rr_fuel_of rank q < rr_fuel_of rank r"
      "\<forall>x. d = Some x \<longrightarrow> x = rr_fin_of fin r \<and> rr_rest_of rd q = []"
    unfolding append_Nil by blast
  from loop have "rr_read_fn rd r n = (cs, d, q)" by (simp add: rr_read_fn_def rr_Read_def)
  note step = this step
  { assume "rr_read_fn rd r n = (bs, e, r')"
    with step show "length bs \<le> n" "rr_good r'" "rr_rest_of rd r = bs @ rr_rest_of rd r'"
      "rr_fin_of fin r' = rr_fin_of fin r" by simp_all }
  { assume "rr_read_fn rd r n = (bs, None, r')" and "0 < n"
    with step show "length (rr_rest_of rd r') + rr_fuel_of rank r' <
        length (rr_rest_of rd r) + rr_fuel_of rank r"
      by (auto simp flip: length_greater_0_conv) }
  { assume "rr_read_fn rd r n = (bs, Some x, r')"
    with step show "x = rr_fin_of fin r \<and> rr_rest_of rd r' = []" by auto }
qed

end

interpretation rr_src: io_reader "rr_read_fn src_read" "io_reader.rr_good src_read src_ok"
  "rr_rest_of src_read" "rr_fin_of src_fin"
  "\<lambda>r. length (rr_rest_of src_read r) + rr_fuel_of src_rank r"
  using src.rr_reader .

end
