(* ===== verification/RegexStream.thy ===== *)
theory RegexStream
  imports ChunkedRegex
begin

text \<open>
  What the streaming replacement of \<open>ChunkedRegex\<close> guarantees, and where it fails: it is
  the window algorithm for every rule that never makes a text longer, it is exactly
  \<open>ReplaceAll\<close> on the whole body for rules that rewrite single bytes, and a rule that makes
  the text longer loses bytes or crashes.
\<close>

subsection \<open>Rewrites that commute with cutting\<close>

text \<open>A rewrite is local if rewriting an already rewritten prefix again, cut anywhere, together
  with new input gives what rewriting everything at once gives.\<close>

definition local_rewrite :: "(bytes \<Rightarrow> bytes) \<Rightarrow> bool" where
  "local_rewrite R \<longleftrightarrow> (\<forall>x y m. take m (R x) @ R (drop m (R x) @ y) = R (x @ y))"

lemma window_out_local:
  assumes "local_rewrite R"
  shows "window_out R kept blocks last_block = R (kept @ concat blocks @ last_block)"
  using assms
proof (induction R kept blocks last_block rule: window_out.induct)
  case (2 R kept b bs lb)
  from 2(1) [OF refl refl 2(2)] 2(2) [unfolded local_rewrite_def, rule_format,
      of "length (R (kept @ b)) div 2" "kept @ b" "concat bs @ lb"]
  show ?case by (simp add: Let_def)
qed simp

lemma map_class_free:
  assumes "\<forall>c \<in> set repl. \<not> P c" and "c \<in> set (map_class P repl x)"
  shows "\<not> P c"
  using assms by (auto simp: map_class_def split: if_splits)

lemma map_class_local:
  assumes "\<forall>c \<in> set repl. \<not> P c"
  shows "local_rewrite (map_class P repl)"
  unfolding local_rewrite_def
proof (intro allI)
  fix x y m
  have "\<forall>c \<in> set (drop m (map_class P repl x)). \<not> P c"
    using map_class_free [OF assms] by (meson in_set_dropD)
  then show "take m (map_class P repl x) @ map_class P repl (drop m (map_class P repl x) @ y) =
      map_class P repl (x @ y)"
    by (simp add: map_class_none go_list)
qed

lemma map_class_shrinking: "length repl \<le> 1 \<Longrightarrow> shrinking (map_class P repl)"
proof -
  assume len: "length repl \<le> 1"
  have "length (map_class P repl x) \<le> length x" for x
    using len by (induction x) (auto simp: map_class_def)
  then show ?thesis by (simp add: shrinking_def)
qed

lemma RegexReader_simps [simp]:
  "rr_err (RegexReader s B rx repl) = None" "rr_chunk (RegexReader s B rx repl) = []"
  "fc_dataSource (rr_chunkReader (RegexReader s B rx repl)) = s"
  "fc_buffer (rr_chunkReader (RegexReader s B rx repl)) = None"
  "fc_bufferSize (rr_chunkReader (RegexReader s B rx repl)) = B"
  "fc_find (rr_chunkReader (RegexReader s B rx repl)) = rx"
  "fc_replace (rr_chunkReader (RegexReader s B rx repl)) = repl"
  by (simp_all add: RegexReader_def)

context io_reader
begin

text \<open>A fresh reader for a rule that never lengthens: its whole stream is the window algorithm.\<close>

lemma rr_drain_window:
  assumes "ok s" and "0 < B" and "\<And>i. 0 < sz i" and "shrinking (\<lambda>x. ReplaceAll rx x repl)"
  shows "\<exists>blocks last_block s'.
    drain (rr_read_fn rd) sz 0 [] (RegexReader s B rx repl) =
      Some (window_out (\<lambda>x. ReplaceAll rx x repl) [] blocks last_block, fin s, s') \<and>
    concat blocks @ last_block = rest s \<and>
    (blocks \<noteq> [] \<longrightarrow> length (hd blocks) = 2 * B) \<and> (\<forall>b \<in> set (tl blocks). length b = B)"
proof -
  let ?r = "RegexReader s B rx repl"
  have mild: "fc_mild (rr_chunkReader ?r)"
    using assms by (simp add: fc_mild_def fc_wf_def)
  then have "rr_good ?r" by (simp add: rr_good_def fc_mild_good)
  from io_reader.drain_all [OF rr_reader this, of sz 0 "[]"] assms(3) obtain s' where
    "drain (rr_read_fn rd) sz 0 [] ?r = Some (rr_rest_of rd ?r, rr_fin_of fin ?r, s')" by auto
  moreover from fc_stream_window [OF mild] obtain blocks lb where
    "fc_stream rd (rr_chunkReader ?r) =
      Some (window_out (\<lambda>x. ReplaceAll rx x repl) [] blocks lb, fin s)"
    "concat blocks @ lb = rest s" "blocks \<noteq> [] \<longrightarrow> length (hd blocks) = 2 * B"
    "\<forall>b \<in> set (tl blocks). length b = B"
    by (auto simp: fc_kept_def fc_block_def mult.commute)
  ultimately show ?thesis by (auto simp: rr_rest_of_def rr_fin_of_def)
qed

lemma rr_drain_local:
  assumes "ok s" and "0 < B" and "\<And>i. 0 < sz i"
    and "shrinking (\<lambda>x. ReplaceAll rx x repl)" and "local_rewrite (\<lambda>x. ReplaceAll rx x repl)"
  shows "\<exists>s'. drain (rr_read_fn rd) sz 0 [] (RegexReader s B rx repl) =
    Some (ReplaceAll rx (rest s) repl, fin s, s')"
proof -
  from rr_drain_window [of s B sz rx repl] assms(1-4) obtain blocks lb s' where
    "drain (rr_read_fn rd) sz 0 [] (RegexReader s B rx repl) =
      Some (window_out (\<lambda>x. ReplaceAll rx x repl) [] blocks lb, fin s, s')"
    and cut: "concat blocks @ lb = rest s" by blast
  then show ?thesis by (simp add: window_out_local [OF assms(5)] cut)
qed

end

subsection \<open>Properties: rules that do not lengthen\<close>

text \<open>(C1) The buffer and index manipulation of the chunk reader implements the window algorithm:
  for every body source (any sequence of partial reads, ending in any error), every buffer
  size, every sequence of non-empty read buffers and every rule whose replacement never makes
  a text longer, reading the \<open>regexReader\<close> ends, passes on the body's final error, and yields
  exactly the windows of the body cut into one block of twice the buffer size and then blocks
  of the buffer size: nothing is lost, duplicated or left over in the buffers.\<close>

theorem regexReader_refines_window:
  assumes "\<not> src_closed s" and "0 < B" and "\<And>i. 0 < sz i"
    and "\<And>x. length (ReplaceAll rx x repl) \<le> length x"
  shows "\<exists>blocks last_block s'.
    drain (rr_read_fn src_read) sz 0 [] (RegexReader s B rx repl) =
      Some (window_out (\<lambda>x. ReplaceAll rx x repl) [] blocks last_block, src_fin s, s') \<and>
    concat blocks @ last_block = src_rest s \<and>
    (blocks \<noteq> [] \<longrightarrow> length (hd blocks) = 2 * B) \<and> (\<forall>b \<in> set (tl blocks). length b = B)"
  using src.rr_drain_window [of s B sz rx repl] assms by (simp add: src_ok_def shrinking_def)

text \<open>(C29) For a rule that replaces or deletes single bytes of a class (such as \<open>[0-9]\<close> to \<open>x\<close>, or
  \<open>[0-9]\<close> deleted) the streaming reader is exact: whatever the buffer size and however the
  body arrives and is read, the result is \<open>ReplaceAll\<close> on the whole body at once.\<close>

theorem regexReader_class_exact:
  assumes "\<not> src_closed s" and "0 < B" and "\<And>i. 0 < sz i"
    and "\<And>c. P c \<Longrightarrow> \<not> digit7 c" and "CHR ''$'' \<notin> set repl"
    and "length repl \<le> 1" and "\<forall>c \<in> set repl. \<not> P c"
  shows "\<exists>s'. drain (rr_read_fn src_read) sz 0 [] (RegexReader s B (class_regexp expr P) repl) =
    Some (ReplaceAll (class_regexp expr P) (src_rest s) repl, src_fin s, s')"
proof -
  have R: "(\<lambda>x. ReplaceAll (class_regexp expr P) x repl) = map_class P repl"
    using ReplaceAll_class [OF assms(4,5)] by (intro ext) simp
  show ?thesis
    using src.rr_drain_local [of s B sz "class_regexp expr P" repl] assms(1-3)
      map_class_shrinking [OF assms(6)] map_class_local [OF assms(7)]
    by (simp add: src_ok_def R)
qed

text \<open>A class of one ASCII byte, the form the witnesses use.\<close>

lemma ReplaceAll_byte:
  assumes "\<not> digit7 d" and "CHR ''$'' \<notin> set repl"
  shows "ReplaceAll (class_regexp expr (\<lambda>c. c = d)) x repl = map_class (\<lambda>c. c = d) repl x"
  using assms by (intro ReplaceAll_class) auto

abbreviation body_of :: "string \<Rightarrow> source" where
  "body_of t \<equiv> \<lparr>src_events = [(t, None)], src_closed = False\<rparr>"

theorem regexReader_refines_window_witness:
  "\<exists>blocks last_block s'.
    drain (rr_read_fn src_read) (\<lambda>_. 3) 0 []
        (RegexReader (body_of ''a1b2c3d4'') 2 (class_regexp ''2'' (\<lambda>c. c = CHR ''2'')) []) =
      Some (window_out (\<lambda>x. ReplaceAll (class_regexp ''2'' (\<lambda>c. c = CHR ''2'')) x []) [] blocks
              last_block, EOF, s') \<and>
    concat blocks @ last_block = ''a1b2c3d4''"
proof -
  have "length (ReplaceAll (class_regexp ''2'' (\<lambda>c. c = CHR ''2'')) x []) \<le> length x" for x
    using map_class_shrinking [of "[]" "\<lambda>c. c = CHR ''2''"]
    by (simp add: ReplaceAll_byte shrinking_def)
  from regexReader_refines_window [of "body_of ''a1b2c3d4''" 2 "\<lambda>_. 3", OF _ _ _ this]
  show ?thesis
    by (simp add: src_rest_def src_fin_def) (elim exE conjE, intro exI conjI, assumption+)
qed

theorem regexReader_class_exact_witness:
  "\<exists>s'. drain (rr_read_fn src_read) (\<lambda>_. 3) 0 []
      (RegexReader (body_of ''a1b2c3d4'') 2 (class_regexp ''2'' (\<lambda>c. c = CHR ''2'')) []) =
    Some (''a1bc3d4'', EOF, s')"
  using regexReader_class_exact [of "body_of ''a1b2c3d4''" 2 "\<lambda>_. 3" "\<lambda>c. c = CHR ''2''" "[]" "''2''"]
  by (simp add: src_rest_def src_fin_def ReplaceAll_byte map_class_def)

subsection \<open>Rules that lengthen\<close>

text \<open>The text \<open>xyxy...\<close> of length \<open>2 * n\<close>: what \<open>n\<close> bytes \<open>a\<close> become under \<open>a\<close> to \<open>xy\<close>.\<close>

definition xys :: "nat \<Rightarrow> bytes" where
  "xys n = concat (replicate n ''xy'')"

abbreviation is_a :: "char \<Rightarrow> bool" where
  "is_a \<equiv> \<lambda>c. c = CHR ''a''"

abbreviation a_regexp :: regexp where
  "a_regexp \<equiv> class_regexp ''a'' is_a"

abbreviation nuls :: "nat \<Rightarrow> bytes" where
  "nuls n \<equiv> replicate n CHR 0x00"

lemma xys_add: "xys (m + n) = xys m @ xys n"
  by (simp add: xys_def replicate_add)

lemma length_xys [simp]: "length (xys n) = 2 * n"
  by (induction n) (simp_all add: xys_def)

lemma xys_free: "c \<in> set (xys n) \<Longrightarrow> c \<noteq> CHR ''a'' \<and> c \<noteq> CHR 0x00"
  by (induction n) (auto simp: xys_def)

lemma map_class_xys [simp]: "map_class is_a repl (xys n) = xys n"
  by (intro map_class_none) (auto dest: xys_free)

lemma map_class_replicate:
  "P c \<Longrightarrow> map_class P repl (replicate n c) = concat (replicate n repl)"
  by (induction n) (simp_all add: map_class_def)

lemma rewrite_a: "ReplaceAll a_regexp x ''xy'' = map_class is_a ''xy'' x"
  by (rule ReplaceAll_byte) simp_all

lemma replicate_split:
  assumes "replicate n c @ t = bs @ r" and "length bs \<le> n"
  shows "bs = replicate (length bs) c \<and> r = replicate (n - length bs) c @ t"
proof -
  have "bs = take (length bs) (replicate n c @ t)" using assms(1) by simp
  also have "\<dots> = replicate (length bs) c" using assms(2) by simp
  finally have bs: "bs = replicate (length bs) c" .
  have "r = drop (length bs) (replicate n c @ t)" using assms(1) by simp
  also have "\<dots> = replicate (n - length bs) c @ t" using assms(2) by simp
  finally show ?thesis using bs by blast
qed

lemma fc_reads_more:
  assumes "fc_reads r res bs None s'" and "fc_rewrite r (fc_kept r @ bs) = w"
    and "length w div 2 \<le> fc_room r bs"
  obtains r' where "res = Some (Ret (take (length w div 2) w, None, r'))" "fc_dataSource r' = s'"
    "fc_find r' = fc_find r" "fc_replace r' = fc_replace r" "fc_bufferSize r' = fc_bufferSize r"
    "fc_block r' = fc_bufferSize r" "fc_wf r'" "fc_buffer r' \<noteq> None"
    "fc_kept r' = pad (length w - length w div 2) (drop (length w div 2) (take (fc_room r bs) w))"
  using assms unfolding fc_reads_def Let_def same_rule_def fc_block_def
  by (simp split: if_splits) blast

context io_reader
begin

text \<open>A call that cannot reach the end of the input reads a whole block and either panics or
  hands out half a window.\<close>

lemma fc_Read_more:
  assumes "ok (fc_dataSource r)" and "fc_wf r"
    and "fc_block r < length (rest (fc_dataSource r))"
  obtains bs s' where "length bs = fc_block r" "rest (fc_dataSource r) = bs @ rest s'"
    "fin s' = fin (fc_dataSource r)" "ok s'" "fc_reads r (fc_Read rd r) bs None s'"
proof -
  from assms(1,2) obtain bs e s' where
    f: "filled rest fin rank (fc_block r) (fc_dataSource r) bs e s'"
    and rest: "ok s'" "fc_reads r (fc_Read rd r) bs e s'"
    by (rule fc_Read_reads)
  from f assms(3) have "e = None" by (auto simp: filled_def split: option.splits)
  with f rest that show thesis by (simp add: filled_def)
qed

text \<open>A call with less than a block left reads all of it and ends the stream.\<close>

lemma fc_Read_less:
  assumes "ok (fc_dataSource r)" and "fc_wf r"
    and "length (rest (fc_dataSource r)) < fc_block r"
  obtains r' where "fc_Read rd r =
    Some (Ret (fc_rewrite r (fc_kept r @ rest (fc_dataSource r)), Some (fin (fc_dataSource r)), r'))"
proof -
  from assms(1,2) obtain bs e s' where
    f: "filled rest fin rank (fc_block r) (fc_dataSource r) bs e s'"
    and reads: "fc_reads r (fc_Read rd r) bs e s'"
    by (rule fc_Read_reads)
  from f assms(3) have "e = Some (fin (fc_dataSource r)) \<and> bs = rest (fc_dataSource r)"
    by (auto simp: filled_def split: option.splits)
  with reads that show thesis by (auto simp: fc_reads_def Let_def)
qed

lemma rr_drain_stream:
  assumes "fc_good (rr_chunkReader (RegexReader s B rx repl))" and "\<And>i. 0 < sz i"
    and "fc_stream rd (rr_chunkReader (RegexReader s B rx repl)) = Some (out, x)"
  shows "\<exists>s'. drain (rr_read_fn rd) sz 0 [] (RegexReader s B rx repl) = Some (out, fin s, s')"
proof -
  let ?r = "RegexReader s B rx repl"
  have "rr_good ?r" using assms(1) by (simp add: rr_good_def)
  from io_reader.drain_all [OF rr_reader this, of sz 0 "[]"] assms(2) obtain s' where
    "drain (rr_read_fn rd) sz 0 [] ?r = Some (rr_rest_of rd ?r, rr_fin_of fin ?r, s')" by auto
  then show ?thesis using assms(3) by (simp add: rr_rest_of_def rr_fin_of_def)
qed

lemma grow_stream:
  assumes "ok s" and "2 \<le> B" and "rest s = replicate (3 * B + 1) CHR ''a''"
  shows "fc_good (rr_chunkReader (RegexReader s B a_regexp ''xy''))"
    and "fc_stream rd (rr_chunkReader (RegexReader s B a_regexp ''xy'')) =
      Some (xys B @ xys B @ take B (xys B) @ nuls B @ ''xy'', fin s)"
proof -
  define r0 where "r0 = rr_chunkReader (RegexReader s B a_regexp ''xy'')"
  have r0: "fc_dataSource r0 = s" "fc_wf r0" "fc_kept r0 = []" "fc_block r0 = 2 * B"
    "fc_bufferSize r0 = B" "fc_find r0 = a_regexp" "fc_replace r0 = ''xy''" "fc_buffer r0 = None"
    by (simp_all add: r0_def fc_wf_def fc_kept_def fc_block_def)
  have "fc_block r0 < length (rest (fc_dataSource r0))" using assms(2,3) by (simp add: r0)
  from fc_Read_more [OF _ r0(2) this] assms(1) obtain bs1 s1 where
    b1: "length bs1 = 2 * B" "rest s = bs1 @ rest s1" "fin s1 = fin s" "ok s1"
      "fc_reads r0 (fc_Read rd r0) bs1 None s1" by (auto simp: r0)
  from replicate_split [of "3 * B + 1" "CHR ''a''" "[]" bs1 "rest s1"] b1(1,2) assms(3)
  have bs1: "bs1 = replicate (2 * B) CHR ''a''" and rest1: "rest s1 = replicate (B + 1) CHR ''a''"
    by simp_all
  have w1: "fc_rewrite r0 (fc_kept r0 @ bs1) = xys B @ xys B"
    unfolding r0 rewrite_a bs1 append_Nil
    by (simp add: map_class_replicate xys_def [symmetric] mult_2 xys_add)
  then have room1: "fc_room r0 bs1 = 4 * B" by (simp add: fc_room_def r0(8))
  from fc_reads_more [OF b1(5) w1] obtain r1 where
    c1: "fc_Read rd r0 = Some (Ret (xys B, None, r1))" and
    r1: "fc_dataSource r1 = s1" "fc_find r1 = a_regexp" "fc_replace r1 = ''xy''"
      "fc_bufferSize r1 = B" "fc_block r1 = B" "fc_wf r1" "fc_buffer r1 \<noteq> None"
      "fc_kept r1 = xys B"
    by (auto simp: r0 room1 pad_enough)
  have "fc_block r1 < length (rest (fc_dataSource r1))" by (simp add: r1 rest1)
  from fc_Read_more [OF _ r1(6) this] b1(4) obtain bs2 s2 where
    b2: "length bs2 = B" "rest s1 = bs2 @ rest s2" "fin s2 = fin s1" "ok s2"
      "fc_reads r1 (fc_Read rd r1) bs2 None s2" by (auto simp: r1)
  from replicate_split [of "B + 1" "CHR ''a''" "[]" bs2 "rest s2"] b2(1,2) rest1
  have bs2: "bs2 = replicate B CHR ''a''" and rest2: "rest s2 = ''a''" by simp_all
  have w2: "fc_rewrite r1 (fc_kept r1 @ bs2) = xys B @ xys B"
    unfolding r1 rewrite_a bs2 by (simp add: map_class_replicate xys_def [symmetric])
  have room2: "fc_room r1 bs2 = 3 * B" using r1(7,8) b2(1) by (auto simp: fc_room_def)
  have k2: "drop (2 * B) (take (3 * B) (xys B @ xys B)) = take B (xys B)"
    by (simp add: drop_take)
  from fc_reads_more [OF b2(5) w2] obtain r2 where
    c2: "fc_Read rd r1 = Some (Ret (xys B, None, r2))" and
    r2: "fc_dataSource r2 = s2" "fc_find r2 = a_regexp" "fc_replace r2 = ''xy''"
      "fc_block r2 = B" "fc_wf r2" "fc_kept r2 = pad (2 * B) (take B (xys B))"
    by (auto simp: r1 room2 k2)
  have kept2: "fc_kept r2 = take B (xys B) @ nuls B"
    by (simp add: r2(6) pad_def min_def)
  have "length (rest (fc_dataSource r2)) < fc_block r2" using assms(2) by (simp add: r2 rest2)
  from fc_Read_less [OF _ r2(5) this] b2(4) obtain r3 where
    c3: "fc_Read rd r2 = Some (Ret (fc_rewrite r2 (fc_kept r2 @ ''a''), Some (fin s), r3))"
    using b1(3) b2(3) by (auto simp: r2 rest2)
  have "map_class is_a ''xy'' (take B (xys B) @ nuls B) = take B (xys B) @ nuls B"
    by (intro map_class_none) (auto dest: in_set_takeD xys_free)
  then have w3: "fc_rewrite r2 (fc_kept r2 @ ''a'') = take B (xys B) @ nuls B @ ''xy''"
    unfolding kept2 r2(2,3) rewrite_a map_class_append by (simp add: map_class_def)
  have "fc_runs r0" using c1 c2 c3 by (blast intro: fc_runs.intros)
  then show "fc_good (rr_chunkReader (RegexReader s B a_regexp ''xy''))"
    using r0 assms(1,2) by (simp add: fc_good_def r0_def [symmetric])
  show "fc_stream rd (rr_chunkReader (RegexReader s B a_regexp ''xy'')) =
      Some (xys B @ xys B @ take B (xys B) @ nuls B @ ''xy'', fin s)"
    unfolding r0_def [symmetric]
    by (simp add: fc_stream.simps [of rd r0] fc_stream.simps [of rd r1] fc_stream.simps [of rd r2]
        c1 c2 c3 w3)
qed

text \<open>A window more than twice as long as the buffer it was read into panics.\<close>

lemma grow_panics:
  assumes "ok s" and "0 < B" and "rest s = replicate (2 * B) b @ replicate B d @ t" and "t \<noteq> []"
    and "b \<noteq> d" and "\<not> digit7 d" and "CHR ''$'' \<notin> set repl" and "5 \<le> length repl" and "B < n"
  shows "rr_Read rd (RegexReader s B (class_regexp expr (\<lambda>c. c = d)) repl) n =
    Some (Panic ''slice bounds out of range'')"
proof -
  let ?rx = "class_regexp expr (\<lambda>c. c = d)"
  define r0 where "r0 = rr_chunkReader (RegexReader s B ?rx repl)"
  have r0: "fc_dataSource r0 = s" "fc_wf r0" "fc_kept r0 = []" "fc_block r0 = 2 * B"
    "fc_bufferSize r0 = B" "fc_find r0 = ?rx" "fc_replace r0 = repl" "fc_buffer r0 = None"
    by (simp_all add: r0_def fc_wf_def fc_kept_def fc_block_def)
  note rw = ReplaceAll_byte [OF assms(6,7)]
  have "fc_block r0 < length (rest (fc_dataSource r0))" using assms(2,3) by (simp add: r0)
  from fc_Read_more [OF _ r0(2) this] assms(1) obtain bs1 s1 where
    b1: "length bs1 = 2 * B" "rest s = bs1 @ rest s1" "fin s1 = fin s" "ok s1"
      "fc_reads r0 (fc_Read rd r0) bs1 None s1" by (auto simp: r0)
  from replicate_split [of "2 * B" b _ bs1 "rest s1"] b1(1,2) assms(3)
  have bs1: "bs1 = replicate (2 * B) b" and rest1: "rest s1 = replicate B d @ t" by simp_all
  have w1: "fc_rewrite r0 (fc_kept r0 @ bs1) = replicate (2 * B) b"
    unfolding r0 rw bs1 using assms(5) by (simp add: map_class_none)
  then have room1: "fc_room r0 bs1 = 2 * B" by (simp add: fc_room_def r0(8))
  obtain r1 where
    c1: "fc_Read rd r0 = Some (Ret (replicate B b, None, r1))" and
    r1: "fc_dataSource r1 = s1" "fc_find r1 = ?rx" "fc_replace r1 = repl" "fc_block r1 = B"
      "fc_wf r1" "fc_buffer r1 \<noteq> None" "fc_kept r1 = replicate B b"
    by (rule fc_reads_more [OF b1(5) w1]) (simp_all add: r0 room1 pad_enough)
  have "fc_block r1 < length (rest (fc_dataSource r1))" using assms(4) by (simp add: r1 rest1)
  from fc_Read_more [OF _ r1(5) this] b1(4) obtain bs2 s2 where
    b2: "length bs2 = B" "rest s1 = bs2 @ rest s2" "fc_reads r1 (fc_Read rd r1) bs2 None s2"
    using r1(1,4) by metis
  from replicate_split [of B d t bs2 "rest s2"] b2(1,2) rest1
  have bs2: "bs2 = replicate B d" by simp
  have "fc_rewrite r1 (fc_kept r1 @ bs2) = replicate B b @ concat (replicate B repl)"
    unfolding r1 rw bs2 using assms(5) by (simp add: map_class_none map_class_replicate)
  moreover have "length (concat (replicate B repl)) = B * length repl" by (induction B) simp_all
  ultimately have "length (fc_rewrite r1 (fc_kept r1 @ bs2)) = B + B * length repl" by simp
  moreover have "B * 5 \<le> B * length repl" using assms(8) by simp
  moreover have "fc_room r1 bs2 = 2 * B"
    using r1(6,7) b2(1) by (auto simp: fc_room_def)
  ultimately have "fc_room r1 bs2 < length (fc_rewrite r1 (fc_kept r1 @ bs2)) div 2"
    using assms(2) by linarith
  with b2(3) have c2: "fc_Read rd r1 = Some (Panic ''slice bounds out of range'')"
    by (auto simp: fc_reads_def Let_def)
  let ?q = "RegexReader s B ?rx repl"
  have f1: "rr_fetch rd ?q = Some (Ret (?q\<lparr>rr_chunk := replicate B b, rr_chunkReader := r1\<rparr>))"
    using c1 by (simp add: rr_fetch_def r0_def)
  have f2: "rr_fetch rd (?q\<lparr>rr_chunkReader := r1, rr_chunk := []\<rparr>) =
      Some (Panic ''slice bounds out of range'')"
    using c2 by (simp add: rr_fetch_def)
  from f1 f2 assms(2,9) show ?thesis
    by (simp add: rr_Read_def rr_loop.simps [of rd ?q] rr_loop.simps [of rd "_\<lparr>rr_chunk := []\<rparr>"])
qed

end

text \<open>(C30) A rule that lengthens the text corrupts the body: under \<open>a\<close> to \<open>xy\<close>, and for every
  buffer size \<open>B\<close> (the program uses 16384), a body of \<open>3 * B + 1\<close> bytes \<open>a\<close> comes out with \<open>B\<close>
  zero bytes in place of rewritten text, although neither the body nor the rule contains a zero
  byte.  The second and later windows are copied back into a buffer that was not enlarged.\<close>

theorem regexReader_lengthening_corrupts:
  assumes "\<not> src_closed s" and "2 \<le> B" and "\<And>i. 0 < sz i"
    and "src_rest s = replicate (3 * B + 1) CHR ''a''"
  shows "\<exists>out s'.
    drain (rr_read_fn src_read) sz 0 [] (RegexReader s B a_regexp ''xy'') = Some (out, src_fin s, s') \<and>
    drop (5 * B) out = replicate B CHR 0x00 @ ''xy'' \<and>
    CHR 0x00 \<notin> set (ReplaceAll a_regexp (src_rest s) ''xy'')"
proof -
  have ok: "src_ok s" using assms(1) by (simp add: src_ok_def)
  note g = src.grow_stream [OF ok assms(2,4)]
  have "ReplaceAll a_regexp (src_rest s) ''xy'' = xys (3 * B + 1)"
    by (simp only: rewrite_a assms(4) map_class_replicate xys_def)
  then have "CHR 0x00 \<notin> set (ReplaceAll a_regexp (src_rest s) ''xy'')"
    by (auto dest: xys_free)
  with src.rr_drain_stream [OF g(1) _ g(2), of sz] assms(3) show ?thesis by auto
qed

theorem regexReader_lengthening_corrupts_witness:
  "\<exists>out s'.
    drain (rr_read_fn src_read) (\<lambda>_. 5) 0 [] (RegexReader (body_of ''aaaaaaa'') 2 a_regexp ''xy'') =
      Some (out, EOF, s') \<and>
    drop 10 out = [CHR 0x00, CHR 0x00] @ ''xy'' \<and>
    CHR 0x00 \<notin> set (ReplaceAll a_regexp ''aaaaaaa'' ''xy'')"
  using regexReader_lengthening_corrupts [of "body_of ''aaaaaaa''" 2 "\<lambda>_. 5"]
  by (simp add: src_rest_def src_fin_def numeral_eq_Suc)

text \<open>A rule that replaces a byte by five or more crashes the reader on a body of the right
  shape: two blocks without a match and then a block of matches make the window longer than
  twice its buffer, and the slice \<open>r.buffer[:r.midIndex]\<close> is out of range.  Nothing recovers
  from this panic, so it ends the proxy process.\<close>

theorem regexReader_lengthening_panics:
  assumes "\<not> src_closed s" and "0 < B"
    and "src_rest s = replicate (2 * B) b @ replicate B d @ t" and "t \<noteq> []"
    and "b \<noteq> d" and "\<not> digit7 d" and "CHR ''$'' \<notin> set repl" and "5 \<le> length repl" and "B < n"
  shows "rr_Read src_read (RegexReader s B (class_regexp expr (\<lambda>c. c = d)) repl) n =
    Some (Panic ''slice bounds out of range'')"
  using src.grow_panics assms by (simp add: src_ok_def)

theorem regexReader_lengthening_panics_witness:
  "rr_Read src_read (RegexReader (body_of ''bbbbaaz'') 2 a_regexp ''hello'') 3 =
    Some (Panic ''slice bounds out of range'')"
  using regexReader_lengthening_panics
    [of "body_of ''bbbbaaz''" 2 "CHR ''b''" "CHR ''a''" "''z''" "''hello''" 3 "''a''"]
  by (simp add: src_rest_def numeral_eq_Suc)

end
