(* ===== verification/PrxConfig.thy ===== *)
theory PrxConfig
  imports GoRegexp "HOL-Library.Word"
begin

text \<open>
  The configuration of \<open>prxConfig/prxConfig.go\<close>: the JSON shapes the API accepts, the
  compiled rules the proxy runs, and \<open>Compile\<close>.  A pointer field is an \<open>option\<close>; a nil
  slice and an empty one are both \<open>[]\<close>, which loses nothing here because every slice is
  built by \<open>append\<close> from nil and so is nil exactly when it is empty.  \<open>regexp.Compile\<close> is
  the argument \<open>rxc\<close>: the error text or the compiled expression.
\<close>

record Rule =
  rule_Prepend :: "string option"
  rule_Find :: "regexp option"
  rule_Replace :: "string option"
  rule_Append :: "string option"

record RuleJSON =
  rj_Find :: "string option"
  rj_Replace :: "string option"
  rj_Append :: "string option"
  rj_Prepend :: "string option"
  rj_Delete :: "string option"

record TypeJSON =
  tj_URL :: "RuleJSON list"
  tj_Header :: "RuleJSON list"
  tj_Body :: "RuleJSON list"
  tj_Status :: "RuleJSON list"

record TypeRules =
  ty_URL :: "Rule list"
  ty_Header :: "Rule list"
  ty_Body :: "Rule list"
  ty_Status :: "Rule list"

record WhereJSON =
  wj_Request :: "TypeJSON option"
  wj_Response :: "TypeJSON option"

record Where =
  wh_Request :: TypeRules
  wh_Response :: TypeRules

record EntryJSON =
  ej_URL :: "string option"
  ej_UploadSpeed :: "64 word option"
  ej_DownloadSpeed :: "64 word option"
  ej_ResponseDelay :: "64 word option"
  ej_Rewrite :: "WhereJSON option"

record Entry =
  en_URL :: "regexp option"
  en_UploadSpeed :: "64 word option"
  en_DownloadSpeed :: "64 word option"
  en_ResponseDelay :: "64 word option"
  en_Rewrite :: Where

type_synonym RewriteRules = "Entry list"

record Config =
  cf_IP :: "string option"
  cf_Rules :: "EntryJSON list"

type_synonym rx_compiler = "string \<Rightarrow> string + regexp"

definition illegal_choice :: string where
  "illegal_choice = ''Illegal field choice in rewrite rule''"

definition empty_rule :: Rule where
  "empty_rule = \<lparr>rule_Prepend = None, rule_Find = None, rule_Replace = None, rule_Append = None\<rparr>"

text \<open>The body of the loop of \<open>compileRules\<close>, for one rule.\<close>

definition compileRule :: "rx_compiler \<Rightarrow> RuleJSON \<Rightarrow> string + Rule" where
  "compileRule rxc j =
     (if rj_Replace j \<noteq> None then
        (if rj_Append j \<noteq> None \<or> rj_Prepend j \<noteq> None \<or> rj_Delete j \<noteq> None then Inl illegal_choice
         else
           let rule = empty_rule\<lparr>rule_Replace := rj_Replace j\<rparr>
           in case rj_Find j of
                None \<Rightarrow> Inr rule
              | Some f \<Rightarrow> (case rxc f of Inl e \<Rightarrow> Inl e | Inr rx \<Rightarrow> Inr (rule\<lparr>rule_Find := Some rx\<rparr>)))
      else if rj_Prepend j \<noteq> None then
        (if rj_Delete j \<noteq> None \<or> rj_Find j \<noteq> None \<or> rj_Replace j \<noteq> None \<or> rj_Append j \<noteq> None
         then Inl illegal_choice
         else Inr (empty_rule\<lparr>rule_Prepend := rj_Prepend j\<rparr>))
      else if rj_Append j \<noteq> None then
        (if rj_Delete j \<noteq> None \<or> rj_Find j \<noteq> None \<or> rj_Replace j \<noteq> None \<or> rj_Prepend j \<noteq> None
         then Inl illegal_choice
         else Inr (empty_rule\<lparr>rule_Append := rj_Append j\<rparr>))
      else if rj_Delete j \<noteq> None then
        (if rj_Prepend j \<noteq> None \<or> rj_Find j \<noteq> None \<or> rj_Replace j \<noteq> None \<or> rj_Append j \<noteq> None
         then Inl illegal_choice
         else case rxc (the (rj_Delete j)) of
                Inl e \<Rightarrow> Inl e
              | Inr rx \<Rightarrow> Inr (empty_rule\<lparr>rule_Find := Some rx, rule_Replace := Some []\<rparr>))
      else Inl illegal_choice)"

fun compileRules :: "rx_compiler \<Rightarrow> RuleJSON list \<Rightarrow> string + Rule list" where
  "compileRules rxc [] = Inr []"
| "compileRules rxc (j # js) =
     (case compileRule rxc j of
        Inl e \<Rightarrow> Inl e
      | Inr r \<Rightarrow> (case compileRules rxc js of Inl e \<Rightarrow> Inl e | Inr rs \<Rightarrow> Inr (r # rs)))"

definition compileTypes :: "rx_compiler \<Rightarrow> TypeJSON \<Rightarrow> string + TypeRules" where
  "compileTypes rxc t =
     (case compileRules rxc (tj_URL t) of Inl e \<Rightarrow> Inl e | Inr u \<Rightarrow>
      case compileRules rxc (tj_Header t) of Inl e \<Rightarrow> Inl e | Inr h \<Rightarrow>
      case compileRules rxc (tj_Body t) of Inl e \<Rightarrow> Inl e | Inr b \<Rightarrow>
      case compileRules rxc (tj_Status t) of Inl e \<Rightarrow> Inl e | Inr s \<Rightarrow>
        Inr \<lparr>ty_URL = u, ty_Header = h, ty_Body = b, ty_Status = s\<rparr>)"

definition no_types :: TypeJSON where
  "no_types = \<lparr>tj_URL = [], tj_Header = [], tj_Body = [], tj_Status = []\<rparr>"

text \<open>The body of the loop of \<open>Compile\<close>, for one entry.  The error of compiling the default
  pattern is not looked at: the entry then has no expression.\<close>

definition compileEntry :: "rx_compiler \<Rightarrow> EntryJSON \<Rightarrow> string + Entry" where
  "compileEntry rxc ej =
     (let u = (case ej_URL ej of
                 Some p \<Rightarrow> (case rxc p of Inl e \<Rightarrow> Inl e | Inr rx \<Rightarrow> Inr (Some rx))
               | None \<Rightarrow> (case rxc ''.*'' of Inl e \<Rightarrow> Inr None | Inr rx \<Rightarrow> Inr (Some rx)));
          rewrite = (case ej_Rewrite ej of
                       None \<Rightarrow> \<lparr>wj_Request = None, wj_Response = None\<rparr> | Some w \<Rightarrow> w);
          req = (case wj_Request rewrite of None \<Rightarrow> no_types | Some t \<Rightarrow> t);
          resp = (case wj_Response rewrite of None \<Rightarrow> no_types | Some t \<Rightarrow> t)
      in case u of Inl e \<Rightarrow> Inl e | Inr url \<Rightarrow>
         case compileTypes rxc req of Inl e \<Rightarrow> Inl e | Inr rq \<Rightarrow>
         case compileTypes rxc resp of Inl e \<Rightarrow> Inl e | Inr rs \<Rightarrow>
           Inr \<lparr>en_URL = url, en_UploadSpeed = ej_UploadSpeed ej,
                en_DownloadSpeed = ej_DownloadSpeed ej, en_ResponseDelay = ej_ResponseDelay ej,
                en_Rewrite = \<lparr>wh_Request = rq, wh_Response = rs\<rparr>\<rparr>)"

fun compileEntries :: "rx_compiler \<Rightarrow> EntryJSON list \<Rightarrow> string + RewriteRules" where
  "compileEntries rxc [] = Inr []"
| "compileEntries rxc (j # js) =
     (case compileEntry rxc j of
        Inl e \<Rightarrow> Inl e
      | Inr r \<Rightarrow> (case compileEntries rxc js of Inl e \<Rightarrow> Inl e | Inr rs \<Rightarrow> Inr (r # rs)))"

definition Compile :: "rx_compiler \<Rightarrow> Config \<Rightarrow> string + RewriteRules" where
  "Compile rxc configJSON = compileEntries rxc (cf_Rules configJSON)"

subsection \<open>What the documentation promises\<close>

text \<open>
  The README's rule objects: \<open>replace\<close> alone or with \<open>find\<close>, or exactly one of \<open>prepend\<close>,
  \<open>append\<close> and \<open>delete\<close>, and nothing else.  \<open>rule_means\<close> relates such an object to the
  compiled rule it stands for; \<open>wf_rule\<close> is the shape of a compiled rule.
\<close>

definition legal_choice :: "RuleJSON \<Rightarrow> bool" where
  "legal_choice j \<longleftrightarrow>
     length (filter (\<lambda>f. f \<noteq> None) [rj_Replace j, rj_Prepend j, rj_Append j, rj_Delete j]) = 1 \<and>
     (rj_Find j \<noteq> None \<longrightarrow> rj_Replace j \<noteq> None)"

definition pattern_of :: "RuleJSON \<Rightarrow> string option" where
  "pattern_of j = (if rj_Delete j \<noteq> None then rj_Delete j else rj_Find j)"

definition wf_rule :: "Rule \<Rightarrow> bool" where
  "wf_rule r \<longleftrightarrow>
     length (filter (\<lambda>f. f \<noteq> None) [rule_Replace r, rule_Prepend r, rule_Append r]) = 1 \<and>
     (rule_Find r \<noteq> None \<longrightarrow> rule_Replace r \<noteq> None)"

definition rule_means :: "rx_compiler \<Rightarrow> RuleJSON \<Rightarrow> Rule \<Rightarrow> bool" where
  "rule_means rxc j r \<longleftrightarrow>
     legal_choice j \<and> wf_rule r \<and>
     rule_Prepend r = rj_Prepend j \<and> rule_Append r = rj_Append j \<and>
     rule_Replace r = (if rj_Delete j \<noteq> None then Some [] else rj_Replace j) \<and>
     (case pattern_of j of
        None \<Rightarrow> rule_Find r = None
      | Some p \<Rightarrow> \<exists>rx. rxc p = Inr rx \<and> rule_Find r = Some rx)"

lemma compileRule_iff: "compileRule rxc j = Inr r \<longleftrightarrow> rule_means rxc j r"
  by (cases r; cases "rj_Replace j"; cases "rj_Prepend j"; cases "rj_Append j"; cases "rj_Delete j";
      cases "rj_Find j")
     (auto simp: compileRule_def rule_means_def legal_choice_def wf_rule_def pattern_of_def
        empty_rule_def split: sum.split)

lemma compileRule_Inl:
  "compileRule rxc j = Inl e \<Longrightarrow>
     (\<not> legal_choice j \<and> e = illegal_choice) \<or>
     (legal_choice j \<and> (\<exists>p. pattern_of j = Some p \<and> rxc p = Inl e))"
  by (cases "rj_Replace j"; cases "rj_Prepend j"; cases "rj_Append j"; cases "rj_Delete j";
      cases "rj_Find j")
     (auto simp: compileRule_def legal_choice_def pattern_of_def split: sum.splits)

lemma compileRules_iff: "compileRules rxc js = Inr rs \<longleftrightarrow> list_all2 (rule_means rxc) js rs"
  by (induction rxc js arbitrary: rs rule: compileRules.induct)
     (auto simp: list_all2_Cons1 simp flip: compileRule_iff split: sum.splits)

lemma compileRules_Inl:
  "compileRules rxc js = Inl e \<Longrightarrow>
     \<exists>pre j post. js = pre @ j # post \<and> (\<exists>rs. compileRules rxc pre = Inr rs) \<and>
       compileRule rxc j = Inl e"
proof (induction rxc js rule: compileRules.induct)
  case (2 rxc j js)
  show ?case
  proof (cases "compileRule rxc j")
    case (Inl e')
    with 2 have "j # js = [] @ j # js \<and> (\<exists>rs. compileRules rxc [] = Inr rs) \<and> compileRule rxc j = Inl e"
      by simp
    then show ?thesis by blast
  next
    case (Inr r)
    with 2 obtain pre j' post rs where
      "js = pre @ j' # post" "compileRules rxc pre = Inr rs" "compileRule rxc j' = Inl e"
      by (auto split: sum.splits)
    with Inr have "j # js = (j # pre) @ j' # post \<and> compileRules rxc (j # pre) = Inr (r # rs) \<and>
        compileRule rxc j' = Inl e" by simp
    then show ?thesis by blast
  qed
qed simp

subsection \<open>A whole configuration\<close>

text \<open>What an entry of the configuration means: the speeds as they are, the pattern for the URL or
  \<open>.*\<close>, and each of the eight lists of rules compiled in its order, absent ones empty.\<close>

definition types_mean :: "rx_compiler \<Rightarrow> TypeJSON \<Rightarrow> TypeRules \<Rightarrow> bool" where
  "types_mean rxc t r \<longleftrightarrow>
     list_all2 (rule_means rxc) (tj_URL t) (ty_URL r) \<and>
     list_all2 (rule_means rxc) (tj_Header t) (ty_Header r) \<and>
     list_all2 (rule_means rxc) (tj_Body t) (ty_Body r) \<and>
     list_all2 (rule_means rxc) (tj_Status t) (ty_Status r)"

definition entry_types :: "EntryJSON \<Rightarrow> TypeJSON \<times> TypeJSON" where
  "entry_types ej =
     (case ej_Rewrite ej of
        None \<Rightarrow> (no_types, no_types)
      | Some w \<Rightarrow> (case wj_Request w of None \<Rightarrow> no_types | Some t \<Rightarrow> t,
                   case wj_Response w of None \<Rightarrow> no_types | Some t \<Rightarrow> t))"

definition compiles :: "rx_compiler \<Rightarrow> string \<Rightarrow> bool" where
  "compiles rxc p = (case rxc p of Inl _ \<Rightarrow> False | Inr _ \<Rightarrow> True)"

definition entry_means :: "rx_compiler \<Rightarrow> EntryJSON \<Rightarrow> Entry \<Rightarrow> bool" where
  "entry_means rxc ej e \<longleftrightarrow>
     en_UploadSpeed e = ej_UploadSpeed ej \<and> en_DownloadSpeed e = ej_DownloadSpeed ej \<and>
     en_ResponseDelay e = ej_ResponseDelay ej \<and>
     (case ej_URL ej of
        Some p \<Rightarrow> \<exists>rx. rxc p = Inr rx \<and> en_URL e = Some rx
      | None \<Rightarrow> en_URL e = (case rxc ''.*'' of Inl _ \<Rightarrow> None | Inr rx \<Rightarrow> Some rx)) \<and>
     types_mean rxc (fst (entry_types ej)) (wh_Request (en_Rewrite e)) \<and>
     types_mean rxc (snd (entry_types ej)) (wh_Response (en_Rewrite e))"

definition rule_ok :: "rx_compiler \<Rightarrow> RuleJSON \<Rightarrow> bool" where
  "rule_ok rxc j \<longleftrightarrow> legal_choice j \<and> (case pattern_of j of None \<Rightarrow> True | Some p \<Rightarrow> compiles rxc p)"

definition type_rules :: "TypeJSON \<Rightarrow> RuleJSON list" where
  "type_rules t = tj_URL t @ tj_Header t @ tj_Body t @ tj_Status t"

definition entry_rules :: "EntryJSON \<Rightarrow> RuleJSON list" where
  "entry_rules ej = type_rules (fst (entry_types ej)) @ type_rules (snd (entry_types ej))"

definition entry_ok :: "rx_compiler \<Rightarrow> EntryJSON \<Rightarrow> bool" where
  "entry_ok rxc ej \<longleftrightarrow>
     (case ej_URL ej of None \<Rightarrow> True | Some p \<Rightarrow> compiles rxc p) \<and> list_all (rule_ok rxc) (entry_rules ej)"

lemma compileTypes_iff: "compileTypes rxc t = Inr r \<longleftrightarrow> types_mean rxc t r"
  by (cases r) (auto simp: compileTypes_def types_mean_def simp flip: compileRules_iff split: sum.splits)

lemma compileEntry_alt:
  "compileEntry rxc ej =
     (case (case ej_URL ej of
              Some p \<Rightarrow> (case rxc p of Inl e \<Rightarrow> Inl e | Inr rx \<Rightarrow> Inr (Some rx))
            | None \<Rightarrow> (case rxc ''.*'' of Inl e \<Rightarrow> Inr None | Inr rx \<Rightarrow> Inr (Some rx))) of
        Inl e \<Rightarrow> Inl e | Inr url \<Rightarrow>
      case compileTypes rxc (fst (entry_types ej)) of Inl e \<Rightarrow> Inl e | Inr rq \<Rightarrow>
      case compileTypes rxc (snd (entry_types ej)) of Inl e \<Rightarrow> Inl e | Inr rs \<Rightarrow>
        Inr \<lparr>en_URL = url, en_UploadSpeed = ej_UploadSpeed ej,
             en_DownloadSpeed = ej_DownloadSpeed ej, en_ResponseDelay = ej_ResponseDelay ej,
             en_Rewrite = \<lparr>wh_Request = rq, wh_Response = rs\<rparr>\<rparr>)"
  by (cases "ej_Rewrite ej") (simp_all add: compileEntry_def entry_types_def Let_def cong: sum.case_cong)

lemma compileEntry_iff: "compileEntry rxc ej = Inr e \<longleftrightarrow> entry_means rxc ej e"
proof -
  obtain rq rs where rw: "en_Rewrite e = \<lparr>wh_Request = rq, wh_Response = rs\<rparr>"
    by (cases "en_Rewrite e") auto
  show ?thesis
    by (cases e; cases "ej_URL ej")
       (auto simp: compileEntry_alt entry_means_def rw simp flip: compileTypes_iff split: sum.splits)
qed

lemma compileEntries_iff: "compileEntries rxc js = Inr es \<longleftrightarrow> list_all2 (entry_means rxc) js es"
  by (induction rxc js arbitrary: es rule: compileEntries.induct)
     (auto simp: list_all2_Cons1 simp flip: compileEntry_iff split: sum.splits)

lemma rule_ok_iff: "rule_ok rxc j \<longleftrightarrow> (\<exists>r. compileRule rxc j = Inr r)"
  by (cases "rj_Replace j"; cases "rj_Prepend j"; cases "rj_Append j"; cases "rj_Delete j";
      cases "rj_Find j")
     (auto simp: compileRule_def rule_ok_def legal_choice_def pattern_of_def compiles_def
        split: sum.splits)

lemma compileRules_ok: "(\<exists>rs. compileRules rxc js = Inr rs) \<longleftrightarrow> list_all (rule_ok rxc) js"
  by (induction rxc js rule: compileRules.induct) (auto simp: rule_ok_iff split: sum.splits)

lemma compileTypes_ok: "(\<exists>r. compileTypes rxc t = Inr r) \<longleftrightarrow> list_all (rule_ok rxc) (type_rules t)"
  by (simp add: type_rules_def compileTypes_def flip: compileRules_ok) (auto split: sum.splits)

lemma compileEntry_ok: "(\<exists>e. compileEntry rxc ej = Inr e) \<longleftrightarrow> entry_ok rxc ej"
  by (cases "ej_URL ej")
     (simp add: entry_ok_def entry_rules_def compileEntry_alt compiles_def flip: compileTypes_ok,
      auto split: sum.splits)+

lemma compileEntries_ok: "(\<exists>es. compileEntries rxc js = Inr es) \<longleftrightarrow> list_all (entry_ok rxc) js"
  by (induction rxc js rule: compileEntries.induct) (auto simp flip: compileEntry_ok split: sum.splits)

text \<open>The errors of a configuration: an illegal choice of fields, or a pattern that does not
  compile.\<close>

definition config_error :: "rx_compiler \<Rightarrow> EntryJSON \<Rightarrow> string \<Rightarrow> bool" where
  "config_error rxc ej e \<longleftrightarrow>
     (e = illegal_choice \<and> (\<exists>j \<in> set (entry_rules ej). \<not> legal_choice j)) \<or>
     (\<exists>p. rxc p = Inl e \<and> (ej_URL ej = Some p \<or> (\<exists>j \<in> set (entry_rules ej). pattern_of j = Some p)))"

lemma compileRules_error:
  assumes "compileRules rxc js = Inl e" and "set js \<subseteq> set (entry_rules ej)"
  shows "config_error rxc ej e"
proof -
  from compileRules_Inl [OF assms(1)] obtain j where "j \<in> set js" "compileRule rxc j = Inl e"
    by (metis in_set_conv_decomp)
  with compileRule_Inl [OF this(2)] assms(2) show ?thesis by (auto simp: config_error_def)
qed

lemma compileTypes_error:
  assumes "compileTypes rxc t = Inl e" and "set (type_rules t) \<subseteq> set (entry_rules ej)"
  shows "config_error rxc ej e"
  using assms compileRules_error [of rxc _ e ej]
  by (auto simp: compileTypes_def type_rules_def split: sum.splits)

lemma compileEntry_error:
  assumes "compileEntry rxc ej = Inl e"
  shows "config_error rxc ej e"
proof -
  have "set (type_rules (fst (entry_types ej))) \<subseteq> set (entry_rules ej)"
    "set (type_rules (snd (entry_types ej))) \<subseteq> set (entry_rules ej)"
    by (auto simp: entry_rules_def)
  note types = this [THEN compileTypes_error [rotated]]
  have "config_error rxc ej e" if "ej_URL ej = Some p" "rxc p = Inl e" for p
    using that by (auto simp: config_error_def)
  with assms types show ?thesis
    by (auto simp: compileEntry_alt split: sum.splits option.splits)
qed

lemma compileEntries_Inl:
  "compileEntries rxc js = Inl e \<Longrightarrow>
     \<exists>pre j post. js = pre @ j # post \<and> list_all (entry_ok rxc) pre \<and> compileEntry rxc j = Inl e"
proof (induction rxc js rule: compileEntries.induct)
  case (2 rxc j js)
  show ?case
  proof (cases "compileEntry rxc j")
    case (Inl e')
    with 2 have "j # js = [] @ j # js \<and> list_all (entry_ok rxc) [] \<and> compileEntry rxc j = Inl e" by simp
    then show ?thesis by blast
  next
    case (Inr r)
    with 2 obtain pre j' post where
      "js = pre @ j' # post" "list_all (entry_ok rxc) pre" "compileEntry rxc j' = Inl e"
      by (auto split: sum.splits)
    with Inr have "j # js = (j # pre) @ j' # post \<and> list_all (entry_ok rxc) (j # pre) \<and>
        compileEntry rxc j' = Inl e" by (simp flip: compileEntry_ok)
    then show ?thesis by blast
  qed
qed simp

text \<open>(C13) \<open>Compile\<close> implements the documented meaning of a configuration: it succeeds with exactly
  the entries that agree with the JSON entries one by one, speeds and delay copied, a missing
  URL pattern matching everything, every rule in its place and order, absent parts empty.\<close>

theorem Compile_means:
  "Compile rxc c = Inr es \<longleftrightarrow> list_all2 (entry_means rxc) (cf_Rules c) es"
  by (simp add: Compile_def compileEntries_iff)

text \<open>(C31) \<open>Compile\<close> accepts a configuration exactly when every rule makes a legal choice of fields
  (\<open>replace\<close> with or without \<open>find\<close>, or one of \<open>prepend\<close>, \<open>append\<close>, \<open>delete\<close>) and every
  pattern compiles; what it rejects is the first faulty entry, and the error it returns is that
  entry's: the illegal choice or the text of the pattern's own error.\<close>

theorem Compile_accepts:
  "(case Compile rxc c of
      Inr es \<Rightarrow> list_all (entry_ok rxc) (cf_Rules c)
    | Inl e \<Rightarrow> (\<exists>pre ej post. cf_Rules c = pre @ ej # post \<and> list_all (entry_ok rxc) pre \<and>
                 \<not> entry_ok rxc ej \<and> config_error rxc ej e))"
proof (cases "Compile rxc c")
  case (Inr es)
  then show ?thesis by (simp add: Compile_def flip: compileEntries_ok)
next
  case (Inl e)
  from compileEntries_Inl [of rxc "cf_Rules c" e] Inl obtain pre ej post where
    "cf_Rules c = pre @ ej # post" "list_all (entry_ok rxc) pre" "compileEntry rxc ej = Inl e"
    by (auto simp: Compile_def)
  moreover from this(3) have "\<not> entry_ok rxc ej" by (simp flip: compileEntry_ok)
  ultimately show ?thesis using Inl compileEntry_error [of rxc ej e] by auto
qed

end
