(* ===== verification/ReaderObjects.thy ===== *)
theory ReaderObjects
  imports GoIo
begin

text \<open>
  An \<open>io.Reader\<close> as a value of one type, whatever is behind it: the method table of a Go
  interface with the state hidden.  Code that wraps a reader a number of times that is known
  only at run time, as \<open>AlterBody\<close> does, needs this; the contract of the hidden reader
  carries over to the object.
\<close>

codatatype rdr = Rdr (rdr_read: "nat \<Rightarrow> bytes \<times> goerr option \<times> rdr")

primcorec rdr_of :: "'s read_fn \<Rightarrow> 's \<Rightarrow> rdr" where
  "rdr_read (rdr_of rd s) = (\<lambda>n. map_prod id (map_prod id (rdr_of rd)) (rd s n))"

lemma rdr_read_of:
  "rd s n = (bs, e, s') \<Longrightarrow> rdr_read (rdr_of rd s) n = (bs, e, rdr_of rd s')"
  by simp

text \<open>An object that reads as the bytes \<open>bs\<close> ended by the error \<open>x\<close>.\<close>

definition reads_as :: "rdr \<Rightarrow> bytes \<Rightarrow> goerr \<Rightarrow> bool" where
  "reads_as ob bs x \<longleftrightarrow>
     (\<exists>ok rest fin rank. io_reader rdr_read ok rest fin rank \<and> ok ob \<and> rest ob = bs \<and> fin ob = x)"

context io_reader
begin

text \<open>Two states behind the same object stand for the same bytes and the same error.\<close>

lemma rdr_of_same:
  assumes "ok s" and "ok t" and "rdr_of rd s = rdr_of rd t"
  shows "rest s = rest t \<and> fin s = fin t"
  using assms
proof (induction "rank s" arbitrary: s t rule: less_induct)
  case less
  obtain bs e s' where s: "rd s 1 = (bs, e, s')" by (cases "rd s 1") auto
  obtain cs d t' where t: "rd t 1 = (cs, d, t')" by (cases "rd t 1") auto
  have "(bs, e, rdr_of rd s') = (cs, d, rdr_of rd t')"
    using rdr_read_of [of rd s 1 bs e s', OF s] rdr_read_of [of rd t 1 cs d t', OF t]
    by (simp only: less.prems(3))
  then have eq: "cs = bs" "d = e" "rdr_of rd s' = rdr_of rd t'" by simp_all
  note ss = rd_step [OF less.prems(1) s] and tt = rd_step [OF less.prems(2) t]
  show ?case
  proof (cases e)
    case None
    with ss(5) have "rank s' < rank s" by simp
    from less.hyps [OF this ss(2) tt(2) eq(3)] ss(3,4) tt(3,4) eq(1) show ?thesis by simp
  next
    case (Some x)
    from ss(3) ss(6,7) [OF Some] tt(3) tt(6,7) [OF eq(2) [unfolded Some]] eq(1)
    show ?thesis by simp
  qed
qed

definition rep :: "rdr \<Rightarrow> 's" where
  "rep ob = arg_min rank (\<lambda>s. ok s \<and> rdr_of rd s = ob)"

definition obj_ok :: "rdr \<Rightarrow> bool" where
  "obj_ok ob \<longleftrightarrow> (\<exists>s. ok s \<and> rdr_of rd s = ob)"

lemma rep_of:
  assumes "ok s"
  shows "ok (rep (rdr_of rd s))" "rdr_of rd (rep (rdr_of rd s)) = rdr_of rd s"
    "rank (rep (rdr_of rd s)) \<le> rank s" "rest (rep (rdr_of rd s)) = rest s"
    "fin (rep (rdr_of rd s)) = fin s"
proof -
  have "ok s \<and> rdr_of rd s = rdr_of rd s" using assms by simp
  from arg_min_nat_lemma [where m = rank and P = "\<lambda>t. ok t \<and> rdr_of rd t = rdr_of rd s", OF this]
  show *: "ok (rep (rdr_of rd s))" "rdr_of rd (rep (rdr_of rd s)) = rdr_of rd s"
    "rank (rep (rdr_of rd s)) \<le> rank s"
    using assms by (auto simp: rep_def)
  from rdr_of_same [OF *(1) assms *(2)]
  show "rest (rep (rdr_of rd s)) = rest s" "fin (rep (rdr_of rd s)) = fin s" by simp_all
qed

lemma obj_reader:
  "io_reader rdr_read obj_ok (\<lambda>ob. rest (rep ob)) (\<lambda>ob. fin (rep ob)) (\<lambda>ob. rank (rep ob))"
proof -
  have step: "length bs \<le> n \<and> obj_ok ob' \<and> rest (rep ob) = bs @ rest (rep ob') \<and>
      fin (rep ob') = fin (rep ob) \<and> (e = None \<longrightarrow> 0 < n \<longrightarrow> rank (rep ob') < rank (rep ob)) \<and>
      (\<forall>x. e = Some x \<longrightarrow> x = fin (rep ob) \<and> rest (rep ob') = [])"
    if "obj_ok ob" "rdr_read ob n = (bs, e, ob')" for ob n bs e ob'
  proof -
    from that(1) have ok: "ok (rep ob)" and ob: "rdr_of rd (rep ob) = ob"
      using rep_of by (auto simp: obj_ok_def)
    obtain cs d s' where r: "rd (rep ob) n = (cs, d, s')" by (cases "rd (rep ob) n") auto
    from rdr_read_of [of rd "rep ob" n cs d s', OF r] that(2) have eq: "cs = bs" "d = e" "ob' = rdr_of rd s'"
      by (simp_all add: ob)
    note st = rd_step [OF ok r]
    note rp = rep_of [OF st(2)]
    have "x = fin (rep ob) \<and> rest s' = []" if "e = Some x" for x
      using st(6,7) [of x] that eq(2) by simp
    moreover have "rank (rep ob') < rank (rep ob)" if "e = None" "0 < n"
      using st(5) rp(3) that eq by (simp add: le_less_trans)
    ultimately show ?thesis
      using st(1-4) rp(4,5) by (auto simp: eq obj_ok_def)
  qed
  show ?thesis
  proof
    fix ob n bs e ob' x
    assume ok: "obj_ok ob"
    { assume "rdr_read ob n = (bs, e, ob')"
      from step [OF ok this] show "length bs \<le> n" "obj_ok ob'"
        "rest (rep ob) = bs @ rest (rep ob')" "fin (rep ob') = fin (rep ob)" by blast+ }
    { assume "rdr_read ob n = (bs, None, ob')" and "0 < n"
      with step [OF ok, of n bs None ob'] show "rank (rep ob') < rank (rep ob)" by blast }
    { assume "rdr_read ob n = (bs, Some x, ob')"
      with step [OF ok, of n bs "Some x" ob'] show "x = fin (rep ob) \<and> rest (rep ob') = []"
        by blast }
  qed
qed

lemma rdr_of_reads_as: "ok s \<Longrightarrow> reads_as (rdr_of rd s) (rest s) (fin s)"
  unfolding reads_as_def using obj_reader rep_of by (metis obj_ok_def)

end

lemma reads_asE:
  assumes "reads_as ob bs x"
  obtains ok rest fin rank where "io_reader rdr_read ok rest fin rank" "ok ob" "bs = rest ob" "x = fin ob"
  using assms by (auto simp: reads_as_def)

lemma reads_as_read:
  assumes "reads_as ob bs x" and "rdr_read ob n = (cs, e, ob')"
  shows "\<exists>ds. bs = cs @ ds \<and> length cs \<le> n \<and> reads_as ob' ds x \<and> (\<forall>y. e = Some y \<longrightarrow> y = x \<and> ds = [])"
proof -
  from assms(1) obtain ok rest fin rank where io: "io_reader rdr_read ok rest fin rank"
    and ob: "ok ob" "bs = rest ob" "x = fin ob" by (rule reads_asE)
  note st = io_reader.rd_step [OF io ob(1) assms(2)]
  have "reads_as ob' (rest ob') x"
    unfolding reads_as_def using io st(2,4) ob(3) by metis
  with st(1,3,6,7) ob show ?thesis by blast
qed

lemma reads_as_drain:
  assumes "reads_as ob bs x" and "\<And>i. 0 < sz i"
  shows "\<exists>ob'. drain rdr_read sz 0 [] ob = Some (bs, x, ob')"
proof -
  from assms(1) obtain ok rest fin rank where
    "io_reader rdr_read ok rest fin rank" "ok ob" "rest ob = bs" "fin ob = x"
    by (auto simp: reads_as_def)
  with io_reader.drain_all [of rdr_read ok rest fin rank ob sz 0 "[]"] assms(2) show ?thesis
    by auto
qed

interpretation src_rdr: io_reader rdr_read "io_reader.obj_ok src_read src_ok"
  "\<lambda>ob. src_rest (io_reader.rep src_read src_ok src_rank ob)"
  "\<lambda>ob. src_fin (io_reader.rep src_read src_ok src_rank ob)"
  "\<lambda>ob. src_rank (io_reader.rep src_read src_ok src_rank ob)"
  by (rule src.obj_reader)

subsection \<open>Two readers behind each other\<close>

text \<open>An \<open>io.MultiReader\<close> of a reader of some bytes and an object reads as both together.\<close>

lemma multi_object:
  assumes "io_reader rd (\<lambda>_. True) (\<lambda>s. s) (\<lambda>_. EOF) length" and "reads_as ob bs x"
  shows "reads_as (rdr_of (multi_read rd rdr_read) (MultiReader pre ob)) (pre @ bs) x"
proof -
  from assms(2) obtain ok rest fin rank where io: "io_reader rdr_read ok rest fin rank"
    and ob: "ok ob" "bs = rest ob" "x = fin ob" by (rule reads_asE)
  have pair: "reader_pair rd (\<lambda>_. True) (\<lambda>s. s) (\<lambda>_. EOF) length rdr_read ok rest fin rank"
    by (intro reader_pair.intro assms(1) io)
  have "reader_pair.multi_ok (\<lambda>_. True) ok (MultiReader pre ob)"
    using ob(1) by (simp add: reader_pair.multi_ok_def [OF pair] MultiReader_def)
  from io_reader.rdr_of_reads_as [OF reader_pair.multi_reader [OF pair] this] ob(2,3) show ?thesis
    by (simp add: reader_pair.multi_rest_def [OF pair] reader_pair.multi_fin_def [OF pair]
        MultiReader_def)
qed

lemmas string_then = multi_object [OF strr.io_reader_axioms]
lemmas buffer_then = multi_object [OF bufr.io_reader_axioms]

text \<open>The same for a body as the connection delivers it.\<close>

interpretation buffered: reader_pair buffer_read "\<lambda>_. True" "\<lambda>s. s" "\<lambda>_. EOF" length
  src_read src_ok src_rest src_fin src_rank
  by unfold_locales

subsection \<open>Bodies\<close>

text \<open>
  An \<open>io.ReadCloser\<close> is a reader object and its closer.  A closer is \<open>ioutil.NopCloser\<close>'s, that
  of a resource \<open>'k\<close>, or that of a \<open>doubleCloser\<close>, which runs both and returns the first error;
  \<open>close_all\<close> runs it with the \<open>Close\<close> of the resources.
\<close>

type_synonym 'c body = "rdr \<times> 'c"

datatype 'k closer = NopClose | CloseOf 'k | CloseBoth "'k closer" "'k closer"

fun close_all :: "('k \<Rightarrow> 'w close_fn) \<Rightarrow> 'k closer \<Rightarrow> 'w close_fn" where
  "close_all cl NopClose w = (None, w)"
| "close_all cl (CloseOf k) w = cl k w"
| "close_all cl (CloseBoth a b) w =
     (let (err1, w1) = close_all cl a w; (err2, w2) = close_all cl b w1
      in (if err1 \<noteq> None then err1 else err2, w2))"

fun closes :: "'k closer \<Rightarrow> 'k list" where
  "closes NopClose = []"
| "closes (CloseOf k) = [k]"
| "closes (CloseBoth a b) = closes a @ closes b"

text \<open>Every resource is closed, whatever errors the others return.\<close>

lemma close_all_log:
  "snd (close_all (\<lambda>k w. (err k, w @ [k])) c w) = w @ closes c"
  by (induction c arbitrary: w) (simp_all add: case_prod_beta)

end
