(* ===== verification/HttpMsg.thy ===== *)
theory HttpMsg
  imports HostPort
begin

text \<open>
  The fields of \<open>http.Request\<close> and \<open>http.Response\<close> the program reads or writes, with the
  type of the body as a parameter (\<open>None\<close> is a nil body), \<open>NewResponse\<close> of
  \<open>proxy/proxy.go\<close> and \<open>removeProxyHeaders\<close> of \<open>proxy/helpers.go\<close>.
\<close>

record 'b request =
  rq_Method :: string
  rq_URL :: url
  rq_Proto :: string
  rq_ProtoMajor :: int
  rq_ProtoMinor :: int
  rq_Header :: header
  rq_Body :: "'b option"
  rq_ContentLength :: int
  rq_TransferEncoding :: "string list"
  rq_Close :: bool
  rq_Host :: string
  rq_RemoteAddr :: string
  rq_RequestURI :: string

record 'b response =
  rs_Status :: string
  rs_StatusCode :: int
  rs_ProtoMajor :: int
  rs_ProtoMinor :: int
  rs_Header :: header
  rs_Body :: "'b option"
  rs_ContentLength :: int
  rs_TransferEncoding :: "string list"
  rs_Close :: bool
  rs_Request :: "'b request option"

text \<open>A Go struct literal without fields: every field is zero.\<close>

definition zero_response :: "'b response" where
  "zero_response =
     \<lparr>rs_Status = [], rs_StatusCode = 0, rs_ProtoMajor = 0, rs_ProtoMinor = 0,
      rs_Header = Map.empty, rs_Body = None, rs_ContentLength = 0, rs_TransferEncoding = [],
      rs_Close = False, rs_Request = None\<rparr>"

definition NewResponse :: "'b request \<Rightarrow> 'b response" where
  "NewResponse req = zero_response
     \<lparr>rs_Request := Some req,
      rs_TransferEncoding := rq_TransferEncoding req,
      rs_ProtoMajor := rq_ProtoMajor req,
      rs_ProtoMinor := rq_ProtoMinor req,
      rs_Header := Map.empty,
      rs_StatusCode := 200\<rparr>"

definition removeProxyHeaders :: "'b request \<Rightarrow> 'b request" where
  "removeProxyHeaders r =
     (let r = r\<lparr>rq_RequestURI := []\<rparr>;
          r = r\<lparr>rq_Header := hdr_Del (rq_Header r) ''Accept-Encoding''\<rparr>;
          r = r\<lparr>rq_Header := hdr_Del (rq_Header r) ''Proxy-Connection''\<rparr>;
          r = r\<lparr>rq_Header := hdr_Del (rq_Header r) ''Proxy-Authenticate''\<rparr>;
          r = r\<lparr>rq_Header := hdr_Del (rq_Header r) ''Proxy-Authorization''\<rparr>
      in r\<lparr>rq_Header := hdr_Del (rq_Header r) ''Connection''\<rparr>)"

text \<open>The names above are canonical, so each of them names the key it deletes.\<close>

lemmas canon_eval = CanonicalHeaderKey_def token_byte_def to_upper_def to_lower_def
  lower_letters_def upper_letters_def Let_def

lemma canon_names [simp]:
  "CanonicalHeaderKey ''Accept-Encoding'' = ''Accept-Encoding''"
  "CanonicalHeaderKey ''Proxy-Connection'' = ''Proxy-Connection''"
  "CanonicalHeaderKey ''Proxy-Authenticate'' = ''Proxy-Authenticate''"
  "CanonicalHeaderKey ''Proxy-Authorization'' = ''Proxy-Authorization''"
  "CanonicalHeaderKey ''Connection'' = ''Connection''"
  "CanonicalHeaderKey ''Content-Length'' = ''Content-Length''"
  "CanonicalHeaderKey ''Transfer-Encoding'' = ''Transfer-Encoding''"
  "CanonicalHeaderKey ''Content-Encoding'' = ''Content-Encoding''"
  "CanonicalHeaderKey ''Content-Type'' = ''Content-Type''"
  "CanonicalHeaderKey ''Remote-Address'' = ''Remote-Address''"
  by code_simp+

definition hop_headers :: "string list" where
  "hop_headers = [''Accept-Encoding'', ''Proxy-Connection'', ''Proxy-Authenticate'',
     ''Proxy-Authorization'', ''Connection'']"

text \<open>A proxied request carries none of the headers meant for the proxy itself, whatever case
  the client wrote them in, and every other header is untouched.\<close>

theorem removeProxyHeaders_spec:
  "hdr_values (rq_Header (removeProxyHeaders r)) k =
     (if CanonicalHeaderKey k \<in> set hop_headers then [] else hdr_values (rq_Header r) k) \<and>
   rq_RequestURI (removeProxyHeaders r) = []"
  by (auto simp: removeProxyHeaders_def hop_headers_def hdr_values_Del)

end
