(* ===== verification/RewriteLogic.thy ===== *)
theory RewriteLogic
  imports RegexStream ReaderObjects PrxConfig HttpMsg
begin

text \<open>
  \<open>rewriteLogic/rewriteLogic.go\<close>: what the compiled rules do to the URL, the status line, the
  headers and the body of a message.  The log lines are left out.
\<close>

subsection \<open>One rule\<close>

definition applyRule :: "string \<Rightarrow> Rule \<Rightarrow> string" where
  "applyRule input rule =
     (case (rule_Find rule, rule_Replace rule, rule_Prepend rule, rule_Append rule) of
        (Some rx, Some repl, _, _) \<Rightarrow> ReplaceAll rx input repl
      | (None, Some repl, _, _) \<Rightarrow> repl
      | (_, None, Some pre, _) \<Rightarrow> pre @ input
      | (_, None, None, Some app) \<Rightarrow> input @ app
      | (_, None, None, None) \<Rightarrow> input)"

text \<open>On a body, the rule wraps the reader.  The branch for \<open>Append\<close> dereferences
  \<open>Prepend\<close>, which is nil there.\<close>

definition applyStreamRule :: "rdr \<Rightarrow> nat \<Rightarrow> Rule \<Rightarrow> rdr outcome" where
  "applyStreamRule input bufferSize rule =
     (case (rule_Find rule, rule_Replace rule, rule_Prepend rule, rule_Append rule) of
        (Some rx, Some repl, _, _) \<Rightarrow>
          Ret (rdr_of (rr_read_fn rdr_read) (RegexReader input bufferSize rx repl))
      | (None, Some repl, _, _) \<Rightarrow> Ret (rdr_of string_read repl)
      | (_, None, Some pre, _) \<Rightarrow>
          Ret (rdr_of (multi_read string_read rdr_read) (MultiReader pre input))
      | (_, None, None, Some app) \<Rightarrow>
          (case rule_Prepend rule of
             None \<Rightarrow> Panic ''invalid memory address or nil pointer dereference''
           | Some pre \<Rightarrow> Ret (rdr_of (multi_read rdr_read string_read) (MultiReader input pre)))
      | (_, None, None, None) \<Rightarrow> Ret input)"

lemma applyRule_wf:
  assumes "wf_rule rule"
  shows "applyRule input rule =
    (case rule_Replace rule of
       Some repl \<Rightarrow> (case rule_Find rule of Some rx \<Rightarrow> ReplaceAll rx input repl | None \<Rightarrow> repl)
     | None \<Rightarrow> (case rule_Prepend rule of
                  Some pre \<Rightarrow> pre @ input | None \<Rightarrow> input @ the (rule_Append rule)))"
  using assms by (auto simp: applyRule_def wf_rule_def split: option.splits if_splits)

lemma applyRule_append:
  "applyRule input \<lparr>rule_Prepend = None, rule_Find = None, rule_Replace = None,
     rule_Append = Some app\<rparr> = input @ app"
  by (simp add: applyRule_def)

subsection \<open>The URL\<close>

text \<open>\<open>URL.String\<close> and \<open>url.Parse\<close> are arguments; the result is the error and what the URL
  pointer holds afterwards.\<close>

definition AlterURL ::
  "(url \<Rightarrow> string) \<Rightarrow> (string \<Rightarrow> string + url) \<Rightarrow> url \<Rightarrow> Rule list \<Rightarrow> string option \<times> url" where
  "AlterURL urlString urlParse u URLRules =
     (let urlStr = foldl applyRule (urlString u) URLRules
      in case urlParse urlStr of Inl err \<Rightarrow> (Some err, u) | Inr newURL \<Rightarrow> (None, newURL))"

subsection \<open>The status line\<close>

definition AlterStatus :: "'b response \<Rightarrow> Rule list \<Rightarrow> 'b response" where
  "AlterStatus response statusRules =
     (let statusStr = foldl applyRule (rs_Status response) statusRules;
          s = split_on CHR '' '' statusStr
      in case Atoi (s ! 0) of
           None \<Rightarrow> response
         | Some code \<Rightarrow> response\<lparr>rs_Status := statusStr, rs_StatusCode := code\<rparr>)"

definition status_code_of :: "string \<Rightarrow> int option" where
  "status_code_of st = Atoi (takeWhile (\<lambda>c. c \<noteq> CHR '' '') st)"

subsection \<open>The headers\<close>

definition headerGetKeyValue :: "string \<Rightarrow> string \<times> string" where
  "headerGetKeyValue headerStr =
     (let s = splitn2 CHR '':'' headerStr
      in (if 1 \<le> length s then s ! 0 else [], if 2 \<le> length s then TrimSpace (s ! 1) else []))"

text \<open>A Go map is walked in any order: \<open>ks\<close> lists the keys in the order of this walk.\<close>

definition header_line :: "string \<Rightarrow> string \<Rightarrow> string \<Rightarrow> string" where
  "header_line k str v = (if str \<noteq> [] then str @ [CHR 0x0A] else str) @ k @ '': '' @ v"

definition headerToString :: "string list \<Rightarrow> header \<Rightarrow> string" where
  "headerToString ks hdr =
     CHR 0x0A # foldl (\<lambda>str k. foldl (header_line k) str (case hdr k of None \<Rightarrow> [] | Some vv \<Rightarrow> vv)) [] ks
       @ [CHR 0x0A]"

definition add_line :: "header \<Rightarrow> string \<Rightarrow> header" where
  "add_line hdr line =
     (let (k, v) = headerGetKeyValue line in if k \<noteq> [] \<or> v \<noteq> [] then hdr_Add hdr k v else hdr)"

definition stringToHeader :: "string \<Rightarrow> header" where
  "stringToHeader str = foldl add_line Map.empty (split_on CHR 0x0A str)"

definition AlterHeader :: "string list \<Rightarrow> header \<Rightarrow> Rule list \<Rightarrow> header" where
  "AlterHeader ks hdr headerRules =
     (if headerRules = [] then hdr
      else
        let headerStr = foldl applyRule (headerToString ks hdr) headerRules;
            headerStr = (if length headerStr < 1 \<or> headerStr ! 0 \<noteq> CHR 0x0A
                         then CHR 0x0A # headerStr else headerStr);
            headerStr = (if length headerStr < 2 \<or> headerStr ! (length headerStr - 1) \<noteq> CHR 0x0A
                         then headerStr @ [CHR 0x0A] else headerStr)
        in stringToHeader headerStr)"

subsection \<open>The body\<close>

record 'c readCloser =
  rc_data :: rdr
  rc_dataCloser :: 'c

definition rc_Read :: "'c readCloser read_fn" where
  "rc_Read r n = (let (bs, e, d) = rdr_read (rc_data r) n in (bs, e, r\<lparr>rc_data := d\<rparr>))"

definition rc_Close :: "'c close_fn \<Rightarrow> 'c readCloser close_fn" where
  "rc_Close cl r = (let (e, c) = cl (rc_dataCloser r) in (e, r\<lparr>rc_dataCloser := c\<rparr>))"

fun applyStreamRules :: "rdr \<Rightarrow> nat \<Rightarrow> Rule list \<Rightarrow> rdr outcome" where
  "applyStreamRules reader bufferSize [] = Ret reader"
| "applyStreamRules reader bufferSize (rule # rules) =
     bind_outcome (applyStreamRule reader bufferSize rule)
       (\<lambda>reader'. applyStreamRules reader' bufferSize rules)"

definition AlterBody :: "'c body \<Rightarrow> nat \<Rightarrow> Rule list \<Rightarrow> 'c body outcome" where
  "AlterBody r bufferSize rules =
     (if rules = [] then Ret r
      else bind_outcome (applyStreamRules (fst r) bufferSize rules)
             (\<lambda>reader. let rc = \<lparr>rc_data = reader, rc_dataCloser = snd r\<rparr>
                in Ret (rdr_of rc_Read rc, rc_dataCloser rc)))"

subsection \<open>Header text\<close>

text \<open>The lines of a header, in the order of the walk, and the headers the text form can carry:
  canonical keys without colon or newline, trimmed values without newline.\<close>

definition field_line :: "string \<Rightarrow> string \<Rightarrow> string" where
  "field_line k v = k @ '': '' @ v"

definition header_lines :: "string list \<Rightarrow> header \<Rightarrow> string list" where
  "header_lines ks hdr = concat (map (\<lambda>k. map (\<lambda>v. field_line k v) (case hdr k of None \<Rightarrow> [] | Some vs \<Rightarrow> vs)) ks)"

definition header_field :: "string \<Rightarrow> string \<Rightarrow> bool" where
  "header_field k v \<longleftrightarrow> k \<noteq> [] \<and> CHR '':'' \<notin> set k \<and> CHR 0x0A \<notin> set k \<and>
     CHR 0x0A \<notin> set v \<and> TrimSpace v = v"

definition wf_header :: "header \<Rightarrow> bool" where
  "wf_header hdr \<longleftrightarrow> (\<forall>k vs. hdr k = Some vs \<longrightarrow>
     vs \<noteq> [] \<and> CanonicalHeaderKey k = k \<and> list_all (header_field k) vs)"

lemma field_line_nonempty [simp]: "field_line k v \<noteq> []" "[] \<noteq> field_line k v"
  by (auto simp: field_line_def)

lemma field_line_eq: "k @ CHR '':'' # CHR '' '' # v = field_line k v"
  by (simp add: field_line_def)

lemma header_line_field:
  "header_line k str v = (if str \<noteq> [] then str @ [CHR 0x0A] else str) @ field_line k v"
  by (simp add: header_line_def field_line_def)

lemma split_on_mid: "split_on c (s @ c # t) = split_on c s @ split_on c t"
  by (induction s) (auto split: list.splits)

lemma foldl_header_line:
  "foldl (header_line k) str vs =
     (if str = [] then join_on CHR 0x0A (map (\<lambda>v. field_line k v) vs)
      else str @ concat (map (\<lambda>v. CHR 0x0A # field_line k v) vs))"
proof (induction vs arbitrary: str)
  case (Cons v vs)
  have "join_on c (x # xs) = x @ concat (map (\<lambda>y. c # y) xs)" for c x and xs :: "string list"
    by (induction xs arbitrary: x) auto
  with Cons show ?case by (simp add: header_line_field o_def)
qed simp

lemma join_on_append:
  "join_on c (xs @ ys) =
     (if xs = [] then join_on c ys else if ys = [] then join_on c xs
      else join_on c xs @ c # join_on c ys)"
  by (induction c xs rule: join_on.induct) (auto simp: neq_Nil_conv)

lemma join_on_Nil_iff: "join_on c xs = [] \<longleftrightarrow> xs = [] \<or> xs = [[]]"
  by (induction c xs rule: join_on.induct) auto

lemma foldl_headers:
  "foldl (\<lambda>str k. foldl (header_line k) str (f k)) str ks =
     (let ls = concat (map (\<lambda>k. map (\<lambda>v. field_line k v) (f k)) ks)
      in if str = [] then join_on CHR 0x0A ls
         else str @ concat (map (\<lambda>l. CHR 0x0A # l) ls))"
proof (induction ks arbitrary: str)
  case (Cons k ks)
  have "join_on c (x # xs) = x @ concat (map (\<lambda>y. c # y) xs)" for c x and xs :: "string list"
    by (induction xs arbitrary: x) auto
  then have "join_on CHR 0x0A (map (\<lambda>v. field_line k v) vs @ ls) =
      (if vs = [] then join_on CHR 0x0A ls
       else join_on CHR 0x0A (map (\<lambda>v. field_line k v) vs) @ concat (map (\<lambda>y. CHR 0x0A # y) ls))"
    for vs ls by (cases vs) simp_all
  with Cons show ?case
    by (simp add: foldl_header_line Let_def join_on_Nil_iff Cons_eq_map_conv map_eq_Cons_conv o_def)
qed simp

lemma headerToString_lines:
  "headerToString ks hdr = CHR 0x0A # join_on CHR 0x0A (header_lines ks hdr) @ [CHR 0x0A]"
  by (simp add: headerToString_def foldl_headers header_lines_def)

lemma headerGetKeyValue_field:
  "header_field k v \<Longrightarrow> headerGetKeyValue (field_line k v) = (k, v)"
  by (simp add: headerGetKeyValue_def header_field_def field_line_def splitn2_append)

lemma add_line_Nil [simp]: "add_line hdr [] = hdr"
  by (simp add: add_line_def headerGetKeyValue_def splitn2_def)

lemma add_line_field: "header_field k v \<Longrightarrow> add_line hdr (field_line k v) = hdr_Add hdr k v"
  by (simp add: add_line_def headerGetKeyValue_field header_field_def)

lemma stringToHeader_newlines [simp]:
  "stringToHeader (CHR 0x0A # s) = stringToHeader s"
  "stringToHeader (s @ [CHR 0x0A]) = stringToHeader s"
  by (simp_all add: stringToHeader_def split_on_mid)

text \<open>So the newlines \<open>AlterHeader\<close> adds at both ends change nothing.\<close>

lemma AlterHeader_rules:
  "AlterHeader ks hdr rules =
     (if rules = [] then hdr else stringToHeader (foldl applyRule (headerToString ks hdr) rules))"
  by (simp add: AlterHeader_def Let_def)

lemma add_values:
  assumes "CanonicalHeaderKey k = k" and "list_all (header_field k) vs"
  shows "foldl add_line hdr (map (\<lambda>v. field_line k v) vs) =
    (if vs = [] then hdr else hdr(k \<mapsto> hdr_values hdr k @ vs))"
  using assms(2)
proof (induction vs arbitrary: hdr)
  case (Cons v vs)
  then show ?case
    by (auto simp: add_line_field hdr_Add_def hdr_values_def assms(1) simp flip: append_Cons)
qed simp

lemma add_headers:
  assumes "wf_header hdr" and "distinct ks" and "\<forall>k \<in> set ks. acc k = None"
  shows "foldl add_line acc (header_lines ks hdr) =
    (\<lambda>k. if k \<in> set ks \<and> hdr k \<noteq> None then hdr k else acc k)"
  using assms(2,3)
proof (induction ks arbitrary: acc)
  case (Cons k ks)
  show ?case
  proof (cases "hdr k")
    case None
    with Cons show ?thesis by (auto simp: header_lines_def fun_eq_iff)
  next
    case (Some vs)
    with assms(1) have vs: "vs \<noteq> []" "CanonicalHeaderKey k = k" "list_all (header_field k) vs"
      by (auto simp: wf_header_def)
    from Cons.prems Some vs have
      "foldl add_line acc (map (\<lambda>v. field_line k v) vs) = acc(k \<mapsto> vs)"
      by (simp add: add_values hdr_values_def)
    moreover have "header_lines (k # ks) hdr = map (\<lambda>v. field_line k v) vs @ header_lines ks hdr"
      using Some by (simp add: header_lines_def)
    ultimately have "foldl add_line acc (header_lines (k # ks) hdr) =
        foldl add_line (acc(k \<mapsto> vs)) (header_lines ks hdr)" by simp
    also have "\<dots> = (\<lambda>j. if j \<in> set ks \<and> hdr j \<noteq> None then hdr j else (acc(k \<mapsto> vs)) j)"
      using Cons.prems by (intro Cons.IH) auto
    finally show ?thesis using Cons.prems Some by (auto intro!: ext)
  qed
qed (simp add: header_lines_def)

lemma header_lines_plain:
  assumes "wf_header hdr" and "l \<in> set (header_lines ks hdr)"
  shows "CHR 0x0A \<notin> set l"
proof -
  from assms(2) obtain k vs v where "hdr k = Some vs" "v \<in> set vs" and l: "l = field_line k v"
    by (auto simp: header_lines_def split: option.splits) metis
  with assms(1) have "header_field k v" by (auto simp: wf_header_def list_all_iff)
  then show ?thesis by (simp add: l field_line_def header_field_def)
qed

lemma stringToHeader_lines:
  assumes "wf_header hdr"
  shows "stringToHeader (join_on CHR 0x0A (header_lines ks hdr)) =
    foldl add_line Map.empty (header_lines ks hdr)"
  using assms header_lines_plain [OF assms, of _ ks]
  by (cases "header_lines ks hdr = []") (simp_all add: stringToHeader_def split_join_on)

subsection \<open>Bodies\<close>

text \<open>The rules whose streaming form is exact: a replacement of the whole body, a prefix, and a
  search and replace that commutes with cutting and never lengthens.\<close>

definition streamable :: "Rule \<Rightarrow> bool" where
  "streamable rule \<longleftrightarrow> wf_rule rule \<and> rule_Append rule = None \<and>
     (case (rule_Find rule, rule_Replace rule) of
        (Some rx, Some repl) \<Rightarrow>
          shrinking (\<lambda>x. ReplaceAll rx x repl) \<and> local_rewrite (\<lambda>x. ReplaceAll rx x repl)
      | _ \<Rightarrow> True)"

definition replaces_body :: "Rule \<Rightarrow> bool" where
  "replaces_body rule \<longleftrightarrow> rule_Find rule = None \<and> rule_Replace rule \<noteq> None"

context io_reader
begin

lemma rr_object:
  assumes "ok s" and "0 < B"
    and "shrinking (\<lambda>x. ReplaceAll rx x repl)" and "local_rewrite (\<lambda>x. ReplaceAll rx x repl)"
  shows "reads_as (rdr_of (rr_read_fn rd) (RegexReader s B rx repl)) (ReplaceAll rx (rest s) repl) (fin s)"
proof -
  let ?r = "RegexReader s B rx repl"
  have mild: "fc_mild (rr_chunkReader ?r)"
    using assms by (simp add: fc_mild_def fc_wf_def)
  then have good: "rr_good ?r" by (simp add: rr_good_def fc_mild_good)
  from fc_stream_window [OF mild] obtain blocks lb where
    "fc_stream rd (rr_chunkReader ?r) =
      Some (window_out (\<lambda>x. ReplaceAll rx x repl) [] blocks lb, fin s)"
    "concat blocks @ lb = rest s"
    by (auto simp: fc_kept_def)
  then have "rr_rest_of rd ?r = ReplaceAll rx (rest s) repl" "rr_fin_of fin ?r = fin s"
    by (simp_all add: rr_rest_of_def rr_fin_of_def window_out_local [OF assms(4)])
  with io_reader.rdr_of_reads_as [OF rr_reader good] show ?thesis by simp
qed

end

lemma readCloser_reads:
  assumes "reads_as ob bs x"
  shows "reads_as (rdr_of rc_Read \<lparr>rc_data = ob, rc_dataCloser = c\<rparr>) bs x"
proof -
  from assms obtain ok rest fin rank where io: "io_reader rdr_read ok rest fin rank"
    and ob: "ok ob" "bs = rest ob" "x = fin ob" by (rule reads_asE)
  have "io_reader rc_Read (\<lambda>w. ok (rc_data w)) (\<lambda>w. rest (rc_data w)) (\<lambda>w. fin (rc_data w))
      (\<lambda>w. rank (rc_data w))"
    by (rule io_reader.wrapped_reader [OF io]) (auto simp: rc_Read_def split: prod.splits)
  from io_reader.rdr_of_reads_as [OF this, of "\<lparr>rc_data = ob, rc_dataCloser = c\<rparr>"] ob
  show ?thesis by simp
qed

lemma applyStreamRule_reads:
  assumes "reads_as ob bs x" and "0 < B" and "streamable rule"
  shows "\<exists>ob'. applyStreamRule ob B rule = Ret ob' \<and>
    reads_as ob' (applyRule bs rule) (if replaces_body rule then EOF else x)"
proof -
  from assms(1) obtain ok rest fin rank where io: "io_reader rdr_read ok rest fin rank"
    and ob: "ok ob" "bs = rest ob" "x = fin ob" by (rule reads_asE)
  note sr = assms(3) [unfolded streamable_def wf_rule_def]
  show ?thesis
  proof (cases "rule_Replace rule")
    case None
    with sr obtain pre where "rule_Prepend rule = Some pre" "rule_Find rule = None"
      by (auto split: if_splits)
    with None string_then [OF assms(1), of pre] show ?thesis
      by (simp add: applyStreamRule_def applyRule_def replaces_body_def)
  next
    case (Some repl)
    show ?thesis
    proof (cases "rule_Find rule")
      case None
      with Some strr.rdr_of_reads_as [of repl] show ?thesis
        by (simp add: applyStreamRule_def applyRule_def replaces_body_def)
    next
      case find: (Some rx)
      with Some sr have "shrinking (\<lambda>x. ReplaceAll rx x repl)" "local_rewrite (\<lambda>x. ReplaceAll rx x repl)"
        by simp_all
      from io_reader.rr_object [OF io ob(1) assms(2) this] Some find ob show ?thesis
        by (simp add: applyStreamRule_def applyRule_def replaces_body_def)
    qed
  qed
qed

lemma applyStreamRules_reads:
  assumes "reads_as ob bs x" and "0 < B" and "\<forall>rule \<in> set rules. streamable rule"
  shows "\<exists>ob'. applyStreamRules ob B rules = Ret ob' \<and>
    reads_as ob' (foldl applyRule bs rules) (if \<exists>rule \<in> set rules. replaces_body rule then EOF else x)"
  using assms
proof (induction rules arbitrary: ob bs x)
  case (Cons rule rules)
  then obtain ob1 where ob1: "applyStreamRule ob B rule = Ret ob1"
    "reads_as ob1 (applyRule bs rule) (if replaces_body rule then EOF else x)"
    using applyStreamRule_reads by (metis list.set_intros(1))
  from Cons.IH [OF ob1(2)] Cons.prems ob1(1) show ?case by (auto split: if_splits)
qed simp

lemma applyStreamRule_panics:
  assumes "wf_rule rule"
  shows "(\<exists>m. applyStreamRule ob B rule = Panic m) \<longleftrightarrow> rule_Append rule \<noteq> None"
  using assms by (auto simp: wf_rule_def applyStreamRule_def split: option.splits if_splits)

lemma applyStreamRules_panics:
  assumes "\<forall>rule \<in> set rules. wf_rule rule"
  shows "(\<exists>m. applyStreamRules ob B rules = Panic m) \<longleftrightarrow> (\<exists>rule \<in> set rules. rule_Append rule \<noteq> None)"
  using assms
proof (induction rules arbitrary: ob)
  case (Cons rule rules)
  from Cons.prems applyStreamRule_panics [of rule ob B] Cons.IH show ?case
    by (cases "applyStreamRule ob B rule") auto
qed simp

lemma AlterBody_reads:
  assumes "reads_as (fst r) bs x" and "0 < B" and "\<forall>rule \<in> set rules. streamable rule"
  shows "\<exists>ob'. AlterBody r B rules = Ret (ob', snd r) \<and>
    reads_as ob' (foldl applyRule bs rules) (if \<exists>rule \<in> set rules. replaces_body rule then EOF else x)"
proof (cases "rules = []")
  case True
  with assms(1) show ?thesis by (cases r) (simp add: AlterBody_def)
next
  case False
  from applyStreamRules_reads [OF assms] obtain ob' where
    "applyStreamRules (fst r) B rules = Ret ob'"
    "reads_as ob' (foldl applyRule bs rules) (if \<exists>rule \<in> set rules. replaces_body rule then EOF else x)"
    by blast
  with False readCloser_reads [OF this(2), of "snd r"] show ?thesis by (simp add: AlterBody_def)
qed

lemma AlterBody_panics:
  "(\<exists>m. AlterBody r B rules = Panic m) \<longleftrightarrow> (\<exists>m. applyStreamRules (fst r) B rules = Panic m)"
  by (cases "applyStreamRules (fst r) B rules") (auto simp: AlterBody_def)

lemma stringToHeader_text:
  assumes "wf_header hdr" and "distinct ks" and "set ks = dom hdr"
  shows "foldl add_line Map.empty (split_on CHR 0x0A (join_on CHR 0x0A (header_lines ks hdr))) = hdr"
    (is ?text) and "stringToHeader (headerToString ks hdr) = hdr"
proof -
  have "(\<lambda>k. if k \<in> set ks \<and> hdr k \<noteq> None then hdr k else None) = hdr"
    using assms(3) by (auto simp: fun_eq_iff)
  with stringToHeader_lines [OF assms(1), of ks] add_headers [OF assms(1,2), of Map.empty]
  show ?text by (simp add: stringToHeader_def)
  then show "stringToHeader (headerToString ks hdr) = hdr"
    by (simp add: headerToString_lines) (simp add: stringToHeader_def)
qed

subsection \<open>Properties\<close>

text \<open>(C11) What the configured body rules do to a body that is streamed equals what they do to the body
  as one string: for every list of rules that replace the body, prefix it or search and replace
  in a way that commutes with cutting and never lengthens, for every way the body arrives and
  is read, and every buffer size.  Reading ends, with the body's own final error unless some
  rule replaced the body.\<close>

theorem AlterBody_stream:
  assumes "\<not> src_closed s" and "0 < B" and "\<And>i. 0 < sz i"
    and "\<forall>rule \<in> set rules. streamable rule"
  shows "\<exists>ob s'. AlterBody (rdr_of src_read s, c) B rules = Ret (ob, c) \<and>
    drain rdr_read sz 0 [] ob =
      Some (foldl applyRule (src_rest s) rules,
            (if \<exists>rule \<in> set rules. replaces_body rule then EOF else src_fin s), s')"
proof -
  have "reads_as (rdr_of src_read s) (src_rest s) (src_fin s)"
    using src.rdr_of_reads_as assms(1) by (simp add: src_ok_def)
  with AlterBody_reads [of "(rdr_of src_read s, c)", OF _ assms(2,4)]
  obtain ob where ob: "AlterBody (rdr_of src_read s, c) B rules = Ret (ob, c)"
    "reads_as ob (foldl applyRule (src_rest s) rules)
       (if \<exists>rule \<in> set rules. replaces_body rule then EOF else src_fin s)"
    by (metis fst_conv snd_conv)
  from reads_as_drain [OF ob(2) assms(3)] obtain s' where
    "drain rdr_read sz 0 [] ob = Some (foldl applyRule (src_rest s) rules,
       (if \<exists>rule \<in> set rules. replaces_body rule then EOF else src_fin s), s')" ..
  with ob(1) show ?thesis by (intro exI conjI)
qed

definition byte_rule :: "char \<Rightarrow> string \<Rightarrow> Rule" where
  "byte_rule c repl = empty_rule\<lparr>rule_Find := Some (class_regexp [c] (\<lambda>d. d = c)), rule_Replace := Some repl\<rparr>"

theorem AlterBody_stream_witness:
  "\<exists>ob s'. AlterBody (rdr_of src_read (body_of ''a1b2''), ()) 2
      [empty_rule\<lparr>rule_Prepend := Some ''<2>''\<rparr>, byte_rule CHR ''2'' []] = Ret (ob, ()) \<and>
    drain rdr_read (\<lambda>_. 3) 0 [] ob = Some (''<>a1b'', EOF, s')"
proof -
  have R: "(\<lambda>x. ReplaceAll (class_regexp ''2'' (\<lambda>d. d = CHR ''2'')) x []) = map_class (\<lambda>c. c = CHR ''2'') []"
    by (rule ext) (simp add: ReplaceAll_byte)
  have "streamable (byte_rule CHR ''2'' [])" "streamable (empty_rule\<lparr>rule_Prepend := Some ''<2>''\<rparr>)"
    by (simp_all add: streamable_def byte_rule_def wf_rule_def empty_rule_def R map_class_local
        map_class_shrinking)
  with AlterBody_stream [of "body_of ''a1b2''" 2 "\<lambda>_. 3"
      "[empty_rule\<lparr>rule_Prepend := Some ''<2>''\<rparr>, byte_rule CHR ''2'' []]" "()"]
  show ?thesis
    by (simp add: replaces_body_def byte_rule_def empty_rule_def applyRule_def src_rest_def
        src_fin_def ReplaceAll_byte map_class_def)
qed

text \<open>A configuration the proxy accepts crashes it on the first matching body exactly when it has
  an \<open>append\<close> rule for bodies: \<open>applyStreamRule\<close> dereferences the rule's \<open>Prepend\<close> there,
  which \<open>compileRules\<close> has left nil.  No other accepted rule panics when it is applied.\<close>

theorem AlterBody_append_panics:
  assumes "compileRules rxc js = Inr rules"
  shows "(\<exists>m. AlterBody r B rules = Panic m) \<longleftrightarrow> (\<exists>j \<in> set js. rj_Append j \<noteq> None)"
proof -
  from assms have means: "list_all2 (rule_means rxc) js rules" by (simp add: compileRules_iff)
  then have "\<forall>rule \<in> set rules. wf_rule rule"
    by (auto simp: list_all2_conv_all_nth rule_means_def in_set_conv_nth)
  from applyStreamRules_panics [OF this] AlterBody_panics
  have "(\<exists>m. AlterBody r B rules = Panic m) \<longleftrightarrow> (\<exists>rule \<in> set rules. rule_Append rule \<noteq> None)"
    by blast
  also have "\<dots> \<longleftrightarrow> (\<exists>j \<in> set js. rj_Append j \<noteq> None)"
    using means by (induction rule: list_all2_induct) (auto simp: rule_means_def)
  finally show ?thesis .
qed

definition append_json :: "string \<Rightarrow> RuleJSON" where
  "append_json a = \<lparr>rj_Find = None, rj_Replace = None, rj_Append = Some a, rj_Prepend = None, rj_Delete = None\<rparr>"

theorem AlterBody_append_panics_witness:
  "\<exists>m. AlterBody (rdr_of src_read (body_of ''page''), ()) 8
     [empty_rule\<lparr>rule_Append := Some ''<!-- seen -->''\<rparr>] = Panic m"
  using AlterBody_append_panics [of "\<lambda>_. Inl []" "[append_json ''<!-- seen -->'']"
      "[empty_rule\<lparr>rule_Append := Some ''<!-- seen -->''\<rparr>]" "(rdr_of src_read (body_of ''page''), ())" 8]
  by (simp add: append_json_def compileRule_def empty_rule_def)

text \<open>(C33) The text form of the headers loses nothing: written out in any order of the keys and parsed
  back it is the same header, for all canonical keys and trimmed one-line values.\<close>

theorem stringToHeader_headerToString:
  assumes "wf_header hdr" and "distinct ks" and "set ks = dom hdr"
  shows "stringToHeader (headerToString ks hdr) = hdr"
  using assms by (rule stringToHeader_text(2))

definition sample_header :: header where
  "sample_header = [''Host'' \<mapsto> [''a.b''], ''X-Y'' \<mapsto> [''1: 2'', ''3'']]"

lemma TrimSpace_sample:
  "TrimSpace ''a.b'' = ''a.b''" "TrimSpace ''1: 2'' = ''1: 2''" "TrimSpace ''3'' = ''3''"
  "TrimSpace ''v'' = ''v''"
  by (simp_all add: TrimSpace_def strip.simps leading_def space_runes_def)

lemma sample_header_wf: "wf_header sample_header" "dom sample_header = {''X-Y'', ''Host''}"
  by (auto simp: wf_header_def sample_header_def header_field_def TrimSpace_sample canon_eval
      split: if_splits)

theorem stringToHeader_headerToString_witness:
  "stringToHeader (headerToString [''X-Y'', ''Host''] sample_header) = sample_header"
  by (rule stringToHeader_headerToString) (simp_all add: sample_header_wf)

text \<open>A header rule that appends the text of a field adds exactly that field, and leaves every
  other field and the order of the values alone; the key may be written in any case.\<close>

theorem AlterHeader_append:
  assumes "wf_header hdr" and "distinct ks" and "set ks = dom hdr" and "header_field k v"
  shows "AlterHeader ks hdr [empty_rule\<lparr>rule_Append := Some (k @ '': '' @ v)\<rparr>] = hdr_Add hdr k v"
proof -
  have "CHR 0x0A \<notin> set (field_line k v)"
    using assms(4) by (simp add: header_field_def field_line_def)
  then have "split_on CHR 0x0A (CHR 0x0A # (s @ CHR 0x0A # field_line k v)) =
      [] # split_on CHR 0x0A s @ [field_line k v]" for s
    by (simp add: split_on_mid split_on_free)
  with stringToHeader_text(1) [OF assms(1-3)] add_line_field [OF assms(4)] show ?thesis
    by (simp add: AlterHeader_rules applyRule_def empty_rule_def headerToString_lines
        stringToHeader_def split_on_mid split_on_free field_line_eq)
qed

theorem AlterHeader_append_witness:
  "AlterHeader [''X-Y'', ''Host''] sample_header [empty_rule\<lparr>rule_Append := Some (''x-y'' @ '': '' @ ''v'')\<rparr>] =
     hdr_Add sample_header ''x-y'' ''v''"
  by (rule AlterHeader_append) (simp_all add: sample_header_wf header_field_def TrimSpace_sample)

text \<open>The status line and the status code never come apart: if the code is the number the status
  line starts with, it is so after any rules, every other field of the response is untouched,
  and nothing changes when the rewritten line does not start with a number.\<close>

theorem AlterStatus_consistent:
  assumes "status_code_of (rs_Status r) = Some (rs_StatusCode r)"
  shows "status_code_of (rs_Status (AlterStatus r rules)) = Some (rs_StatusCode (AlterStatus r rules)) \<and>
    AlterStatus r rules =
      r\<lparr>rs_Status := rs_Status (AlterStatus r rules), rs_StatusCode := rs_StatusCode (AlterStatus r rules)\<rparr> \<and>
    (rs_Status (AlterStatus r rules) = foldl applyRule (rs_Status r) rules \<or> AlterStatus r rules = r)"
  using assms
  by (auto simp: AlterStatus_def Let_def status_code_of_def split: option.split)

theorem AlterStatus_consistent_witness:
  "rs_StatusCode (AlterStatus (zero_response\<lparr>rs_Status := ''200 OK'', rs_StatusCode := 200\<rparr>)
     [empty_rule\<lparr>rule_Replace := Some ''404 Gone''\<rparr>]) = 404"
  using AlterStatus_consistent [of "zero_response\<lparr>rs_Status := ''200 OK'', rs_StatusCode := 200\<rparr>"
      "[empty_rule\<lparr>rule_Replace := Some ''404 Gone''\<rparr>]"]
  by (simp add: AlterStatus_def status_code_of_def Atoi_def digit_val_def applyRule_def empty_rule_def)

text \<open>Rewriting a URL is all or nothing: the request keeps its URL when the rewritten text does
  not parse, and otherwise gets exactly the parsed URL; with a parser that reads back what is
  printed, rules that match nowhere leave the URL as it was.\<close>

theorem AlterURL_spec:
  "AlterURL str parse u rules =
     (case parse (foldl applyRule (str u) rules) of Inl e \<Rightarrow> (Some e, u) | Inr u' \<Rightarrow> (None, u')) \<and>
   ((\<forall>rule \<in> set rules. \<exists>rx. rule_Find rule = Some rx \<and> rule_Replace rule \<noteq> None \<and>
        \<not> MatchString rx (str u)) \<longrightarrow>
    parse (str u) = Inr u \<longrightarrow> AlterURL str parse u rules = (None, u))"
proof -
  have "foldl applyRule t rules = t"
    if "\<forall>rule \<in> set rules. \<exists>rx. rule_Find rule = Some rx \<and> rule_Replace rule \<noteq> None \<and> \<not> MatchString rx t"
    for t
    using that by (induction rules) (auto simp: applyRule_def ReplaceAll_no_match)
  then show ?thesis by (simp add: AlterURL_def)
qed

definition host_url :: "string \<Rightarrow> url" where
  "host_url h = \<lparr>url_Scheme = ''http'', url_Opaque = [], url_User = None, url_Host = h, url_Path = [],
     url_RawPath = [], url_ForceQuery = False, url_RawQuery = [], url_Fragment = []\<rparr>"

theorem AlterURL_spec_witness:
  "AlterURL url_Host (\<lambda>s. Inr (host_url s)) (host_url ''a.b'') [byte_rule CHR ''2'' []] =
     (None, host_url ''a.b'')"
  by (rule AlterURL_spec [THEN conjunct2, THEN mp, THEN mp])
     (simp_all add: byte_rule_def empty_rule_def host_url_def MatchString_def class_find)

end
