(* ===== verification/Signer.thy ===== *)
theory Signer
  imports Prelude "HOL-Library.Word" "HOL-Library.Char_ord" "HOL-Library.List_Lexorder"
    "HOL-Library.Sublist" "HOL-Library.Multiset"
begin

text \<open>
  The forged certificates of \<open>proxy/signer.go\<close> and the generator of \<open>proxy/counterecryptor.go\<close>
  that makes them reproducible: AES in counter mode, keyed by the CA key and seeded by a hash
  of the host names.  Bytes are \<open>8 word\<close> here, since the counter wraps.

  SHA-1, AES, the DER encodings and the RSA key generator are arguments; what the code does with
  \<open>hash.Hash.Sum\<close> is not: \<open>Sum(b)\<close> appends the digest of what has been written so far to
  \<open>b\<close>, and nothing has been written to the SHA-256 state that derives the key.

  \<open>cr_GenerateKey\<close> is one outcome of \<open>rsa.GenerateKey\<close> for a generator.  Since Go 1.11 that function
  may read one byte more or not, by chance, so two runs of the program need not make the same key;
  a theorem that compares two certificates compares them for the same outcomes.
\<close>

type_synonym octets = "8 word list"

subsection \<open>The generator\<close>

definition BlockSize :: nat where
  "BlockSize = 16"

text \<open>The SHA-256 digest of the empty message.\<close>

definition sha256_empty :: octets where
  "sha256_empty =
     [227, 176, 196, 66, 152, 252, 28, 20, 154, 251, 244, 200, 153, 111, 185, 36,
      39, 174, 65, 228, 100, 155, 147, 76, 164, 149, 153, 27, 120, 82, 184, 85]"

record CounterEncryptorRand =
  ce_cipher :: "octets \<Rightarrow> octets"
  ce_counter :: octets
  ce_rand :: octets
  ce_ix :: nat

text \<open>A private key is an RSA key or of some other type; \<open>marshal\<close> is
  \<open>x509.MarshalPKCS1PrivateKey\<close> and \<open>aes\<close> is \<open>aes.NewCipher\<close>.\<close>

datatype 'k private_key = RSA 'k | OtherKey

definition copy_into :: "octets \<Rightarrow> octets \<Rightarrow> octets" where
  "copy_into dst src = take (length dst) src @ drop (length src) dst"

definition NewCounterEncryptorRandFromKey ::
  "('k \<Rightarrow> octets) \<Rightarrow> (octets \<Rightarrow> string + (octets \<Rightarrow> octets)) \<Rightarrow> 'k private_key \<Rightarrow> octets option \<Rightarrow>
     string + CounterEncryptorRand" where
  "NewCounterEncryptorRandFromKey marshal aes key seed =
     (case key of
        OtherKey \<Rightarrow> Inl ''only RSA keys supported''
      | RSA k \<Rightarrow>
          (case aes (take BlockSize (marshal k @ sha256_empty)) of
             Inl e \<Rightarrow> Inl e
           | Inr cipher \<Rightarrow>
               (let counter = replicate BlockSize 0;
                    counter = (case seed of
                                 None \<Rightarrow> counter
                               | Some sd \<Rightarrow> copy_into counter (take BlockSize (sd @ sha256_empty)));
                    rand = replicate BlockSize 0
                in Inr \<lparr>ce_cipher = cipher, ce_counter = counter, ce_rand = rand,
                        ce_ix = length rand\<rparr>)))"

definition ce_Seed :: "CounterEncryptorRand \<Rightarrow> octets \<Rightarrow> CounterEncryptorRand outcome" where
  "ce_Seed c b =
     (if length b \<noteq> length (ce_counter c) then Panic ''SetCounter: wrong counter size''
      else Ret (c\<lparr>ce_counter := copy_into (ce_counter c) b\<rparr>))"

text \<open>The loop of \<open>refill\<close> over the counter, lowest byte first.\<close>

fun incr :: "octets \<Rightarrow> octets" where
  "incr [] = []"
| "incr (c # cs) = (let c' = c + 1 in if c' \<noteq> 0 then c' # cs else c' # incr cs)"

definition refill :: "CounterEncryptorRand \<Rightarrow> CounterEncryptorRand" where
  "refill c =
     (let c = c\<lparr>ce_rand := copy_into (ce_rand c) (ce_cipher c (ce_counter c))\<rparr>
      in c\<lparr>ce_counter := incr (ce_counter c), ce_ix := 0\<rparr>)"

text \<open>\<open>Read(b)\<close> for a buffer of length \<open>lenb\<close>: the bytes read (\<open>n\<close> is their number); the error
  is always nil.\<close>

definition ce_Read :: "CounterEncryptorRand \<Rightarrow> nat \<Rightarrow> octets \<times> CounterEncryptorRand" where
  "ce_Read c lenb =
     (let c = (if ce_ix c = length (ce_rand c) then refill c else c);
          n = length (ce_rand c) - ce_ix c;
          n = (if lenb < n then lenb else n)
      in (take n (drop (ce_ix c) (ce_rand c)), c\<lparr>ce_ix := ce_ix c + n\<rparr>))"

subsection \<open>The counter is a number\<close>

fun le_val :: "octets \<Rightarrow> nat" where
  "le_val [] = 0"
| "le_val (c # cs) = unat c + 256 * le_val cs"

lemma le_val_less: "le_val cs < 256 ^ length cs"
proof (induction cs)
  case (Cons c cs)
  have "unat c < 256" using unsigned_less [of c] by simp
  with Cons show ?case by simp
qed simp

lemma length_incr [simp]: "length (incr cs) = length cs"
  by (induction cs) (simp_all add: Let_def)

lemma le_val_inj: "length cs = length ds \<Longrightarrow> le_val cs = le_val ds \<Longrightarrow> cs = ds"
proof (induction cs ds rule: list_induct2)
  case (Cons c cs d ds)
  have b: "unat c < 256" "unat d < 256" using unsigned_less [of c] unsigned_less [of d] by simp_all
  from arg_cong [OF Cons(3), of "\<lambda>n. n mod 256"] b have "unat c = unat d" by simp
  moreover from arg_cong [OF Cons(3), of "\<lambda>n. n div 256"] b have "le_val cs = le_val ds" by simp
  ultimately show ?case using Cons.IH by (simp add: word_unat_eq_iff)
qed simp

lemma le_val_incr: "le_val (incr cs) = (le_val cs + 1) mod 256 ^ length cs"
proof (induction cs)
  case (Cons c cs)
  show ?case
  proof (cases "c + 1 = 0")
    case False
    then have u: "unat (c + 1) = Suc (unat c)" by (metis Suc_eq_plus1 add.commute unatSuc)
    have "le_val (incr (c # cs)) = le_val (c # cs) + 1" using False u by (simp add: Let_def)
    moreover have "le_val (incr (c # cs)) < 256 ^ length (c # cs)"
      by (metis le_val_less length_incr)
    ultimately show ?thesis by simp
  next
    case True
    then have "c = - 1" by (simp add: eq_neg_iff_add_eq_0)
    then have c: "unat c = 255" by (simp add: unsigned_minus_1_eq_mask mask_eq_exp_minus_1)
    have "le_val (incr (c # cs)) = 256 * ((le_val cs + 1) mod 256 ^ length cs)"
      using True Cons by (simp add: Let_def)
    also have "\<dots> = (256 * (le_val cs + 1)) mod (256 * 256 ^ length cs)"
      by (simp only: mult_mod_right)
    also have "\<dots> = (le_val (c # cs) + 1) mod 256 ^ length (c # cs)" by (simp add: c)
    finally show ?thesis .
  qed
qed simp

lemma length_incr_pow [simp]: "length ((incr ^^ k) cs) = length cs"
  by (induction k) simp_all

lemma le_val_incr_pow: "le_val ((incr ^^ k) cs) = (le_val cs + k) mod 256 ^ length cs"
proof (induction k)
  case 0
  then show ?case using le_val_less [of cs] by simp
next
  case (Suc k)
  then show ?case by (simp add: le_val_incr mod_Suc_eq)
qed

subsection \<open>The stream of the generator\<close>

fun ce_reads :: "CounterEncryptorRand \<Rightarrow> nat list \<Rightarrow> octets \<times> CounterEncryptorRand" where
  "ce_reads c [] = ([], c)"
| "ce_reads c (n # ns) =
     (let (bs, c1) = ce_Read c n; (cs, c2) = ce_reads c1 ns in (bs @ cs, c2))"

definition keystream :: "CounterEncryptorRand \<Rightarrow> nat \<Rightarrow> octets" where
  "keystream c m = concat (map (\<lambda>k. ce_cipher c ((incr ^^ k) (ce_counter c))) [0..<m])"

definition avail :: "CounterEncryptorRand \<Rightarrow> nat \<Rightarrow> octets" where
  "avail c m = drop (ce_ix c) (ce_rand c) @ keystream c m"

definition block_cipher :: "(octets \<Rightarrow> octets) \<Rightarrow> bool" where
  "block_cipher f \<longleftrightarrow> (\<forall>x. length x = BlockSize \<longrightarrow> length (f x) = BlockSize)"

definition ce_wf :: "CounterEncryptorRand \<Rightarrow> bool" where
  "ce_wf c \<longleftrightarrow> length (ce_rand c) = BlockSize \<and> length (ce_counter c) = BlockSize \<and>
     ce_ix c \<le> BlockSize \<and> block_cipher (ce_cipher c)"

lemma keystream_Suc:
  "keystream c (Suc m) = ce_cipher c (ce_counter c) @ keystream (c\<lparr>ce_counter := incr (ce_counter c)\<rparr>) m"
  by (simp add: keystream_def upt_conv_Cons map_Suc_upt [symmetric] o_def funpow_swap1 del: upt_Suc)

lemma refill_wf:
  assumes "ce_wf c"
  shows "ce_wf (refill c)" "drop (ce_ix (refill c)) (ce_rand (refill c)) = ce_cipher c (ce_counter c)"
    "keystream c (Suc m) = ce_cipher c (ce_counter c) @ keystream (refill c) m"
  using assms
  by (simp_all add: ce_wf_def block_cipher_def refill_def copy_into_def keystream_Suc Let_def)
     (simp_all add: keystream_def)

lemma ce_Read_avail:
  assumes "ce_wf c" and "ce_Read c n = (bs, c')"
  shows "ce_wf c' \<and> length bs \<le> n \<and> (0 < n \<longrightarrow> bs \<noteq> []) \<and>
    (\<exists>j \<le> 1. \<forall>m. avail c (m + j) = bs @ avail c' m)"
proof -
  define d where "d = (if ce_ix c = length (ce_rand c) then refill c else c)"
  have d: "ce_wf d" using assms(1) refill_wf by (simp add: d_def)
  have room: "ce_ix d < length (ce_rand d)"
    using assms(1) d refill_wf(2) [OF assms(1)]
    by (auto simp: d_def ce_wf_def refill_def Let_def copy_into_def BlockSize_def)
  define k where "k = (if n < length (ce_rand d) - ce_ix d then n else length (ce_rand d) - ce_ix d)"
  have eq: "bs = take k (drop (ce_ix d) (ce_rand d))" "c' = d\<lparr>ce_ix := ce_ix d + k\<rparr>"
    using assms(2) by (auto simp: ce_Read_def d_def k_def Let_def)
  have k: "k \<le> length (ce_rand d) - ce_ix d" "k \<le> n" "0 < n \<Longrightarrow> 0 < k"
    using room by (auto simp: k_def)
  have "\<forall>m. avail d m = bs @ avail c' m"
    by (simp add: eq avail_def keystream_def)
       (metis append_take_drop_id drop_drop add.commute append_assoc)
  moreover have "\<exists>j \<le> 1. \<forall>m. avail c (m + j) = avail d m"
  proof (cases "ce_ix c = length (ce_rand c)")
    case True
    with refill_wf [OF assms(1)] show ?thesis
      by (intro exI [of _ 1]) (simp add: avail_def d_def)
  qed (auto simp: d_def intro: exI [of _ 0])
  ultimately have "\<exists>j \<le> 1. \<forall>m. avail c (m + j) = bs @ avail c' m" by simp
  moreover have "ce_wf c'" using d k(1) room by (simp add: ce_wf_def eq(2))
  ultimately show ?thesis using k room by (auto simp: eq(1))
qed

lemma ce_reads_avail:
  assumes "ce_wf c" and "ce_reads c ns = (bs, c')"
  shows "\<exists>j \<le> length ns. \<forall>m. avail c (m + j) = bs @ avail c' m"
  using assms
proof (induction ns arbitrary: c bs)
  case Nil
  then show ?case by simp
next
  case (Cons n ns)
  obtain b1 c1 where r: "ce_Read c n = (b1, c1)" by (cases "ce_Read c n") auto
  obtain b2 where rs: "ce_reads c1 ns = (b2, c')" and bs: "bs = b1 @ b2"
    using Cons.prems(2) r by (auto split: prod.splits)
  from ce_Read_avail [OF Cons.prems(1) r] obtain i where
    i: "i \<le> 1" "\<And>m. avail c (m + i) = b1 @ avail c1 m" and wf: "ce_wf c1" by blast
  from Cons.IH [OF wf rs] obtain j where
    j: "j \<le> length ns" "\<And>m. avail c1 (m + j) = b2 @ avail c' m" by blast
  have "avail c (m + (j + i)) = bs @ avail c' m" for m
    using i(2) [of "m + j"] j(2) by (simp add: bs add.assoc)
  with i(1) j(1) show ?case by (intro exI [of _ "j + i"]) simp
qed

lemma keystream_prefix: "i \<le> j \<Longrightarrow> prefix (keystream c i) (keystream c j)"
  using upt_add_eq_append [of 0 i "j - i"] by (simp add: keystream_def prefix_def)

subsection \<open>Hashing the host names\<close>

text \<open>\<open>sha1\<close> is the digest of all that was written.\<close>

definition hashSorted :: "(string \<Rightarrow> octets) \<Rightarrow> string list \<Rightarrow> octets" where
  "hashSorted sha1 lst = sha1 (concat (map (\<lambda>s. s @ '','') (sort lst)))"

text \<open>\<open>big.Int.SetBytes\<close>: the first byte is the most significant.\<close>

definition SetBytes :: "octets \<Rightarrow> nat" where
  "SetBytes bs = le_val (rev bs)"

definition hashSortedBigInt :: "(string \<Rightarrow> octets) \<Rightarrow> string list \<Rightarrow> nat" where
  "hashSortedBigInt sha1 lst = SetBytes (hashSorted sha1 lst)"

lemma comma_list_inj:
  assumes "\<forall>s \<in> set xs \<union> set ys. CHR '','' \<notin> set s"
    and "concat (map (\<lambda>s. s @ '','') xs) = concat (map (\<lambda>s. s @ '','') ys)"
  shows "xs = ys"
  using assms
proof (induction xs arbitrary: ys)
  case Nil
  then show ?case by (cases ys) auto
next
  case (Cons x xs)
  then obtain y ys' where ys: "ys = y # ys'" by (cases ys) auto
  have eq: "x @ CHR '','' # concat (map (\<lambda>s. s @ '','') xs) =
      y @ CHR '','' # concat (map (\<lambda>s. s @ '','') ys')"
    using Cons.prems(2) by (simp add: ys)
  have free: "CHR '','' \<notin> set x" "CHR '','' \<notin> set y" using Cons.prems(1) by (auto simp: ys)
  from eq have xy: "x = y"
    using takeWhile_neq_append [OF free(1)] takeWhile_neq_append [OF free(2)] by metis
  with eq Cons.IH [of ys'] Cons.prems(1) show ?case by (simp add: ys)
qed

subsection \<open>Forging a certificate\<close>

text \<open>The fields of \<open>x509.Certificate\<close> the template sets, times in Unix seconds, key usages as the
  constants of \<open>crypto/x509\<close>; and what the code calls in \<open>crypto\<close> and \<open>net\<close>.\<close>

record ('ip, 's) template =
  tp_SerialNumber :: nat
  tp_Issuer :: 's
  tp_Organization :: "string list"
  tp_CommonName :: string
  tp_NotBefore :: int
  tp_NotAfter :: int
  tp_KeyUsage :: nat
  tp_ExtKeyUsage :: "nat list"
  tp_BasicConstraintsValid :: bool
  tp_IPAddresses :: "'ip list"
  tp_DNSNames :: "string list"

record 'k tls_certificate =
  tc_Certificate :: "octets list"
  tc_PrivateKey :: "'k private_key"

record ('k, 'ip, 'c, 's) crypto =
  cr_ParseCertificate :: "octets \<Rightarrow> string + 'c"
  cr_Subject :: "'c \<Rightarrow> 's"
  cr_sha1 :: "string \<Rightarrow> octets"
  cr_Version :: string
  cr_ParseIP :: "string \<Rightarrow> 'ip option"
  cr_marshal :: "'k \<Rightarrow> octets"
  cr_aes :: "octets \<Rightarrow> string + (octets \<Rightarrow> octets)"
  cr_GenerateKey :: "CounterEncryptorRand \<Rightarrow> string + ('k \<times> CounterEncryptorRand)"
  cr_CreateCertificate :: "CounterEncryptorRand \<Rightarrow> ('ip, 's) template \<Rightarrow> 'c \<Rightarrow> 'k \<Rightarrow> 'k private_key \<Rightarrow>
    string + octets"

definition goproxySignerVersion :: string where
  "goproxySignerVersion = '':goroxy1''"

definition signer_hash :: "('k, 'ip, 'c, 's) crypto \<Rightarrow> string list \<Rightarrow> octets" where
  "signer_hash cr hosts = hashSorted (cr_sha1 cr) (hosts @ [goproxySignerVersion, CHR '':'' # cr_Version cr])"

definition template_for :: "('k, 'ip, 'c, 's) crypto \<Rightarrow> 'c \<Rightarrow> octets \<Rightarrow> ('ip, 's) template" where
  "template_for cr x509ca hash =
     \<lparr>tp_SerialNumber = SetBytes hash, tp_Issuer = cr_Subject cr x509ca,
      tp_Organization = [''RESTful HTTPS Proxy MITM''], tp_CommonName = [], tp_NotBefore = 0,
      tp_NotAfter = 2524521600, tp_KeyUsage = 4 + 1, tp_ExtKeyUsage = [1],
      tp_BasicConstraintsValid = True, tp_IPAddresses = [], tp_DNSNames = []\<rparr>"

definition add_host :: "('k, 'ip, 'c, 's) crypto \<Rightarrow> ('ip, 's) template \<Rightarrow> string \<Rightarrow> ('ip, 's) template" where
  "add_host cr t h =
     (case cr_ParseIP cr h of
        Some ip \<Rightarrow> t\<lparr>tp_IPAddresses := tp_IPAddresses t @ [ip]\<rparr>
      | None \<Rightarrow> t\<lparr>tp_DNSNames := tp_DNSNames t @ [h], tp_CommonName := h\<rparr>)"

definition signHost ::
  "('k, 'ip, 'c, 's) crypto \<Rightarrow> 'k tls_certificate \<Rightarrow> string list \<Rightarrow> (string + 'k tls_certificate) outcome" where
  "signHost cr ca hosts =
     (case tc_Certificate ca of
        [] \<Rightarrow> Panic ''index out of range''
      | ca0 # _ \<Rightarrow> Ret
          (case cr_ParseCertificate cr ca0 of Inl e \<Rightarrow> Inl e | Inr x509ca \<Rightarrow>
             (let hash = signer_hash cr hosts;
                  template = foldl (add_host cr) (template_for cr x509ca hash) hosts
              in case NewCounterEncryptorRandFromKey (cr_marshal cr) (cr_aes cr) (tc_PrivateKey ca) (Some hash) of
                   Inl e \<Rightarrow> Inl e
                 | Inr csprng \<Rightarrow>
              (case cr_GenerateKey cr csprng of Inl e \<Rightarrow> Inl e | Inr (certpriv, csprng) \<Rightarrow>
              (case cr_CreateCertificate cr csprng template x509ca certpriv (tc_PrivateKey ca) of
                 Inl e \<Rightarrow> Inl e
               | Inr derBytes \<Rightarrow>
                   Inr \<lparr>tc_Certificate = [derBytes, ca0], tc_PrivateKey = RSA certpriv\<rparr>)))))"

subsection \<open>Properties\<close>

lemma copy_into_full: "length src = length dst \<Longrightarrow> copy_into dst src = src"
  by (simp add: copy_into_def)

lemma length_digest: "length (take BlockSize (b @ sha256_empty)) = BlockSize"
  by (simp add: sha256_empty_def BlockSize_def)

lemma copy_digest:
  "copy_into (replicate BlockSize 0) (take BlockSize (b @ sha256_empty)) = take BlockSize (b @ sha256_empty)"
  by (rule copy_into_full) (simp only: length_digest length_replicate)

lemma NewCounterEncryptorRand_Inr:
  assumes "aes (take BlockSize (marshal k @ sha256_empty)) = Inr cipher"
  shows "NewCounterEncryptorRandFromKey marshal aes (RSA k) seed =
    Inr \<lparr>ce_cipher = cipher,
         ce_counter = (case seed of None \<Rightarrow> replicate BlockSize 0
                       | Some sd \<Rightarrow> take BlockSize (sd @ sha256_empty)),
         ce_rand = replicate BlockSize 0, ce_ix = BlockSize\<rparr>"
  using assms
  by (cases seed)
     (simp_all add: NewCounterEncryptorRandFromKey_def copy_digest del: take_append)

lemma NewCounterEncryptorRand_wf:
  assumes "NewCounterEncryptorRandFromKey marshal aes (RSA k) seed = Inr c"
    and "aes (take BlockSize (marshal k @ sha256_empty)) = Inr cipher" and "block_cipher cipher"
  shows "ce_wf c" "avail c m = keystream c m" "ce_cipher c = cipher"
    "ce_counter c = (case seed of None \<Rightarrow> replicate BlockSize 0 | Some sd \<Rightarrow> take BlockSize (sd @ sha256_empty))"
proof -
  from assms(1) have c: "c = \<lparr>ce_cipher = cipher,
      ce_counter = (case seed of None \<Rightarrow> replicate BlockSize 0
                    | Some sd \<Rightarrow> take BlockSize (sd @ sha256_empty)),
      ce_rand = replicate BlockSize 0, ce_ix = BlockSize\<rparr>"
    by (simp add: NewCounterEncryptorRand_Inr [of aes marshal k, OF assms(2)] del: take_append)
  have "length (ce_counter c) = BlockSize"
    by (cases seed) (simp_all add: c length_digest del: take_append length_take)
  then show "ce_wf c" by (simp add: ce_wf_def c assms(3))
  show "avail c m = keystream c m" "ce_cipher c = cipher"
    "ce_counter c = (case seed of None \<Rightarrow> replicate BlockSize 0 | Some sd \<Rightarrow> take BlockSize (sd @ sha256_empty))"
    by (simp_all add: avail_def c)
qed

text \<open>The generator is AES in counter mode: whatever the sizes of the reads, the bytes read are a
  prefix of the encryptions of the seed, the seed plus one, and so on, the counter being the
  little-endian number in the seed block.  So the key generated from it does not depend on how
  it is read.\<close>

theorem ce_reads_keystream:
  assumes "NewCounterEncryptorRandFromKey marshal aes (RSA k) (Some seed) = Inr c"
    and "aes (take BlockSize (marshal k @ sha256_empty)) = Inr cipher" and "block_cipher cipher"
    and "ce_reads c ns = (bs, c')"
  shows "prefix bs (concat (map (\<lambda>i. cipher ((incr ^^ i) (take BlockSize (seed @ sha256_empty)))) [0..<length ns]))"
proof -
  note c = NewCounterEncryptorRand_wf [OF assms(1-3)]
  from ce_reads_avail [OF c(1) assms(4)] obtain j where "j \<le> length ns"
    "\<And>m. keystream c (m + j) = bs @ avail c' m" by (auto simp: c(2))
  from this(2) [of 0] have "prefix bs (keystream c j)" by simp
  with keystream_prefix [OF \<open>j \<le> length ns\<close>, of c] have "prefix bs (keystream c (length ns))"
    using prefix_order.trans by blast
  then show ?thesis by (simp add: keystream_def c(3,4) del: take_append)
qed

definition toy_aes :: "octets \<Rightarrow> string + (octets \<Rightarrow> octets)" where
  "toy_aes key = Inr (map (\<lambda>b. b + 7))"

theorem ce_reads_keystream_witness:
  "prefix (fst (ce_reads \<lparr>ce_cipher = map (\<lambda>b. b + 7), ce_counter = replicate 16 255,
                         ce_rand = replicate 16 0, ce_ix = 16\<rparr> [3, 20, 5]))
     (concat (map (\<lambda>i. map (\<lambda>b. b + 7) ((incr ^^ i) (replicate 16 255))) [0..<3]))"
proof -
  let ?c = "\<lparr>ce_cipher = map (\<lambda>b. b + 7), ce_counter = replicate 16 255,
    ce_rand = replicate 16 0, ce_ix = 16\<rparr> :: CounterEncryptorRand"
  have 1: "NewCounterEncryptorRandFromKey (\<lambda>_. []) toy_aes (RSA ()) (Some (replicate 16 255)) = Inr ?c"
    by (simp add: NewCounterEncryptorRandFromKey_def toy_aes_def copy_into_def BlockSize_def)
  obtain bs c' where r: "ce_reads ?c [3, 20, 5] = (bs, c')" by (cases "ce_reads ?c [3, 20, 5]") auto
  show ?thesis
    using ce_reads_keystream [OF 1 _ _ r, of "map (\<lambda>b. b + 7)"]
    unfolding r fst_conv
    by (simp add: toy_aes_def block_cipher_def BlockSize_def upt_conv_Cons)
qed

text \<open>The generator does not run through its blocks twice: with an injective cipher, any two of its
  first \<open>2 ^ 128\<close> blocks differ.\<close>

theorem keystream_blocks_distinct:
  assumes "length (ce_counter c) = BlockSize" and "inj_on (ce_cipher c) {x. length x = BlockSize}"
    and "i < j" and "j < 2 ^ 128"
  shows "ce_cipher ((refill ^^ i) c) (ce_counter ((refill ^^ i) c)) \<noteq>
    ce_cipher ((refill ^^ j) c) (ce_counter ((refill ^^ j) c))"
proof -
  have st: "ce_cipher ((refill ^^ k) c) = ce_cipher c" "ce_counter ((refill ^^ k) c) = (incr ^^ k) (ce_counter c)"
    for k by (induction k) (simp_all add: refill_def Let_def)
  let ?v = "le_val (ce_counter c)"
  have "(?v + i) mod 2 ^ 128 \<noteq> (?v + j) mod 2 ^ 128"
  proof
    assume "(?v + i) mod 2 ^ 128 = (?v + j) mod 2 ^ 128"
    then have "2 ^ 128 dvd (?v + j) - (?v + i)" using assms(3) by (intro mod_eq_dvd_iff_nat [THEN iffD1]) auto
    with assms(3,4) show False by (auto dest: dvd_imp_le)
  qed
  then have "(incr ^^ i) (ce_counter c) \<noteq> (incr ^^ j) (ce_counter c)"
    using le_val_incr_pow [of i "ce_counter c"] le_val_incr_pow [of j "ce_counter c"] assms(1)
    by (auto simp: BlockSize_def)
  with assms(1,2) show ?thesis by (auto simp: st inj_on_eq_iff)
qed

theorem keystream_blocks_distinct_witness:
  "ce_cipher ((refill ^^ 1) \<lparr>ce_cipher = rev, ce_counter = replicate 16 255, ce_rand = [], ce_ix = 0\<rparr>)
     (ce_counter ((refill ^^ 1) \<lparr>ce_cipher = rev, ce_counter = replicate 16 255, ce_rand = [], ce_ix = 0\<rparr>)) \<noteq>
   ce_cipher ((refill ^^ 2) \<lparr>ce_cipher = rev, ce_counter = replicate 16 255, ce_rand = [], ce_ix = 0\<rparr>)
     (ce_counter ((refill ^^ 2) \<lparr>ce_cipher = rev, ce_counter = replicate 16 255, ce_rand = [], ce_ix = 0\<rparr>))"
  by (rule keystream_blocks_distinct) (simp_all add: BlockSize_def inj_on_def)

text \<open>(C32) The forged key is no secret of the CA: \<open>hash.Hash.Sum\<close> appends to its argument, so the AES
  key is the first 16 bytes of the encoding of the CA key and not a digest of it.  Those bytes
  are the DER header and the first bytes of the public modulus; two CAs that agree in them forge
  the same private key for the same hosts.\<close>

theorem signHost_key_public:
  assumes "tc_PrivateKey ca1 = RSA k1" and "tc_PrivateKey ca2 = RSA k2"
    and "BlockSize \<le> length (cr_marshal cr k1)" and "BlockSize \<le> length (cr_marshal cr k2)"
    and "take BlockSize (cr_marshal cr k1) = take BlockSize (cr_marshal cr k2)"
    and "signHost cr ca1 hosts = Ret (Inr cert1)" and "signHost cr ca2 hosts = Ret (Inr cert2)"
  shows "tc_PrivateKey cert1 = tc_PrivateKey cert2"
  using assms
  by (auto simp: signHost_def NewCounterEncryptorRandFromKey_def Let_def
      split: list.splits sum.splits prod.splits)

definition toy_crypto :: "(octets, string, octets, octets) crypto" where
  "toy_crypto =
     \<lparr>cr_ParseCertificate = Inr, cr_Subject = (\<lambda>c. c), cr_sha1 = (\<lambda>s. replicate 20 21),
      cr_Version = ''go1.11'', cr_ParseIP = (\<lambda>s. if hd s = CHR ''1'' then Some s else None),
      cr_marshal = (\<lambda>k. [0x30, 0x82, 0x04, 0xa4, 0x02, 0x01, 0x00, 0x02, 0x82, 0x01, 0x01, 0x00] @ k),
      cr_aes = toy_aes, cr_GenerateKey = (\<lambda>c. case ce_Read c 8 of (bs, c') \<Rightarrow> Inr (bs, c')),
      cr_CreateCertificate = (\<lambda>c t ca k cak. Inr (ca @ k))\<rparr>"

definition toy_ca :: "octets \<Rightarrow> octets tls_certificate" where
  "toy_ca k = \<lparr>tc_Certificate = [k], tc_PrivateKey = RSA k\<rparr>"

lemma toy_fields:
  "cr_ParseCertificate toy_crypto = Inr" "cr_aes toy_crypto = toy_aes"
  "cr_sha1 toy_crypto s = replicate 20 21"
  "cr_GenerateKey toy_crypto g = Inr (ce_Read g 8)"
  "cr_CreateCertificate toy_crypto g t ca pk cak = Inr (ca @ pk)"
  "cr_marshal toy_crypto k = [0x30, 0x82, 0x04, 0xa4, 0x02, 0x01, 0x00, 0x02, 0x82, 0x01, 0x01, 0x00] @ k"
  by (simp_all add: toy_crypto_def split: prod.split)

lemma toy_generator:
  "NewCounterEncryptorRandFromKey marshal toy_aes (RSA k) (Some (replicate 20 21)) =
     Inr \<lparr>ce_cipher = map (\<lambda>b. b + 7), ce_counter = replicate 16 21, ce_rand = replicate 16 0, ce_ix = 16\<rparr>"
  by (subst NewCounterEncryptorRand_Inr) (simp_all add: toy_aes_def BlockSize_def)

lemma toy_read:
  "ce_Read \<lparr>ce_cipher = map (\<lambda>b. b + 7), ce_counter = replicate 16 21, ce_rand = replicate 16 0, ce_ix = 16\<rparr> 8 =
     (replicate 8 28, \<lparr>ce_cipher = map (\<lambda>b. b + 7), ce_counter = incr (replicate 16 21),
        ce_rand = replicate 16 28, ce_ix = 8\<rparr>)"
  by (simp add: ce_Read_def refill_def copy_into_def)

lemma toy_sign:
  "signHost toy_crypto (toy_ca k) [''a.b''] =
     Ret (Inr \<lparr>tc_Certificate = [k @ replicate 8 28, k], tc_PrivateKey = RSA (replicate 8 28)\<rparr>)"
  by (simp add: signHost_def toy_ca_def signer_hash_def hashSorted_def toy_fields toy_generator
      toy_read)

theorem signHost_key_public_witness:
  "\<exists>cert1 cert2. signHost toy_crypto (toy_ca [1, 2, 3, 4, 5]) [''a.b''] = Ret (Inr cert1) \<and>
     signHost toy_crypto (toy_ca [1, 2, 3, 4, 6]) [''a.b''] = Ret (Inr cert2) \<and>
     tc_PrivateKey cert1 = tc_PrivateKey cert2"
proof -
  from signHost_key_public [of "toy_ca [1, 2, 3, 4, 5]" "[1, 2, 3, 4, 5]" "toy_ca [1, 2, 3, 4, 6]"
      "[1, 2, 3, 4, 6]" toy_crypto, OF _ _ _ _ _ toy_sign toy_sign]
  have "tc_PrivateKey \<lparr>tc_Certificate = [[1, 2, 3, 4, 5] @ replicate 8 28, [1, 2, 3, 4, 5]], tc_PrivateKey = RSA (replicate 8 28)\<rparr> =
    tc_PrivateKey \<lparr>tc_Certificate = [[1, 2, 3, 4, 6] @ replicate 8 28, [1, 2, 3, 4, 6]], tc_PrivateKey = RSA (replicate 8 28 :: octets)\<rparr>"
    by (simp add: toy_ca_def toy_fields BlockSize_def)
  with toy_sign show ?thesis by blast
qed

text \<open>The text that is hashed, as octets, in place of its digest.\<close>

definition octets_of :: "string \<Rightarrow> octets" where
  "octets_of s = map (\<lambda>c. of_nat (of_char c)) s"

lemma octets_of_inj: "octets_of s = octets_of t \<Longrightarrow> s = t"
proof -
  let ?f = "\<lambda>c. of_nat (of_char c) :: 8 word"
  have "c = d" if "of_nat (of_char c) = (of_nat (of_char d) :: 8 word)" for c d :: char
  proof -
    from arg_cong [OF that, of unat] have "of_char c mod 256 = (of_char d mod 256 :: nat)"
      by (simp add: unsigned_of_nat take_bit_eq_mod)
    then show ?thesis by simp
  qed
  then show "octets_of s = octets_of t \<Longrightarrow> s = t"
    unfolding octets_of_def using map_injective [of ?f s t] by (auto simp: inj_def)
qed

text \<open>Hosts that differ get certificates with different serial text: for names without commas, the
  text that is hashed determines the multiset of the names, and nothing else of the list does.\<close>

theorem hashSorted_text:
  assumes "\<forall>s \<in> set xs \<union> set ys. CHR '','' \<notin> set s"
  shows "hashSorted octets_of xs = hashSorted octets_of ys \<longleftrightarrow> mset xs = mset ys"
proof
  assume "hashSorted octets_of xs = hashSorted octets_of ys"
  then have "concat (map (\<lambda>s. s @ '','') (sort xs)) = concat (map (\<lambda>s. s @ '','') (sort ys))"
    unfolding hashSorted_def by (rule octets_of_inj)
  from comma_list_inj [OF _ this] assms have "sort xs = sort ys" by simp
  then show "mset xs = mset ys" by (metis mset_sort)
next
  assume "mset xs = mset ys"
  then have "sort xs = sort ys" by (metis mset_sort properties_for_sort sorted_sort)
  then show "hashSorted octets_of xs = hashSorted octets_of ys" by (simp add: hashSorted_def)
qed

theorem hashSorted_text_witness:
  "hashSorted octets_of [''b.c'', ''a.b''] \<noteq> hashSorted octets_of [''a.b'', ''b.d'']"
  by (subst hashSorted_text) simp_all

text \<open>A forged certificate names the hosts asked for and is signed by the CA: each host is in exactly
  one of the two lists of the template, in order, an address among the addresses and any other
  name among the DNS names, the last of which is the common name; the chain that is returned is
  the new certificate and the CA's.\<close>

theorem signHost_template:
  assumes "signHost cr ca hosts = Ret (Inr cert)"
  shows "\<exists>x509ca csprng derBytes certpriv template.
    cr_ParseCertificate cr (hd (tc_Certificate ca)) = Inr x509ca \<and>
    cr_CreateCertificate cr csprng template x509ca certpriv (tc_PrivateKey ca) = Inr derBytes \<and>
    cert = \<lparr>tc_Certificate = [derBytes, hd (tc_Certificate ca)], tc_PrivateKey = RSA certpriv\<rparr> \<and>
    tp_Issuer template = cr_Subject cr x509ca \<and>
    tp_DNSNames template = filter (\<lambda>h. cr_ParseIP cr h = None) hosts \<and>
    map Some (tp_IPAddresses template) = filter (\<lambda>ip. ip \<noteq> None) (map (cr_ParseIP cr) hosts) \<and>
    tp_CommonName template = (if tp_DNSNames template = [] then [] else last (tp_DNSNames template))"
proof -
  have fold: "tp_Issuer (foldl (add_host cr) t hs) = tp_Issuer t"
    "tp_DNSNames (foldl (add_host cr) t hs) = tp_DNSNames t @ filter (\<lambda>h. cr_ParseIP cr h = None) hs"
    "map Some (tp_IPAddresses (foldl (add_host cr) t hs)) =
       map Some (tp_IPAddresses t) @ filter (\<lambda>ip. ip \<noteq> None) (map (cr_ParseIP cr) hs)"
    "tp_CommonName (foldl (add_host cr) t hs) =
       (if filter (\<lambda>h. cr_ParseIP cr h = None) hs = [] then tp_CommonName t
        else last (filter (\<lambda>h. cr_ParseIP cr h = None) hs))"
    for t hs
    by (induction hs arbitrary: t) (auto simp: add_host_def split: option.splits)
  from assms obtain ca0 cas x509ca certpriv derBytes csprng' where
    "tc_Certificate ca = ca0 # cas" "cr_ParseCertificate cr ca0 = Inr x509ca"
    "cr_CreateCertificate cr csprng' (foldl (add_host cr) (template_for cr x509ca (signer_hash cr hosts)) hosts)
       x509ca certpriv (tc_PrivateKey ca) = Inr derBytes"
    "cert = \<lparr>tc_Certificate = [derBytes, ca0], tc_PrivateKey = RSA certpriv\<rparr>"
    by (auto simp: signHost_def Let_def split: list.splits sum.splits prod.splits)
  then show ?thesis
    by (intro exI conjI) (auto simp: fold template_for_def)
qed

theorem signHost_template_witness:
  "\<exists>x509ca csprng derBytes certpriv template.
    cr_CreateCertificate toy_crypto csprng template x509ca certpriv (RSA [7]) = Inr derBytes \<and>
    tp_DNSNames template = [''a.b''] \<and> tp_CommonName template = ''a.b''"
  using signHost_template [OF toy_sign [of "[7]"]]
  by (auto simp: toy_crypto_def toy_ca_def)

end
