(* ===== verification/ConnSet.thy ===== *)
theory ConnSet
  imports Prelude "HOL-Library.Word"
begin

text \<open>
  \<open>connSet\<close> of \<open>proxy/clientConnProps.go\<close>: a \<open>sync.Map\<close> used as a set, with a counter of its own
  that goroutines bring up to date later.  A connection is added and removed by the goroutine
  that serves it only, so that \<open>Contains\<close> and the store that follows it see the same answer for
  its key, and each of the operations is one step; the goroutines they start are steps of
  their own, in any order.
\<close>

record 'v connSet =
  cs_m :: "'v list"
  cs_n :: "64 word"
  cs_incs :: nat
  cs_decs :: nat

text \<open>\<open>cs_incs\<close> and \<open>cs_decs\<close> count the goroutines that have been started and have not run yet.
  The keys are listed in the order \<open>Range\<close> visits them.\<close>

definition new_connSet :: "'v connSet" where
  "new_connSet = \<lparr>cs_m = [], cs_n = 0, cs_incs = 0, cs_decs = 0\<rparr>"

definition cs_Contains :: "'v connSet \<Rightarrow> 'v \<Rightarrow> bool" where
  "cs_Contains s v \<longleftrightarrow> v \<in> set (cs_m s)"

definition cs_Len :: "'v connSet \<Rightarrow> 64 word" where
  "cs_Len s = cs_n s"

definition cs_Add :: "'v connSet \<Rightarrow> 'v \<Rightarrow> 'v connSet" where
  "cs_Add s v =
     (if cs_Contains s v then s
      else s\<lparr>cs_m := cs_m s @ [v], cs_incs := cs_incs s + 1\<rparr>)"

definition cs_Remove :: "'v connSet \<Rightarrow> 'v \<Rightarrow> 'v connSet" where
  "cs_Remove s v =
     (if \<not> cs_Contains s v then s
      else s\<lparr>cs_m := removeAll v (cs_m s), cs_decs := cs_decs s + 1\<rparr>)"

text \<open>\<open>Range\<close> calls a function on the members until it returns false; the function may change
  something else (\<open>'a\<close>).\<close>

fun range_loop :: "('v \<Rightarrow> 'a \<Rightarrow> bool \<times> 'a) \<Rightarrow> 'v list \<Rightarrow> 'a \<Rightarrow> 'a" where
  "range_loop f [] a = a"
| "range_loop f (v # vs) a = (case f v a of (goon, a') \<Rightarrow> if goon then range_loop f vs a' else a')"

definition cs_Range :: "'v connSet \<Rightarrow> ('v \<Rightarrow> 'a \<Rightarrow> bool \<times> 'a) \<Rightarrow> 'a \<Rightarrow> 'a" where
  "cs_Range s f a = range_loop f (cs_m s) a"

lemma range_loop_all: "(\<And>v a. fst (f v a)) \<Longrightarrow> range_loop f vs a = foldl (\<lambda>a v. snd (f v a)) a vs"
  by (induction vs arbitrary: a) (auto split: prod.splits simp: Let_def, metis fst_conv snd_conv)

subsection \<open>The goroutines\<close>

datatype 'v cs_event = Added 'v | Removed 'v | Incremented | Decremented

fun cs_exec :: "'v cs_event \<Rightarrow> 'v connSet \<Rightarrow> 'v connSet option" where
  "cs_exec (Added v) s = Some (cs_Add s v)"
| "cs_exec (Removed v) s = Some (cs_Remove s v)"
| "cs_exec Incremented s =
     (if cs_incs s = 0 then None else Some (s\<lparr>cs_n := cs_n s + 1, cs_incs := cs_incs s - 1\<rparr>))"
| "cs_exec Decremented s =
     (if cs_decs s = 0 then None else Some (s\<lparr>cs_n := cs_n s - 1, cs_decs := cs_decs s - 1\<rparr>))"

inductive cs_reach :: "'v cs_event list \<Rightarrow> 'v connSet \<Rightarrow> bool" where
  start: "cs_reach [] new_connSet"
| step: "cs_reach es s \<Longrightarrow> cs_exec e s = Some s' \<Longrightarrow> cs_reach (es @ [e]) s'"

inductive_cases cs_reach_stepE: "cs_reach (es @ [e]) s"

text \<open>The same, as a function of the history.\<close>

fun cs_run :: "'v cs_event list \<Rightarrow> 'v connSet option" where
  "cs_run [] = Some new_connSet"
| "cs_run (e # es) = (case cs_run es of None \<Rightarrow> None | Some s \<Rightarrow> cs_exec e s)"

lemma cs_run_reach: "cs_run (rev es) = Some s \<Longrightarrow> cs_reach es s"
  by (induction es arbitrary: s rule: rev_induct)
     (auto split: option.splits intro: cs_reach.intros)

definition cs_inv :: "'v connSet \<Rightarrow> bool" where
  "cs_inv s \<longleftrightarrow> distinct (cs_m s) \<and>
     cs_n s + of_nat (cs_incs s) - of_nat (cs_decs s) = of_nat (length (cs_m s))"

lemma cs_inv_new: "cs_inv new_connSet"
  by (simp add: cs_inv_def new_connSet_def)

lemma cs_inv_Add: "cs_inv s \<Longrightarrow> cs_inv (cs_Add s v)"
  by (auto simp: cs_inv_def cs_Add_def cs_Contains_def algebra_simps)

lemma length_removeAll_distinct:
  "distinct xs \<Longrightarrow> x \<in> set xs \<Longrightarrow> length xs = Suc (length (removeAll x xs))"
  by (induction xs) auto

lemma cs_inv_Remove: "cs_inv s \<Longrightarrow> cs_inv (cs_Remove s v)"
  using length_removeAll_distinct [of "cs_m s" v]
  by (auto simp: cs_inv_def cs_Remove_def cs_Contains_def distinct_removeAll algebra_simps)

lemma cs_inv_goroutine:
  "cs_inv s \<Longrightarrow> cs_exec Incremented s = Some s' \<Longrightarrow> cs_inv s'"
  "cs_inv s \<Longrightarrow> cs_exec Decremented s = Some s' \<Longrightarrow> cs_inv s'"
  by (auto simp: cs_inv_def gr0_conv_Suc algebra_simps split: if_splits)

lemma cs_reach_inv: "cs_reach es s \<Longrightarrow> cs_inv s"
proof (induction rule: cs_reach.induct)
  case (step es s e s')
  then show ?case
    by (cases e) (auto intro: cs_inv_Add cs_inv_Remove cs_inv_goroutine)
qed (rule cs_inv_new)

text \<open>After any history of additions, removals and late counter updates the set holds each
  connection once, and the counter is off by exactly the updates still to come: once the
  goroutines have run, \<open>Len\<close> is the number of the members.\<close>

theorem connSet_counts:
  assumes "cs_reach es s"
  shows "distinct (cs_m s) \<and> cs_Len s + of_nat (cs_incs s) = of_nat (length (cs_m s)) + of_nat (cs_decs s) \<and>
    (cs_incs s = 0 \<longrightarrow> cs_decs s = 0 \<longrightarrow> cs_Len s = of_nat (length (cs_m s)))"
  using cs_reach_inv [OF assms] by (auto simp: cs_inv_def cs_Len_def algebra_simps)

theorem connSet_counts_witness:
  "distinct (cs_m \<lparr>cs_m = [7::nat], cs_n = -1, cs_incs = 2, cs_decs = 0\<rparr>) \<and>
   cs_Len \<lparr>cs_m = [7::nat], cs_n = -1, cs_incs = 2, cs_decs = 0\<rparr> + of_nat 2 = of_nat 1 + of_nat 0"
proof -
  have "cs_reach [Added 7, Removed 7, Decremented, Added 7] \<lparr>cs_m = [7::nat], cs_n = -1, cs_incs = 2, cs_decs = 0\<rparr>"
    by (rule cs_run_reach) (simp add: cs_Add_def cs_Remove_def cs_Contains_def new_connSet_def)
  from connSet_counts [OF this] show ?thesis by simp
qed

text \<open>The counter can be ahead of itself: a connection that comes and goes can leave the counter
  at minus one while a connection is being served, so the limit \<open>Listen\<close> compares it with
  (\<open>Len() >= MaxConnsKeptAlive\<close>) bounds the number of connections only once all goroutines
  have run.\<close>

theorem connSet_Len_behind:
  "\<exists>es s. cs_reach es s \<and> cs_m s = [0..<n] \<and> sint (cs_Len s) = - 1"
proof -
  have "\<exists>es s. cs_reach es s \<and> cs_m s = [0..<n] \<and> cs_Len s = - 1"
  proof (induction n)
    case 0
    have "cs_reach [Added 0, Removed 0, Decremented] \<lparr>cs_m = [], cs_n = -1, cs_incs = 1, cs_decs = 0\<rparr>"
      by (rule cs_run_reach) (simp add: cs_Add_def cs_Remove_def cs_Contains_def new_connSet_def)
    then show ?case
      by (intro exI conjI, assumption) (simp_all add: cs_Len_def)
  next
    case (Suc n)
    then obtain es s where s: "cs_reach es s" "cs_m s = [0..<n]" "cs_Len s = - 1" by blast
    have "cs_reach (es @ [Added n]) (cs_Add s n)"
      by (rule cs_reach.step [OF s(1)]) simp
    moreover have "cs_m (cs_Add s n) = [0..<Suc n]" "cs_Len (cs_Add s n) = - 1"
      using s(2,3) by (simp_all add: cs_Add_def cs_Contains_def cs_Len_def)
    ultimately show ?case by blast
  qed
  then show ?thesis by (metis sint_n1)
qed

end
