(* ===== verification/ClientConn.thy ===== *)
theory ClientConn
  imports HttpMsg ReaderObjects
begin

text \<open>
  A connection from a client, \<open>ClientConnProps\<close> of \<open>proxy/clientConnProps.go\<close>: reading a request,
  and writing a response after deciding how its body is delimited.

  A connection is a handle \<open>'conn\<close> into the outside world \<open>'w\<close>; \<open>http.ReadRequest\<close>,
  \<open>Response.Write\<close> and the \<open>Close\<close> of a connection are arguments that take the handle and act on
  the world.  Times are in nanoseconds.
\<close>

record 'conn ClientConnProps =
  cl_lastUsedTime :: int
  cl_Conn :: "'conn option"
  cl_idleTimeout :: int
  cl_maxHeaderBytes :: int
  cl_closeConnAfterRequest :: bool

subsection \<open>Peeking at a body\<close>

text \<open>A body of unknown length is read once, into 8192 bytes; the body is then what was read
  followed by what is left, with the old closer.\<close>

definition peek_body :: "'c body \<Rightarrow> bytes \<times> goerr option \<times> 'c body" where
  "peek_body b =
     (let (bs, err, ob) = rdr_read (fst b) 8192
      in (bs, err, (rdr_of (multi_read buffer_read rdr_read) (MultiReader bs ob), snd b)))"

lemma peek_body_reads:
  assumes "reads_as (fst b) bs x" and "peek_body b = (cs, e, b')"
  shows "reads_as (fst b') bs x \<and> snd b' = snd b \<and> length cs \<le> 8192 \<and>
    (\<forall>y. e = Some y \<longrightarrow> y = x \<and> cs = bs)"
proof -
  obtain ob where r: "rdr_read (fst b) 8192 = (cs, e, ob)"
    and b': "b' = (rdr_of (multi_read buffer_read rdr_read) (MultiReader cs ob), snd b)"
    using assms(2) by (auto simp: peek_body_def split: prod.splits)
  from reads_as_read [OF assms(1) r] obtain ds where ds: "bs = cs @ ds" "length cs \<le> 8192"
    "reads_as ob ds x" "\<forall>y. e = Some y \<longrightarrow> y = x \<and> ds = []" by blast
  with buffer_then [OF ds(3), of cs] b' show ?thesis by simp
qed

subsection \<open>Writing a response\<close>

text \<open>What \<open>Write\<close> makes of the response before it is sent: the fields that belong to the
  server's connection are deleted, a body of unknown length is looked at, and if its end is
  still unknown the response is sent in chunks or ended by closing the connection.\<close>

definition client_strip :: "'b response \<Rightarrow> 'b response" where
  "client_strip resp =
     (let resp = resp\<lparr>rs_Header := hdr_Del (rs_Header resp) ''Connection''\<rparr>;
          resp = resp\<lparr>rs_Header := hdr_Del (rs_Header resp) ''Content-Length''\<rparr>
      in resp\<lparr>rs_Header := hdr_Del (rs_Header resp) ''Transfer-Encoding''\<rparr>)"

definition client_measure :: "'c body response \<Rightarrow> 'c body response" where
  "client_measure resp =
     (let resp = (if rs_ContentLength resp = 0 then resp\<lparr>rs_Body := None\<rparr> else resp)
      in case rs_Body resp of
           None \<Rightarrow> resp
         | Some b \<Rightarrow>
             if rs_ContentLength resp = - 1 then
               (let (bs, err, b') = peek_body b;
                    resp = (if err = Some EOF then resp\<lparr>rs_ContentLength := int (length bs)\<rparr> else resp)
                in resp\<lparr>rs_Body := Some b'\<rparr>)
             else resp)"

definition client_delimit :: "'b response \<Rightarrow> 'b response" where
  "client_delimit resp =
     (if rs_ContentLength resp < 0 \<and> \<not> rs_Close resp then
        (if rs_ProtoMajor resp = 1 \<and> rs_ProtoMinor resp = 1
         then resp\<lparr>rs_TransferEncoding := [''chunked'']\<rparr>
         else resp\<lparr>rs_TransferEncoding := [''identity''], rs_Close := True\<rparr>)
      else resp)"

definition client_frame :: "'c body response \<Rightarrow> 'c body response" where
  "client_frame resp = client_delimit (client_measure (client_strip resp))"

type_synonym ('c, 'conn, 'w) resp_writer = "'c body response \<Rightarrow> 'conn \<Rightarrow> 'w \<Rightarrow> goerr option \<times> 'w"

definition client_Write ::
  "('c, 'conn, 'w) resp_writer \<Rightarrow> 'conn ClientConnProps \<Rightarrow> 'c body response \<Rightarrow> 'w \<Rightarrow>
     (goerr option \<times> 'c body response \<times> 'w) outcome" where
  "client_Write write client resp w =
     (let resp = client_frame resp
      in case cl_Conn client of
           None \<Rightarrow> Panic ''invalid memory address or nil pointer dereference''
         | Some conn \<Rightarrow> (let (err, w) = write resp conn w in Ret (err, resp, w)))"

definition client_Close :: "('conn \<Rightarrow> 'w close_fn) \<Rightarrow> 'conn ClientConnProps \<Rightarrow> 'w close_fn" where
  "client_Close cl client w =
     (case cl_Conn client of
        None \<Rightarrow> (None, w)
      | Some conn \<Rightarrow> cl conn w)"

subsection \<open>Reading a request\<close>

type_synonym ('c, 'conn, 'w) req_reader = "'conn \<Rightarrow> 'w \<Rightarrow> 'c body request option \<times> goerr option \<times> 'w"

definition client_Listen ::
  "('c, 'conn, 'w) req_reader \<Rightarrow> 'conn ClientConnProps \<Rightarrow> 'w \<Rightarrow>
     'c body request option \<times> goerr option \<times> 'w" where
  "client_Listen read client w =
     (case cl_Conn client of
        None \<Rightarrow> (None, Some (Err ''Conn is nil''), w)
      | Some conn \<Rightarrow>
          (let (request, err, w) = read conn w
           in case request of
                None \<Rightarrow> (None, if err = None then Some (Err ''Request is nil'') else err, w)
              | Some r \<Rightarrow>
                  (let u = rq_URL r;
                       u = (if url_Scheme u = [] then u\<lparr>url_Scheme := ''https''\<rparr> else u);
                       u = u\<lparr>url_Host := resolveRealHost u (rq_Host r)\<rparr>
                   in (Some (r\<lparr>rq_URL := u, rq_Host := []\<rparr>), err, w))))"

subsection \<open>Properties\<close>

text \<open>How the other side can tell where the body ends.\<close>

definition delimited :: "int \<Rightarrow> string list \<Rightarrow> bool \<Rightarrow> bool" where
  "delimited contentLength transferEncoding close \<longleftrightarrow>
     0 \<le> contentLength \<or> transferEncoding = [''chunked''] \<or> close"

definition hop_fields :: "string list" where
  "hop_fields = [''Connection'', ''Content-Length'', ''Transfer-Encoding'']"

lemma client_strip_simps [simp]:
  "rs_ContentLength (client_strip r) = rs_ContentLength r" "rs_Body (client_strip r) = rs_Body r"
  "rs_Close (client_strip r) = rs_Close r"
  by (simp_all add: client_strip_def)

lemma client_measure_simps [simp]:
  "rs_Header (client_measure r) = rs_Header r" "rs_Close (client_measure r) = rs_Close r"
  by (simp_all add: client_measure_def Let_def split: option.split prod.split)

lemma client_delimit_simps [simp]:
  "rs_Header (client_delimit r) = rs_Header r" "rs_Body (client_delimit r) = rs_Body r"
  "rs_ContentLength (client_delimit r) = rs_ContentLength r"
  by (simp_all add: client_delimit_def)

lemma client_delimit_delimited:
  "delimited (rs_ContentLength (client_delimit r)) (rs_TransferEncoding (client_delimit r))
     (rs_Close (client_delimit r))"
  by (auto simp: client_delimit_def delimited_def)

lemma client_strip_header:
  "hdr_values (rs_Header (client_strip r)) k =
     (if CanonicalHeaderKey k \<in> set hop_fields then [] else hdr_values (rs_Header r) k)"
  by (auto simp: client_strip_def hop_fields_def hdr_values_Del)

lemma client_measure_body:
  assumes "rs_ContentLength r \<noteq> 0" and "rs_Body r = Some b" and "reads_as (fst b) bs x"
  shows "\<exists>b'. rs_Body (client_measure r) = Some b' \<and> snd b' = snd b \<and> reads_as (fst b') bs x \<and>
    (rs_ContentLength (client_measure r) = rs_ContentLength r \<or>
     rs_ContentLength (client_measure r) = int (length bs))"
proof -
  obtain cs e b' where p: "peek_body b = (cs, e, b')" by (cases "peek_body b") auto
  from peek_body_reads [OF assms(3) p] have
    "reads_as (fst b') bs x" "snd b' = snd b" "e = Some EOF \<Longrightarrow> cs = bs" by auto
  with assms p show ?thesis 
    by (cases "e = Some EOF"; cases "rs_ContentLength r = - 1"; cases b; cases b')
       (simp_all add: client_measure_def)
qed


definition sample_response :: "unit body response" where
  "sample_response = zero_response
     \<lparr>rs_Body := Some (rdr_of src_read \<lparr>src_events = [(''abc'', Some EOF)], src_closed = False\<rparr>, ()),
      rs_ContentLength := - 1\<rparr>"


text \<open>(C35) The request a client connection delivers is complete: it has a scheme and a URL whose host
  is a host name and a port, the port of the \<open>Host\<close> header first, then the URL's, then the
  default of the scheme; the \<open>Host\<close> field is emptied, so that the URL decides from here on.  A
  request and an error are never both missing.\<close>

theorem client_Listen_complete:
  "(case client_Listen read client w of
      (None, e, w') \<Rightarrow> e \<noteq> None
    | (Some r, e, w') \<Rightarrow>
        url_Scheme (rq_URL r) \<noteq> [] \<and> rq_Host r = [] \<and>
        (\<exists>r0. fst (read (the (cl_Conn client)) w) = Some r0 \<and>
          (let (hh, hp) = SplitHostAndPort (rq_Host r0); (uh, up) = SplitHostAndPort (url_Host (rq_URL r0))
           in SplitHostAndPort (url_Host (rq_URL r)) =
             (if hh \<noteq> [] then hh else uh,
              if hp \<noteq> [] then hp else if up \<noteq> [] then up
              else default_port (url_Scheme (rq_URL r)))) \<and>
          rq_Header r = rq_Header r0 \<and> rq_Body r = rq_Body r0 \<and> rq_Method r = rq_Method r0))"
proof (cases "cl_Conn client")
  case None
  then show ?thesis by (simp add: client_Listen_def)
next
  case (Some conn)
  obtain r e w' where r: "read conn w = (r, e, w')" by (cases "read conn w") auto
  show ?thesis
  proof (cases r)
    case None
    with Some r show ?thesis by (simp add: client_Listen_def)
  next
    case (Some r0)
    with \<open>cl_Conn client = Some conn\<close> r show ?thesis
      by (simp add: client_Listen_def Let_def resolveRealHost_spec split: prod.split)
  qed
qed

end
