(* ===== verification/ServerConn.thy ===== *)
theory ServerConn
  imports ClientConn BodyReaders "HOL-Library.Word"
begin

text \<open>
  The connections to the servers one client talks to, \<open>ServerConnProps\<close> of
  \<open>proxy/serverConnProps.go\<close>: opening, reusing and closing them, sending a request and reading
  the response.

  The network is a script: the outcomes of the dials to come, and which connections are open.
  A connection is a number, new ones are numbered upwards.  \<open>nt_dialed\<close> and \<open>nt_written\<close> record
  what has been dialled and on which connections requests were written.
\<close>

subsection \<open>The network\<close>

type_synonym conn = nat

datatype dial_outcome = DialOk | DialErr goerr bool

text \<open>\<open>DialErr e b\<close> fails with \<open>e\<close>; \<open>b\<close> says whether a connection is returned all the same.\<close>

record net =
  nt_dials :: "dial_outcome list"
  nt_next :: conn
  nt_open :: "conn list"
  nt_dialed :: "(string \<times> bool) list"
  nt_written :: "conn list"

definition dial :: "string \<Rightarrow> bool \<Rightarrow> net \<Rightarrow> conn option \<times> goerr option \<times> net" where
  "dial addr tls nt =
     (let nt = nt\<lparr>nt_dialed := nt_dialed nt @ [(addr, tls)]\<rparr>;
          opened = nt\<lparr>nt_dials := tl (nt_dials nt), nt_next := Suc (nt_next nt),
                       nt_open := nt_open nt @ [nt_next nt]\<rparr>
      in case nt_dials nt of
           [] \<Rightarrow> (None, Some (Err ''i/o timeout''), nt)
         | DialOk # ds \<Rightarrow> (Some (nt_next nt), None, opened)
         | DialErr e False # ds \<Rightarrow> (None, Some e, nt\<lparr>nt_dials := ds\<rparr>)
         | DialErr e True # ds \<Rightarrow> (Some (nt_next nt), Some e, opened))"

definition conn_close :: "conn \<Rightarrow> net close_fn" where
  "conn_close c nt =
     (if c \<in> set (nt_open nt) then (None, nt\<lparr>nt_open := removeAll c (nt_open nt)\<rparr>)
      else (Some (Err ''use of closed network connection''), nt))"

subsection \<open>Dialling\<close>

text \<open>The cipher suites by their numbers in the TLS registry, in the order of the source.\<close>

definition allTlsCipherSuites :: "16 word list" where
  "allTlsCipherSuites =
     [0xc02f, 0xc030, 0xc02b, 0xc02c, 0xcca8, 0xcca9, 0xc013, 0xc009, 0xc014, 0xc00a, 0x009c, 0x009d,
      0x002f, 0x0035, 0xc012, 0x000a, 0x0005, 0x003c, 0xc007, 0xc011, 0xc023, 0xc027, 0x5600]"

definition createConn :: "url \<Rightarrow> net \<Rightarrow> conn option \<times> goerr option \<times> net" where
  "createConn dst nt =
     (let dstWithPort = insertPort dst;
          (server, err, nt) = dial (url_Host dstWithPort) (url_Scheme dst = ''https'') nt
      in if err \<noteq> None then
           (None, err, case server of None \<Rightarrow> nt | Some c \<Rightarrow> snd (conn_close c nt))
         else (server, err, nt))"

subsection \<open>The connections of a client\<close>

record ServerConnProps =
  sc_lastUsedTime :: int
  sc_MaxConns :: int
  sc_Conn :: "conn option"
  sc_Conns :: "(string \<times> conn) list option"
  sc_ResponseHeaderTimeout :: int
  sc_maxHeaderBytes :: int

text \<open>\<open>sc_Conns\<close> lists the map in the order it is walked; \<open>None\<close> is the nil map.\<close>

definition conns_of :: "ServerConnProps \<Rightarrow> (string \<times> conn) list" where
  "conns_of scp = (case sc_Conns scp of None \<Rightarrow> [] | Some cs \<Rightarrow> cs)"

lemma conns_of_simps [simp]:
  "conns_of (scp\<lparr>sc_Conns := Some cs\<rparr>) = cs"
  "conns_of (scp\<lparr>sc_Conn := co\<rparr>) = conns_of scp"
  "sc_Conns scp = Some cs \<Longrightarrow> conns_of scp = cs"
  "sc_Conns scp = None \<Longrightarrow> conns_of scp = []"
  by (simp_all add: conns_of_def)

fun close_conns :: "(string \<times> conn) list \<Rightarrow> goerr option \<Rightarrow> net \<Rightarrow> goerr option \<times> net" where
  "close_conns [] err nt = (err, nt)"
| "close_conns ((host, c) # cs) err nt =
     (let (newErr, nt) = conn_close c nt
      in close_conns cs (if err = None then newErr else err) nt)"

definition sc_close :: "ServerConnProps \<Rightarrow> net \<Rightarrow> goerr option \<times> ServerConnProps \<times> net" where
  "sc_close scp nt =
     (let (err, nt) = close_conns (conns_of scp) None nt
      in (err, scp\<lparr>sc_Conns := Some [], sc_Conn := None\<rparr>, nt))"

text \<open>\<open>Close\<close> is \<open>close\<close> with the lock held.\<close>

definition sc_Close :: "ServerConnProps \<Rightarrow> net \<Rightarrow> goerr option \<times> ServerConnProps \<times> net" where
  "sc_Close scp nt = sc_close scp nt"

definition host_key :: "url \<Rightarrow> string" where
  "host_key u = (let dst = insertPort u in url_Scheme dst @ ''://'' @ url_Host dst)"

definition make_conns :: "ServerConnProps \<Rightarrow> ServerConnProps" where
  "make_conns scp = (if sc_Conns scp = None then scp\<lparr>sc_Conns := Some []\<rparr> else scp)"

definition make_room :: "ServerConnProps \<Rightarrow> net \<Rightarrow> ServerConnProps \<times> net" where
  "make_room scp nt =
     (if int (length (conns_of scp)) > sc_MaxConns scp then snd (sc_close scp nt) else (scp, nt))"

definition sc_Open :: "ServerConnProps \<Rightarrow> 'b request \<Rightarrow> net \<Rightarrow> goerr option \<times> ServerConnProps \<times> net" where
  "sc_Open scp req nt =
     (let scp = make_conns scp;
          dst = insertPort (rq_URL req);
          host = host_key (rq_URL req)
      in case map_of (conns_of scp) host of
           Some server \<Rightarrow> (None, scp\<lparr>sc_Conn := Some server\<rparr>, nt)
         | None \<Rightarrow>
             (let (scp, nt) = make_room scp nt;
                  (server, err, nt) = createConn dst nt
              in if err \<noteq> None then (err, scp\<lparr>sc_Conn := None\<rparr>, nt)
                 else (None, scp\<lparr>sc_Conn := server, sc_Conns := Some (conns_of scp @ [(host, the server)])\<rparr>, nt)))"

subsection \<open>What opening and closing keep\<close>

text \<open>
  The invariant: \<open>base\<close> are the connections of others; every other open connection is in the map,
  under one key, and the map holds open connections only.  It bounds their number by one more
  than \<open>MaxConns\<close>, since \<open>Open\<close> empties the map only when it is larger.
\<close>

definition sc_inv :: "conn list \<Rightarrow> ServerConnProps \<Rightarrow> net \<Rightarrow> bool" where
  "sc_inv base scp nt \<longleftrightarrow>
     nt_open nt = base @ map snd (conns_of scp) \<and> distinct (base @ map snd (conns_of scp)) \<and>
     distinct (map fst (conns_of scp)) \<and> (\<forall>c \<in> set (nt_open nt). c < nt_next nt) \<and>
     int (length (conns_of scp)) \<le> max 0 (sc_MaxConns scp) + 1 \<and>
     (\<forall>c. sc_Conn scp = Some c \<longrightarrow> c \<in> snd ` set (conns_of scp))"

lemma conn_close_net:
  "snd (conn_close c nt) = nt\<lparr>nt_open := removeAll c (nt_open nt)\<rparr>"
  by (simp add: conn_close_def)

lemma close_conns_net:
  "snd (close_conns cs err nt) = nt\<lparr>nt_open := filter (\<lambda>c. c \<notin> snd ` set cs) (nt_open nt)\<rparr>"
proof (induction cs err nt rule: close_conns.induct)
  case (2 host c cs err nt)
  obtain e nt1 where c: "conn_close c nt = (e, nt1)" by (cases "conn_close c nt") auto
  then have nt1: "nt1 = nt\<lparr>nt_open := removeAll c (nt_open nt)\<rparr>" using conn_close_net [of c nt] by simp
  from 2 [OF c [symmetric] refl] show ?case
    by (simp add: c nt1 removeAll_filter_not_eq eq_commute [of c])
qed simp

lemma close_conns_errors:
  "(\<forall>c \<in> snd ` set cs. c \<in> set (nt_open nt)) \<Longrightarrow> distinct (map snd cs) \<Longrightarrow>
     fst (close_conns cs err nt) = err"
proof (induction cs err nt rule: close_conns.induct)
  case (2 host c cs err nt)
  then have c: "conn_close c nt = (None, nt\<lparr>nt_open := removeAll c (nt_open nt)\<rparr>)"
    by (simp add: conn_close_def)
  have "fst (close_conns cs (if err = None then None else err) (nt\<lparr>nt_open := removeAll c (nt_open nt)\<rparr>)) =
      (if err = None then None else err)"
    using 2(2,3) by (intro 2(1) [OF c [symmetric] refl]) auto
  then show ?case by (simp add: c split: if_splits)
qed simp

lemma sc_close_inv:
  assumes "sc_inv base scp nt" and "sc_close scp nt = (err, scp', nt')"
  shows "sc_inv base scp' nt'" "nt_open nt' = base" "conns_of scp' = []" "sc_Conn scp' = None"
    "sc_MaxConns scp' = sc_MaxConns scp" "nt' = nt\<lparr>nt_open := base\<rparr>" "err = None"
    "sc_Conns scp' = Some []"
proof -
  have d: "distinct (base @ map snd (conns_of scp))" using assms(1) by (simp add: sc_inv_def)
  then have "filter (\<lambda>c. c \<notin> snd ` set (conns_of scp)) (map snd (conns_of scp)) = []"
    by (auto simp: filter_empty_conv)
  moreover have "filter (\<lambda>c. c \<notin> snd ` set (conns_of scp)) base = base"
    using d by (intro filter_True) auto
  ultimately have "filter (\<lambda>c. c \<notin> snd ` set (conns_of scp)) (nt_open nt) = base"
    using assms(1) by (simp add: sc_inv_def)
  with close_conns_net [of "conns_of scp" None nt] assms(2) show nt': "nt' = nt\<lparr>nt_open := base\<rparr>"
    by (auto simp: sc_close_def split: prod.splits)
  from close_conns_errors [of "conns_of scp" nt None] assms d show "err = None"
    by (auto simp: sc_close_def sc_inv_def split: prod.splits)
  from assms(2) show scp': "conns_of scp' = []" "sc_Conn scp' = None"
    "sc_MaxConns scp' = sc_MaxConns scp" "sc_Conns scp' = Some []"
    by (auto simp: sc_close_def split: prod.splits)
  show "nt_open nt' = base" by (simp add: nt')
  show "sc_inv base scp' nt'" using assms(1) by (auto simp: sc_inv_def scp' nt')
qed

lemma createConn_cases:
  assumes "createConn dst nt = (server, err, nt')" and "\<forall>c \<in> set (nt_open nt). c < nt_next nt"
  obtains (Fail) e where "err = Some e" "server = None" "nt_open nt' = nt_open nt"
      "nt_next nt \<le> nt_next nt'" "nt_written nt' = nt_written nt"
      "nt_dialed nt' = nt_dialed nt @ [(url_Host (insertPort dst), url_Scheme dst = ''https'')]"
    | (Open) "err = None" "server = Some (nt_next nt)" "nt_open nt' = nt_open nt @ [nt_next nt]"
      "nt_next nt' = Suc (nt_next nt)" "nt_written nt' = nt_written nt"
      "nt_dialed nt' = nt_dialed nt @ [(url_Host (insertPort dst), url_Scheme dst = ''https'')]"
proof -
  have fresh: "removeAll (nt_next nt) (nt_open nt) = nt_open nt"
    using assms(2) by (intro removeAll_id) auto
  show thesis
  proof (cases "nt_dials nt")
    case Nil
    with Fail assms(1) show thesis by (auto simp: createConn_def dial_def)
  next
    case (Cons d ds)
    show thesis
    proof (cases d)
      case DialOk
      with Cons Open assms(1) show thesis by (auto simp: createConn_def dial_def)
    next
      case (DialErr e b)
      with Cons Fail assms(1) fresh show thesis
        by (cases b) (auto simp: createConn_def dial_def conn_close_net)
    qed
  qed
qed

lemma sc_Open_step:
  assumes "sc_inv base scp nt" and "sc_Open scp req nt = (err, scp', nt')"
  shows "sc_inv base scp' nt' \<and> nt_written nt' = nt_written nt \<and> sc_MaxConns scp' = sc_MaxConns scp \<and>
    sc_Conns scp' \<noteq> None \<and>
    (case err of
       Some e \<Rightarrow> sc_Conn scp' = None
     | None \<Rightarrow> (\<exists>c. sc_Conn scp' = Some c \<and> map_of (conns_of scp') (host_key (rq_URL req)) = Some c)) \<and>
    nt_dialed nt' =
      (if map_of (conns_of scp) (host_key (rq_URL req)) = None
       then nt_dialed nt @ [(url_Host (insertPort (rq_URL req)), url_Scheme (rq_URL req) = ''https'')]
       else nt_dialed nt)"
proof -
  define scp0 where "scp0 = make_conns scp"
  have scp0: "conns_of scp0 = conns_of scp" "sc_Conn scp0 = sc_Conn scp" "sc_MaxConns scp0 = sc_MaxConns scp"
    "sc_Conns scp0 \<noteq> None"
    by (auto simp: scp0_def make_conns_def)
  with assms(1) have inv0: "sc_inv base scp0 nt" by (simp add: sc_inv_def)
  let ?dst = "insertPort (rq_URL req)" and ?host = "host_key (rq_URL req)"
  have scheme: "url_Scheme ?dst = url_Scheme (rq_URL req)" by (simp add: insertPort_def split: prod.split)
  show ?thesis
  proof (cases "map_of (conns_of scp) ?host")
    case (Some server)
    then have eq: "err = None" "scp' = scp0\<lparr>sc_Conn := Some server\<rparr>" "nt' = nt"
      using assms(2) scp0(1) by (simp_all add: sc_Open_def scp0_def Let_def)
    have "server \<in> snd ` set (conns_of scp0)"
      using Some scp0(1) by (auto dest: map_of_SomeD intro: image_eqI [of _ _ "(?host, server)"])
    with inv0 have "sc_inv base scp' nt'" by (simp add: sc_inv_def eq)
    with Some eq scp0 show ?thesis by simp
  next
    case None
    obtain scp1 nt1 where p: "make_room scp0 nt = (scp1, nt1)" by (cases "make_room scp0 nt") auto
    obtain server err1 nt2 where cc: "createConn ?dst nt1 = (server, err1, nt2)"
      by (cases "createConn ?dst nt1") auto
    obtain e2 scp2 nt3 where cl: "sc_close scp0 nt = (e2, scp2, nt3)" by (cases "sc_close scp0 nt") auto
    have one: "sc_inv base scp1 nt1 \<and> nt_written nt1 = nt_written nt \<and> nt_dialed nt1 = nt_dialed nt \<and>
        sc_MaxConns scp1 = sc_MaxConns scp \<and> sc_Conns scp1 \<noteq> None \<and>
        int (length (conns_of scp1)) \<le> max 0 (sc_MaxConns scp1) \<and> map_of (conns_of scp1) ?host = None"
    proof (cases "int (length (conns_of scp0)) > sc_MaxConns scp0")
      case True
      with p cl have "scp1 = scp2" "nt1 = nt3" by (simp_all add: make_room_def)
      with sc_close_inv [OF inv0 cl] scp0 show ?thesis by simp
    next
      case False
      with p have "scp1 = scp0" "nt1 = nt" by (simp_all add: make_room_def)
      with False inv0 scp0 None show ?thesis by simp
    qed
    have res: "(err, scp', nt') = (if err1 \<noteq> None then (err1, scp1\<lparr>sc_Conn := None\<rparr>, nt2)
        else (None, scp1\<lparr>sc_Conn := server, sc_Conns := Some (conns_of scp1 @ [(?host, the server)])\<rparr>, nt2))"
      using assms(2) None scp0(1) p cc by (simp add: sc_Open_def scp0_def)
    have lt: "\<forall>c \<in> set (nt_open nt1). c < nt_next nt1" using one by (simp add: sc_inv_def)
    from cc lt show ?thesis
    proof (cases rule: createConn_cases)
      case (Fail e)
      have "\<forall>c \<in> set (nt_open nt1). c < nt_next nt2"
        using lt Fail(4) by (auto intro: less_le_trans)
      with Fail res one have "sc_inv base scp' nt'" by (auto simp: sc_inv_def)
      with res one Fail None show ?thesis by (simp add: scheme insertPort_idem)
    next
      case Open
      have "host_key (rq_URL req) \<notin> fst ` set (conns_of scp1)"
        using one by (simp add: map_of_eq_None_iff)
      with Open res one lt have "sc_inv base scp' nt'"
        by (auto simp: sc_inv_def intro: less_SucI)
      with res one Open None show ?thesis by (simp add: scheme insertPort_idem map_add_def)
    qed
  qed
qed

subsection \<open>Reading a response\<close>

text \<open>The resources a body can close (\<open>RNil\<close> is a nil closer, closing it panics; the last is a reader
  of a throttle controller), and the decoders
  the code calls: \<open>gzip.NewReader\<close> and
  \<open>brotli.NewReader\<close> may fail, having read something of the body.\<close>

datatype res = RBody | RConn conn | RNil | RGzip | RFlate | RBrotli | RThrottle nat

type_synonym rbody = "rdr \<times> res closer"

record decoders =
  dec_gzip :: "rdr \<Rightarrow> (goerr \<times> rdr) + rdr"
  dec_flate :: "rdr \<Rightarrow> rdr"
  dec_brotli :: "rdr \<Rightarrow> (goerr \<times> rdr) + rdr"

definition decoded :: "rbody response \<Rightarrow> rdr \<Rightarrow> res \<Rightarrow> res closer \<Rightarrow> rbody response" where
  "decoded resp ob dec c =
     resp\<lparr>rs_Body := Some (ob, CloseBoth (CloseOf dec) c),
          rs_Header := hdr_Del (rs_Header resp) ''Content-Encoding'', rs_ContentLength := - 1\<rparr>"

text \<open>The \<open>switch\<close> over the content encoding; a body is never nil in a response that was read.\<close>

definition decode_body :: "decoders \<Rightarrow> rbody response \<Rightarrow> goerr option \<Rightarrow> rbody response \<times> goerr option" where
  "decode_body dec resp err =
     (case rs_Body resp of
        None \<Rightarrow> (resp, err)
      | Some (ob, c) \<Rightarrow>
          let enc = hdr_Get (rs_Header resp) ''Content-Encoding''
          in if enc = ''gzip'' then
               (case dec_gzip dec ob of
                  Inl (e, ob) \<Rightarrow> (resp\<lparr>rs_Body := Some (ob, c)\<rparr>, Some e)
                | Inr z \<Rightarrow> (decoded resp z RGzip c, None))
             else if enc = ''deflate'' then (decoded resp (dec_flate dec ob) RFlate c, err)
             else if enc = ''br'' then
               (case dec_brotli dec ob of
                  Inl (e, ob) \<Rightarrow> (resp\<lparr>rs_Body := Some (ob, c)\<rparr>, Some e)
                | Inr z \<Rightarrow> (decoded resp z RBrotli c, None))
             else (resp, err))"

definition chunk_unknown :: "rbody response \<Rightarrow> rbody response" where
  "chunk_unknown resp =
     (if rs_ContentLength resp = - 1 \<and> \<not> contains (rs_TransferEncoding resp) ''chunked'' \<and> \<not> rs_Close resp
      then resp\<lparr>rs_TransferEncoding := [''chunked'']\<rparr> else resp)"

definition close_with_conn :: "conn option \<Rightarrow> rbody response \<Rightarrow> rbody response" where
  "close_with_conn conn resp =
     (let closer = CloseOf (case conn of None \<Rightarrow> RNil | Some c \<Rightarrow> RConn c)
      in if rs_Close resp
         then resp\<lparr>rs_Body := map_option (\<lambda>(ob, c). (ob, CloseBoth c closer)) (rs_Body resp)\<rparr>
         else resp)"

text \<open>\<open>Listen\<close>, given what \<open>http.ReadResponse\<close> returned; \<open>scp\<close> is the state at that time, in which the
  current connection may be gone.\<close>

definition sc_Listen ::
  "decoders \<Rightarrow> ServerConnProps \<Rightarrow> rbody response option \<times> goerr option \<Rightarrow>
     rbody response option \<times> goerr option" where
  "sc_Listen dec scp rr =
     (case rr of
        (None, err) \<Rightarrow> (None, err)
      | (Some resp, err) \<Rightarrow>
          (let (resp, err) = decode_body dec resp err
           in (Some (close_with_conn (sc_Conn scp) (chunk_unknown resp)), err)))"

subsection \<open>One exchange\<close>

text \<open>
  \<open>tryRoundTrip\<close> after \<open>Open\<close>: a writer and a listener that run concurrently, and the timer the
  writer starts.  \<open>cancelHandle\<close> wraps the timer's action in a \<open>sync.Once\<close> that the listener
  uses up.  An event is one atomic step of one of them: what they do under the lock, or what
  the network gave them.  \<open>BeginWrite\<close> and \<open>BeginRead\<close> are the calls of \<open>Request.Write\<close> and
  \<open>http.ReadResponse\<close>, which fetch the current connection; \<open>Write err used\<close> is the result of the
  write and whether it read the body.

  The three locks and the \<open>WaitGroup\<close> appear only as the atomicity of the events and as the end of
  the exchange when both goroutines are done; that a goroutine waits for a lock or for the network
  is its next event not having come yet.  A write leaves the body of the request as it is in the
  model; only whether it was read is kept, as in \<open>ReadCloserStats\<close>.
\<close>

datatype writer = WStart | WWrite | WClose | WTimer | WDone
datatype listener = LStart | LRead | LCancel | LClose | LDone

record rt =
  rt_scp :: ServerConnProps
  rt_net :: net
  rt_writer :: writer
  rt_target :: conn
  rt_listener :: listener
  rt_timer :: bool
  rt_once :: bool
  rt_used :: bool
  rt_resp :: "rbody response option"
  rt_errR :: "goerr option"
  rt_panic :: bool

datatype rt_event =
  BeginWrite
| BeginRead
| Write "goerr option" bool
| WriterClose
| StartTimer
| Fire
| ReadResponse "rbody response option" "goerr option"
| Cancel
| ListenerClose

definition rt_start :: "ServerConnProps \<Rightarrow> net \<Rightarrow> rt" where
  "rt_start scp nt =
     \<lparr>rt_scp = scp, rt_net = nt, rt_writer = WStart, rt_target = 0, rt_listener = LStart, rt_timer = False,
      rt_once = False, rt_used = False, rt_resp = None, rt_errR = None, rt_panic = False\<rparr>"

definition rt_close :: "rt \<Rightarrow> rt" where
  "rt_close st = (let (err, scp, nt) = sc_Close (rt_scp st) (rt_net st) in st\<lparr>rt_scp := scp, rt_net := nt\<rparr>)"

text \<open>\<open>action\<close> and \<open>cancel\<close> of \<open>cancelHandle\<close>: whichever comes first is the one that runs.\<close>

definition once_action :: "rt \<Rightarrow> rt" where
  "once_action st = (if rt_once st then st else (rt_close st)\<lparr>rt_once := True\<rparr>)"

definition once_cancel :: "rt \<Rightarrow> rt" where
  "once_cancel st = st\<lparr>rt_once := True\<rparr>"

text \<open>\<open>Write\<close>: the connection is looked up under the lock, and then written to.\<close>

definition begin_write :: "rt \<Rightarrow> rt" where [simp]:
  "begin_write st =
     (case sc_Conn (rt_scp st) of
        None \<Rightarrow> st\<lparr>rt_panic := True\<rparr>
      | Some c \<Rightarrow> st\<lparr>rt_target := c, rt_writer := WWrite\<rparr>)"

definition end_write :: "goerr option \<Rightarrow> bool \<Rightarrow> rt \<Rightarrow> rt" where [simp]:
  "end_write err used st =
     st\<lparr>rt_net := (rt_net st)\<lparr>nt_written := nt_written (rt_net st) @ [rt_target st]\<rparr>, rt_used := rt_used st \<or> used\<rparr>"

fun rt_exec :: "decoders \<Rightarrow> rt_event \<Rightarrow> rt \<Rightarrow> rt option" where
  "rt_exec dec BeginWrite st =
     (if rt_writer st \<noteq> WStart then None else Some (begin_write st))"
| "rt_exec dec (Write err used) st =
     (if rt_writer st \<noteq> WWrite then None
      else Some ((end_write err used st)\<lparr>rt_writer := (if err \<noteq> None then WClose else WTimer)\<rparr>))"
| "rt_exec dec WriterClose st =
     (if rt_writer st \<noteq> WClose then None else Some ((rt_close st)\<lparr>rt_writer := WDone\<rparr>))"
| "rt_exec dec StartTimer st =
     (if rt_writer st \<noteq> WTimer then None else Some (st\<lparr>rt_timer := True, rt_writer := WDone\<rparr>))"
| "rt_exec dec Fire st =
     (if \<not> rt_timer st then None else Some ((once_action st)\<lparr>rt_timer := False\<rparr>))"
| "rt_exec dec BeginRead st =
     (if rt_listener st \<noteq> LStart then None
      else Some (if sc_Conn (rt_scp st) = None then st\<lparr>rt_panic := True\<rparr> else st\<lparr>rt_listener := LRead\<rparr>))"
| "rt_exec dec (ReadResponse resp err) st =
     (if rt_listener st \<noteq> LRead then None
      else let (resp, errR) = sc_Listen dec (rt_scp st) (resp, err)
           in Some (st\<lparr>rt_resp := resp, rt_errR := errR, rt_listener := LCancel\<rparr>))"
| "rt_exec dec Cancel st =
     (if rt_listener st \<noteq> LCancel then None
      else Some ((once_cancel st)\<lparr>rt_listener := (if rt_errR st \<noteq> None then LClose else LDone)\<rparr>))"
| "rt_exec dec ListenerClose st =
     (if rt_listener st \<noteq> LClose then None else Some ((rt_close st)\<lparr>rt_listener := LDone\<rparr>))"

text \<open>A panic in a goroutine ends the process, so nothing follows it.\<close>

fun rt_run :: "decoders \<Rightarrow> rt_event list \<Rightarrow> rt \<Rightarrow> rt option" where
  "rt_run dec [] st = Some st"
| "rt_run dec (e # es) st =
     (if rt_panic st then None
      else case rt_exec dec e st of None \<Rightarrow> None | Some st' \<Rightarrow> rt_run dec es st')"

definition rt_finished :: "rt \<Rightarrow> bool" where
  "rt_finished st \<longleftrightarrow> rt_writer st = WDone \<and> rt_listener st = LDone"

text \<open>The result of \<open>tryRoundTrip\<close> under a schedule: response, error of sending, error of the
  response, whether the body was used.  \<open>None\<close>: the schedule is none of a complete exchange.
  The error of \<open>Write\<close> stays in the goroutine's own variable, so the error of sending that is
  returned is \<open>Open\<close>'s, which is nil here.\<close>

type_synonym exchange_result = "rbody response option \<times> goerr option \<times> goerr option \<times> bool"

definition tryRoundTrip ::
  "decoders \<Rightarrow> (conn \<Rightarrow> string) \<Rightarrow> rt_event list \<Rightarrow> ServerConnProps \<Rightarrow> 'b request \<Rightarrow> net \<Rightarrow>
     (exchange_result \<times> 'b request \<times> ServerConnProps \<times> net) outcome option" where
  "tryRoundTrip dec remote sched scp req nt =
     (let (errS, scp, nt) = sc_Open scp req nt
      in if errS \<noteq> None then Some (Ret ((None, errS, None, False), req, scp, nt))
         else
           let req = (case sc_Conn scp of
                        None \<Rightarrow> req
                      | Some c \<Rightarrow>
                          if hdr_Get (rq_Header req) ''Remote-Address'' \<noteq> []
                          then req\<lparr>rq_Header := hdr_Set (rq_Header req) ''Remote-Address'' (remote c)\<rparr>
                          else req)
           in case rt_run dec sched (rt_start scp nt) of
                None \<Rightarrow> None
              | Some st \<Rightarrow>
                  if rt_panic st then Some (Panic ''invalid memory address or nil pointer dereference'')
                  else if rt_finished st
                  then Some (Ret ((rt_resp st, None, rt_errR st, rt_used st), req, rt_scp st, rt_net st))
                  else None)"

subsection \<open>RoundTrip\<close>

definition request_strip :: "'b request \<Rightarrow> 'b request" where
  "request_strip r =
     (let r = r\<lparr>rq_Header := hdr_Set (rq_Header r) ''Accept-Encoding'' ''identity, gzip, deflate, br''\<rparr>;
          r = r\<lparr>rq_Header := hdr_Del (rq_Header r) ''Connection''\<rparr>;
          r = r\<lparr>rq_Header := hdr_Del (rq_Header r) ''Content-Length''\<rparr>
      in r\<lparr>rq_Header := hdr_Del (rq_Header r) ''Transfer-Encoding''\<rparr>)"

lemma request_strip_URL [simp]: "rq_URL (request_strip r) = rq_URL r"
  by (simp add: request_strip_def)

definition request_measure :: "'c body request \<Rightarrow> 'c body request" where
  "request_measure r =
     (let r = (if rq_ContentLength r = 0 then r\<lparr>rq_Body := None\<rparr> else r)
      in case rq_Body r of
           None \<Rightarrow> r
         | Some b \<Rightarrow>
             if rq_ContentLength r = - 1 then
               (let (bs, err, b') = peek_body b;
                    r = (if err = Some EOF then r\<lparr>rq_ContentLength := int (length bs)\<rparr> else r)
                in r\<lparr>rq_Body := Some b'\<rparr>)
             else r)"

definition request_delimit :: "'b request \<Rightarrow> 'b request" where
  "request_delimit r =
     (if rq_ContentLength r < 0 \<and> \<not> rq_Close r then
        (if rq_ProtoMajor r = 1 \<and> rq_ProtoMinor r = 1
         then r\<lparr>rq_TransferEncoding := [''chunked'']\<rparr>
         else r\<lparr>rq_TransferEncoding := [''identity''], rq_Close := True\<rparr>)
      else r)"

definition request_frame :: "'c body request \<Rightarrow> 'c body request" where
  "request_frame r = request_delimit (request_measure (request_strip r))"

text \<open>The two attempts take a schedule each.  With a body the second attempt is made only when the
  first did not use the body (\<open>ReadCloserStats\<close>).\<close>

definition sc_RoundTrip ::
  "decoders \<Rightarrow> (conn \<Rightarrow> string) \<Rightarrow> rt_event list \<Rightarrow> rt_event list \<Rightarrow> ServerConnProps \<Rightarrow>
     'c body request option \<Rightarrow> net \<Rightarrow>
     ((rbody response option \<times> goerr option) \<times> 'c body request option \<times> ServerConnProps \<times> net) outcome option" where
  "sc_RoundTrip dec remote sched1 sched2 scp request nt =
     (case request of
        None \<Rightarrow> Some (Ret ((None, Some (Err ''request is nil'')), None, scp, nt))
      | Some r0 \<Rightarrow>
          let r = request_frame r0;
              result = (\<lambda>(resp, errS, errR, used) r scp nt.
                Some (Ret ((resp, if errS \<noteq> None then errS else errR), Some r, scp, nt)))
          in case tryRoundTrip dec remote sched1 scp r nt of
               None \<Rightarrow> None
             | Some (Panic m) \<Rightarrow> Some (Panic m)
             | Some (Ret ((resp, errS, errR, used), r, scp, nt)) \<Rightarrow>
                 if errS \<noteq> None \<and> (rq_Body r = None \<or> \<not> used) then
                   (case tryRoundTrip dec remote sched2 scp r nt of
                      None \<Rightarrow> None
                    | Some (Panic m) \<Rightarrow> Some (Panic m)
                    | Some (Ret (res, r, scp, nt)) \<Rightarrow> result res r scp nt)
                 else result (resp, errS, errR, used) r scp nt)"

subsection \<open>What an exchange does to the connections\<close>

lemma rt_close_eq:
  "sc_close (rt_scp st) (rt_net st) = (err, scp, nt) \<Longrightarrow> rt_close st = st\<lparr>rt_scp := scp, rt_net := nt\<rparr>"
  by (simp add: rt_close_def sc_Close_def)

lemma rt_close_simps [simp]:
  "rt_writer (rt_close st) = rt_writer st" "rt_listener (rt_close st) = rt_listener st"
  "rt_errR (rt_close st) = rt_errR st" "rt_once (rt_close st) = rt_once st"
  "rt_panic (rt_close st) = rt_panic st" "rt_timer (rt_close st) = rt_timer st"
  "rt_used (rt_close st) = rt_used st"
  by (simp_all add: rt_close_def split: prod.split)

lemma once_action_simps [simp]:
  "rt_writer (once_action st) = rt_writer st" "rt_listener (once_action st) = rt_listener st"
  "rt_errR (once_action st) = rt_errR st" "rt_once (once_action st)" "rt_panic (once_action st) = rt_panic st"
  by (simp_all add: once_action_def)

lemma rt_once_close: "rt_once st \<Longrightarrow> once_action st = st"
  by (simp add: once_action_def)

text \<open>A state of an exchange in which nothing has gone wrong so far.\<close>

definition unread :: "rt \<Rightarrow> bool" where
  "unread st \<longleftrightarrow> rt_listener st = LStart \<or> rt_listener st = LRead"

definition unwritten :: "rt \<Rightarrow> bool" where
  "unwritten st \<longleftrightarrow> rt_writer st = WStart \<or> rt_writer st = WWrite"

definition healthy :: "ServerConnProps \<Rightarrow> net \<Rightarrow> rt \<Rightarrow> bool" where
  "healthy scp nt st \<longleftrightarrow>
     rt_scp st = scp \<and> nt_open (rt_net st) = nt_open nt \<and> \<not> rt_panic st \<and> rt_writer st \<noteq> WClose \<and>
     (rt_listener st = LClose \<longrightarrow> rt_errR st \<noteq> None) \<and> (unread st \<longrightarrow> rt_errR st = None)"

lemma rt_exec_errR:
  "rt_exec dec e st = Some st' \<Longrightarrow> \<not> unread st \<Longrightarrow> rt_errR st' = rt_errR st \<and> \<not> unread st'"
  by (cases e) (auto simp: unread_def once_cancel_def split: if_splits option.splits)

lemma rt_run_errR:
  "rt_run dec es st = Some st' \<Longrightarrow> \<not> unread st \<Longrightarrow> rt_errR st' = rt_errR st"
  by (induction es arbitrary: st) (auto dest: rt_exec_errR split: if_splits option.splits)

lemma rt_exec_once: "rt_exec dec e st = Some st' \<Longrightarrow> rt_once st \<Longrightarrow> rt_once st'"
  by (cases e) (auto simp: once_cancel_def split: if_splits option.splits outcome.splits prod.splits)

definition write_failed :: "rt_event \<Rightarrow> bool" where
  "write_failed e \<longleftrightarrow> (case e of Write (Some x) u \<Rightarrow> True | _ \<Rightarrow> False)"

lemma healthy_exec:
  assumes "rt_exec dec e st = Some st'" and "healthy scp nt st" and "sc_Conn scp = Some c"
    and "\<not> write_failed e" and "e = Fire \<longrightarrow> rt_once st" and "rt_listener st = LClose \<longrightarrow> e \<noteq> ListenerClose"
  shows "healthy scp nt st'"
proof (cases e)
  case (Write err used)
  with assms(4) have "err = None" by (cases err) (simp_all add: write_failed_def)
  with Write assms show ?thesis by (auto simp: healthy_def unread_def split: if_splits)
next
  case (ReadResponse resp err)
  with assms show ?thesis
    by (auto simp: healthy_def unread_def split: if_splits prod.splits)
qed (use assms in \<open>auto simp: healthy_def unread_def once_cancel_def rt_once_close split: if_splits\<close>)

lemma healthy_run:
  assumes "rt_run dec es st = Some st'" and "healthy scp nt st" and "sc_Conn scp = Some c"
    and "\<forall>e \<in> set es. \<not> write_failed e" and "rt_once st \<or> Fire \<notin> set (takeWhile (\<lambda>e. e \<noteq> Cancel) es)"
    and "rt_errR st' = None"
  shows "healthy scp nt st'"
  using assms
proof (induction es arbitrary: st)
  case (Cons e es)
  from Cons.prems(1) obtain st1 where st1: "rt_exec dec e st = Some st1" "rt_run dec es st1 = Some st'"
    by (auto split: if_splits option.splits)
  have fire: "e = Fire \<longrightarrow> rt_once st" using Cons.prems(5) by auto
  have "rt_listener st \<noteq> LClose"
  proof
    assume l: "rt_listener st = LClose"
    then have "rt_errR st \<noteq> None" using Cons.prems(2) by (simp add: healthy_def)
    with rt_run_errR [OF Cons.prems(1)] l Cons.prems(6) show False by (simp add: unread_def)
  qed
  then have h: "healthy scp nt st1"
    using healthy_exec [OF st1(1) Cons.prems(2,3) _ fire] Cons.prems(4) by simp
  have "rt_once st1 \<or> Fire \<notin> set (takeWhile (\<lambda>e. e \<noteq> Cancel) es)"
  proof (cases "e = Cancel")
    case True
    with st1(1) show ?thesis by (auto simp: once_cancel_def split: if_splits)
  next
    case False
    with Cons.prems(5) rt_exec_once [OF st1(1)] show ?thesis by auto
  qed
  with Cons.IH [OF st1(2) h Cons.prems(3)] Cons.prems(4,6) show ?case by simp
qed simp

text \<open>Whatever happens, the connections stay consistent, and a request is written at most once.\<close>

definition rt_inv :: "conn list \<Rightarrow> conn list \<Rightarrow> rt \<Rightarrow> bool" where
  "rt_inv base written st \<longleftrightarrow> sc_inv base (rt_scp st) (rt_net st) \<and>
     (if unwritten st then nt_written (rt_net st) = written
      else \<exists>c. nt_written (rt_net st) = written @ [c]) \<and>
     (rt_used st \<longrightarrow> \<not> unwritten st)"

lemma rt_inv_close:
  assumes "rt_inv base written st"
  shows "rt_inv base written (rt_close st)"
proof -
  obtain err scp nt where c: "sc_close (rt_scp st) (rt_net st) = (err, scp, nt)"
    by (cases "sc_close (rt_scp st) (rt_net st)") auto
  from assms have "sc_inv base (rt_scp st) (rt_net st)" by (simp add: rt_inv_def)
  from sc_close_inv [OF this c] assms show ?thesis by (simp add: rt_close_eq [OF c] rt_inv_def unwritten_def)
qed

lemma rt_inv_fields:
  "rt_inv base written st \<Longrightarrow> \<not> unwritten st \<Longrightarrow> \<not> unwritten (st\<lparr>rt_writer := w\<rparr>) \<Longrightarrow>
     rt_inv base written (st\<lparr>rt_writer := w\<rparr>)"
  "rt_inv base written st \<Longrightarrow> rt_inv base written (st\<lparr>rt_once := b\<rparr>)"
  "rt_inv base written st \<Longrightarrow> rt_inv base written (st\<lparr>rt_timer := b\<rparr>)"
  "rt_inv base written st \<Longrightarrow> rt_inv base written (st\<lparr>rt_listener := l\<rparr>)"
  "rt_inv base written st \<Longrightarrow> rt_inv base written (st\<lparr>rt_panic := b\<rparr>)"
  "rt_inv base written st \<Longrightarrow> rt_inv base written (st\<lparr>rt_resp := r, rt_errR := x\<rparr>)"
  by (simp_all add: rt_inv_def unwritten_def)

lemma rt_inv_exec:
  assumes "rt_exec dec e st = Some st'" and "rt_inv base written st"
  shows "rt_inv base written st'"
proof (cases e)
  case BeginWrite
  with assms show ?thesis by (auto simp: rt_inv_def unwritten_def split: if_splits option.splits)
next
  case BeginRead
  with assms show ?thesis by (auto simp: rt_inv_def unwritten_def split: if_splits)
next
  case (Write err used)
  with assms have st': "rt_scp st' = rt_scp st" "\<not> unwritten st'" "unwritten st"
    "rt_net st' = (rt_net st)\<lparr>nt_written := nt_written (rt_net st) @ [rt_target st]\<rparr>"
    by (auto simp: unwritten_def split: if_splits)
  with assms(2) show ?thesis by (simp add: rt_inv_def sc_inv_def)
next
  case WriterClose
  with assms rt_inv_close [OF assms(2)] show ?thesis
    by (auto simp: unwritten_def intro!: rt_inv_fields split: if_splits)
next
  case StartTimer
  with assms show ?thesis by (auto simp: rt_inv_def unwritten_def split: if_splits)
next
  case Fire
  with assms rt_inv_close [OF assms(2)] show ?thesis
    by (auto simp: once_action_def intro!: rt_inv_fields split: if_splits)
next
  case (ReadResponse resp err)
  with assms show ?thesis
    by (auto simp: rt_inv_def unwritten_def split: if_splits prod.splits)
next
  case Cancel
  with assms show ?thesis by (auto simp: once_cancel_def intro!: rt_inv_fields split: if_splits)
next
  case ListenerClose
  with assms rt_inv_close [OF assms(2)] show ?thesis by (auto intro!: rt_inv_fields split: if_splits)
qed

lemma rt_inv_run:
  "rt_run dec es st = Some st' \<Longrightarrow> rt_inv base written st \<Longrightarrow> rt_inv base written st'"
  by (induction es arbitrary: st) (auto dest: rt_inv_exec split: if_splits option.splits)

lemma tryRoundTrip_inv:
  assumes "tryRoundTrip dec remote sched scp r nt = Some (Ret ((resp, errS, errR, used), r', scp', nt'))"
    and "sc_inv base scp nt"
  shows "sc_inv base scp' nt' \<and> errS = fst (sc_Open scp r nt) \<and> rq_Body r' = rq_Body r \<and>
    (if errS = None then \<exists>c. nt_written nt' = nt_written nt @ [c]
     else nt_written nt' = nt_written nt \<and> \<not> used \<and> resp = None)"
proof -
  obtain err scp1 nt1 where o: "sc_Open scp r nt = (err, scp1, nt1)" by (cases "sc_Open scp r nt") auto
  note opened = sc_Open_step [OF assms(2) o]
  show ?thesis
  proof (cases err)
    case (Some e)
    with assms(1) o opened show ?thesis by (auto simp: tryRoundTrip_def)
  next
    case None
    with assms(1) o obtain st where st: "rt_run dec sched (rt_start scp1 nt1) = Some st" "rt_finished st"
      "scp' = rt_scp st" "nt' = rt_net st" "errS = None"
      by (auto simp: tryRoundTrip_def Let_def split: option.splits if_splits)
    have "rt_inv base (nt_written nt) (rt_start scp1 nt1)"
      using opened by (simp add: rt_inv_def rt_start_def unwritten_def)
    from rt_inv_run [OF st(1) this] st(2-5) have "sc_inv base scp' nt'" "\<exists>c. nt_written nt' = nt_written nt @ [c]"
      by (simp_all add: rt_inv_def rt_finished_def unwritten_def)
    moreover have "rq_Body r' = rq_Body r"
      using assms(1) o None by (auto simp: tryRoundTrip_def Let_def split: option.splits if_splits)
    ultimately show ?thesis using st(5) o None by simp
  qed
qed

subsection \<open>Properties\<close>

definition new_server :: "int \<Rightarrow> ServerConnProps" where
  "new_server timeout =
     \<lparr>sc_lastUsedTime = 0, sc_MaxConns = 5, sc_Conn = None, sc_Conns = None,
      sc_ResponseHeaderTimeout = timeout, sc_maxHeaderBytes = 0\<rparr>"

datatype pool_op = PoolOpen url | PoolClose

definition url_request :: "url \<Rightarrow> unit body request" where
  "url_request u =
     \<lparr>rq_Method = ''GET'', rq_URL = u, rq_Proto = ''HTTP/1.1'', rq_ProtoMajor = 1, rq_ProtoMinor = 1,
      rq_Header = Map.empty, rq_Body = None, rq_ContentLength = 0, rq_TransferEncoding = [],
      rq_Close = False, rq_Host = [], rq_RemoteAddr = [], rq_RequestURI = []\<rparr>"

fun pool_run :: "pool_op list \<Rightarrow> ServerConnProps \<Rightarrow> net \<Rightarrow> ServerConnProps \<times> net" where
  "pool_run [] scp nt = (scp, nt)"
| "pool_run (PoolOpen u # ops) scp nt = (let (e, scp, nt) = sc_Open scp (url_request u) nt in pool_run ops scp nt)"
| "pool_run (PoolClose # ops) scp nt = (let (e, scp, nt) = sc_Close scp nt in pool_run ops scp nt)"

lemma pool_run_inv:
  assumes "sc_inv base scp nt" and "pool_run ops scp nt = (scp', nt')"
  shows "sc_inv base scp' nt' \<and> sc_MaxConns scp' = sc_MaxConns scp"
  using assms
proof (induction ops scp nt rule: pool_run.induct)
  case (2 u ops scp nt)
  obtain e scp1 nt1 where o: "sc_Open scp (url_request u) nt = (e, scp1, nt1)"
    by (cases "sc_Open scp (url_request u) nt") auto
  from sc_Open_step [OF 2(2) o] 2(1) [OF o [symmetric] refl] 2(3) o show ?case by simp
next
  case (3 ops scp nt)
  obtain e scp1 nt1 where c: "sc_close scp nt = (e, scp1, nt1)" by (cases "sc_close scp nt") auto
  from sc_close_inv [OF 3(2) c] 3(1) [of "(e, scp1, nt1)"] 3(3) c show ?case by (simp add: sc_Close_def)
qed simp

lemma new_server_inv:
  assumes "distinct (nt_open nt)" and "\<forall>c \<in> set (nt_open nt). c < nt_next nt"
  shows "sc_inv (nt_open nt) (new_server t) nt"
  using assms by (simp add: sc_inv_def new_server_def conns_of_def)

text \<open>(C10) No connection to a server is ever lost: after any sequence of opening and closing, with any
  outcomes of the dials, the open connections are those of others and the ones in the map, one
  per server and at most six of them (one more than \<open>MaxConns\<close>), and \<open>Close\<close> then closes every
  one of them without an error.\<close>

theorem pool_bounded:
  assumes "distinct (nt_open nt)" and "\<forall>c \<in> set (nt_open nt). c < nt_next nt"
    and "pool_run ops (new_server t) nt = (scp', nt')"
  shows "nt_open nt' = nt_open nt @ map snd (conns_of scp') \<and> distinct (map fst (conns_of scp')) \<and>
    length (conns_of scp') \<le> 6 \<and>
    (\<exists>scp''. sc_Close scp' nt' = (None, scp'', nt'\<lparr>nt_open := nt_open nt\<rparr>))"
proof -
  from pool_run_inv [OF new_server_inv [OF assms(1,2)] assms(3)]
  have inv: "sc_inv (nt_open nt) scp' nt'" and m: "sc_MaxConns scp' = 5"
    by (simp_all add: new_server_def)
  obtain e scp'' nt'' where c: "sc_close scp' nt' = (e, scp'', nt'')" by (cases "sc_close scp' nt'") auto
  from sc_close_inv [OF inv c] c have "sc_Close scp' nt' = (None, scp'', nt'\<lparr>nt_open := nt_open nt\<rparr>)"
    by (simp add: sc_Close_def)
  with inv m show ?thesis by (auto simp: sc_inv_def)
qed

definition sample_url :: "string \<Rightarrow> url" where
  "sample_url h = \<lparr>url_Scheme = ''http'', url_Opaque = [], url_User = None, url_Host = h, url_Path = [],
     url_RawPath = [], url_ForceQuery = False, url_RawQuery = [], url_Fragment = []\<rparr>"

definition sample_net :: net where
  "sample_net = \<lparr>nt_dials = replicate 8 DialOk, nt_next = 3, nt_open = [1], nt_dialed = [], nt_written = []\<rparr>"

text \<open>The witness opens six servers: the limit of five lets a sixth connection in.\<close>

lemma pool_six:
  "map snd (conns_of (fst (pool_run (map (\<lambda>c. PoolOpen (sample_url [c])) ''abcdef'') (new_server 30) sample_net))) =
     [3, 4, 5, 6, 7, 8]"
  by (simp add: new_server_def sample_net_def sample_url_def url_request_def sc_Open_def make_conns_def
      make_room_def createConn_def dial_def host_key_def insertPort_def SplitHostAndPort_def numeral_eq_Suc)

theorem pool_bounded_witness:
  "length (conns_of (fst (pool_run (map (\<lambda>c. PoolOpen (sample_url [c])) ''abcdef'') (new_server 30) sample_net))) \<le> 6"
proof -
  obtain scp' nt' where r:
    "pool_run (map (\<lambda>c. PoolOpen (sample_url [c])) ''abcdef'') (new_server 30) sample_net = (scp', nt')"
    by fastforce
  show ?thesis
    unfolding r fst_conv
    using pool_bounded [OF _ _ r] by (simp add: sample_net_def)
qed

text \<open>Requests to the same server share its connection: once \<open>Open\<close> has succeeded, opening again for
  any URL with the same scheme, host and port (given or default) dials nothing and changes
  nothing; a first request dials exactly once, the completed address, with TLS exactly for
  \<open>https\<close>.\<close>

theorem sc_Open_reuses:
  assumes "sc_inv base scp nt" and "sc_Open scp req nt = (None, scp', nt')"
    and "host_key (rq_URL req') = host_key (rq_URL req)"
  shows "sc_Open scp' req' nt' = (None, scp', nt') \<and>
    nt_dialed nt' =
      (if map_of (conns_of scp) (host_key (rq_URL req)) = None
       then nt_dialed nt @ [(url_Host (insertPort (rq_URL req)), url_Scheme (rq_URL req) = ''https'')]
       else nt_dialed nt)"
proof -
  from sc_Open_step [OF assms(1,2)] obtain c where
    "sc_Conn scp' = Some c" "map_of (conns_of scp') (host_key (rq_URL req)) = Some c"
    "sc_Conns scp' \<noteq> None" by auto
  moreover from this(3) have "make_conns scp' = scp'" by (auto simp: make_conns_def)
  ultimately show ?thesis
    using sc_Open_step [OF assms(1,2)] assms(3) by (simp add: sc_Open_def)
qed

lemma sample_inv: "sc_inv [1] (new_server 30) sample_net"
  by (simp add: sc_inv_def new_server_def sample_net_def)

lemma sample_open:
  "sc_Open (new_server 30) (url_request (sample_url ''a'')) sample_net =
     (None, (new_server 30)\<lparr>sc_Conn := Some 3, sc_Conns := Some [(''http://a:80'', 3)]\<rparr>,
      sample_net\<lparr>nt_dials := replicate 7 DialOk, nt_next := 4, nt_open := [1, 3], nt_dialed := [(''a:80'', False)]\<rparr>)"
  by (simp add: new_server_def sample_net_def sample_url_def url_request_def sc_Open_def make_conns_def
      make_room_def createConn_def dial_def host_key_def insertPort_def SplitHostAndPort_def numeral_eq_Suc)

theorem sc_Open_reuses_witness:
  "sc_Open ((new_server 30)\<lparr>sc_Conn := Some 3, sc_Conns := Some [(''http://a:80'', 3)]\<rparr>)
     (url_request (sample_url ''a:80''))
     (sample_net\<lparr>nt_dials := replicate 7 DialOk, nt_next := 4, nt_open := [1, 3], nt_dialed := [(''a:80'', False)]\<rparr>) =
   (None, (new_server 30)\<lparr>sc_Conn := Some 3, sc_Conns := Some [(''http://a:80'', 3)]\<rparr>,
    sample_net\<lparr>nt_dials := replicate 7 DialOk, nt_next := 4, nt_open := [1, 3], nt_dialed := [(''a:80'', False)]\<rparr>)"
  by (rule sc_Open_reuses [OF sample_inv sample_open, THEN conjunct1])
     (simp add: url_request_def sample_url_def host_key_def insertPort_def SplitHostAndPort_def)

text \<open>A response that \<open>Listen\<close> returns without an error.\<close>

definition listen_ok :: "decoders \<Rightarrow> rt_event \<Rightarrow> bool" where
  "listen_ok dec e =
     (case e of
        ReadResponse None err \<Rightarrow> err = None
      | ReadResponse (Some resp) err \<Rightarrow> snd (decode_body dec resp err) = None
      | _ \<Rightarrow> True)"

lemma rt_run_errR_None:
  "rt_run dec es st = Some st' \<Longrightarrow> \<forall>e \<in> set es. listen_ok dec e \<Longrightarrow> rt_errR st = None \<Longrightarrow> rt_errR st' = None"
proof (induction es arbitrary: st)
  case (Cons e es)
  then obtain st1 where st1: "rt_exec dec e st = Some st1" "rt_run dec es st1 = Some st'"
    by (auto split: if_splits option.splits)
  have "rt_errR st1 = None"
    using st1(1) Cons.prems(2,3)
    by (cases e) (auto simp: listen_ok_def sc_Listen_def once_cancel_def
        split: if_splits option.splits prod.splits)
  with Cons.IH [OF st1(2)] Cons.prems(2) show ?case by simp
qed simp

text \<open>(C8) When nothing goes wrong nothing is closed: in every interleaving of the writer, the listener
  and the timer in which the request is written, the response is read and decoded, and the timer
  fires, if at all, only after the headers have arrived, the exchange does not panic, returns
  no error, and leaves every connection open and the current one current.\<close>

theorem tryRoundTrip_healthy:
  assumes "sc_inv base scp nt" and "sc_Open scp r nt = (None, scp1, nt1)"
    and "tryRoundTrip dec remote sched scp r nt = Some res"
    and "\<forall>e \<in> set sched. \<not> write_failed e \<and> listen_ok dec e"
    and "Fire \<notin> set (takeWhile (\<lambda>e. e \<noteq> Cancel) sched)"
  shows "\<exists>resp used r' nt'. res = Ret ((resp, None, None, used), r', scp1, nt') \<and>
    nt_open nt' = nt_open nt1 \<and> (\<exists>c. sc_Conn scp1 = Some c \<and> c \<in> set (nt_open nt'))"
proof -
  from sc_Open_step [OF assms(1,2)] obtain c where c: "sc_inv base scp1 nt1" "sc_Conn scp1 = Some c" by auto
  from assms(2,3) obtain st where st: "rt_run dec sched (rt_start scp1 nt1) = Some st"
    and cases: "rt_panic st \<or> (rt_finished st \<and>
      (\<exists>r'. res = Ret ((rt_resp st, None, rt_errR st, rt_used st), r', rt_scp st, rt_net st)))"
    by (auto simp: tryRoundTrip_def Let_def split: option.splits if_splits)
  have errR: "rt_errR st = None"
    using rt_run_errR_None [OF st] assms(4) by (simp add: rt_start_def)
  have "healthy scp1 nt1 (rt_start scp1 nt1)" by (simp add: healthy_def rt_start_def unread_def)
  from healthy_run [OF st this c(2) _ _ errR] assms(4,5) have h: "healthy scp1 nt1 st" by simp
  have "c \<in> set (nt_open nt1)" using c by (auto simp: sc_inv_def)
  with cases h errR c(2) show ?thesis by (auto simp: healthy_def)
qed

lemma no_decoding:
  "hdr_Get (rs_Header resp) ''Content-Encoding'' = [] \<Longrightarrow> decode_body dec resp err = (resp, err)"
  by (simp add: decode_body_def split: option.split prod.split)

definition sample_resp :: "rbody response" where
  "sample_resp = zero_response\<lparr>rs_Body := Some (rdr_of string_read ''hello'', CloseOf RBody), rs_ContentLength := 5\<rparr>"

definition sample_dec :: decoders where
  "sample_dec = \<lparr>dec_gzip = (\<lambda>ob. Inl (Err ''gzip: invalid header'', ob)), dec_flate = (\<lambda>ob. ob),
     dec_brotli = (\<lambda>ob. Inr ob)\<rparr>"

lemma sample_resp_plain: "hdr_Get (rs_Header sample_resp) k = []"
  by (simp add: sample_resp_def zero_response_def hdr_Get_def hdr_values_def)

theorem tryRoundTrip_healthy_witness:
  "\<exists>resp used r' nt'. tryRoundTrip sample_dec (\<lambda>_. ''10.0.0.1:80'')
      [BeginWrite, BeginRead, Write None True, ReadResponse (Some sample_resp) None, StartTimer, Cancel, Fire]
      (new_server 30) (url_request (sample_url ''a'')) sample_net =
    Some (Ret ((resp, None, None, used), r',
      (new_server 30)\<lparr>sc_Conn := Some 3, sc_Conns := Some [(''http://a:80'', 3)]\<rparr>, nt')) \<and>
    nt_open nt' = [1, 3]"
proof -
  let ?es = "[BeginWrite, BeginRead, Write None True, ReadResponse (Some sample_resp) None, StartTimer, Cancel, Fire]"
  obtain res where res: "tryRoundTrip sample_dec (\<lambda>_. ''10.0.0.1:80'') ?es (new_server 30)
      (url_request (sample_url ''a'')) sample_net = Some res"
    by (simp add: tryRoundTrip_def sample_open rt_start_def sc_Listen_def no_decoding
        sample_resp_plain once_cancel_def once_action_def rt_finished_def)
  from tryRoundTrip_healthy [OF sample_inv sample_open res]
  obtain resp used r' nt' where "res = Ret ((resp, None, None, used), r',
      (new_server 30)\<lparr>sc_Conn := Some 3, sc_Conns := Some [(''http://a:80'', 3)]\<rparr>, nt')"
    "nt_open nt' = [1, 3]"
    by (auto simp: write_failed_def listen_ok_def no_decoding sample_resp_plain)
  with res show ?thesis by blast
qed

text \<open>(C19) An exchange that starts can crash the whole proxy: when the write fails, the writer closes and
  clears the current connection, and a listener that starts later dereferences the nil
  connection; when the server has closed the connection, the listener does the same to a writer
  that starts later.  Both happen whatever the connection and the request are.\<close>

theorem tryRoundTrip_can_panic:
  assumes "sc_Open scp r nt = (None, scp1, nt1)" and "sc_Conn scp1 = Some c"
  shows "\<exists>m. tryRoundTrip dec remote [BeginWrite, Write (Some e) used, WriterClose, BeginRead] scp r nt =
      Some (Panic m) \<and>
    tryRoundTrip dec remote [BeginRead, ReadResponse None (Some e), Cancel, ListenerClose, BeginWrite] scp r nt =
      Some (Panic m)"
  using assms
  by (simp add: tryRoundTrip_def rt_start_def rt_close_def sc_Close_def sc_close_def sc_Listen_def
      once_cancel_def split: prod.split)

theorem tryRoundTrip_can_panic_witness:
  "\<exists>m. tryRoundTrip sample_dec (\<lambda>_. []) [BeginWrite, Write (Some (Err ''broken pipe'')) True, WriterClose, BeginRead]
     (new_server 30) (url_request (sample_url ''a'')) sample_net = Some (Panic m)"
  using tryRoundTrip_can_panic [OF sample_open, where c = 3 and dec = sample_dec and remote = "\<lambda>_. []"
      and e = "Err ''broken pipe''" and used = True]
  by auto

text \<open>(C9) A request is sent at most once, whatever happens: \<open>RoundTrip\<close> tries a second time only if
  the first attempt could not open a connection, and then nothing had been written; the pool of
  connections stays consistent.  In particular a write that fails is not retried, since
  \<open>tryRoundTrip\<close> never reports it.\<close>

theorem sc_RoundTrip_once:
  assumes "sc_inv base scp nt"
    and "sc_RoundTrip dec remote sched1 sched2 scp (Some r) nt = Some (Ret ((resp, err), r', scp', nt'))"
  shows "sc_inv base scp' nt' \<and>
    (nt_written nt' = nt_written nt \<and> resp = None \<and> err \<noteq> None \<or>
     (\<exists>c. nt_written nt' = nt_written nt @ [c])) \<and>
    (fst (sc_Open scp (request_frame r) nt) = None \<longrightarrow>
       sc_RoundTrip dec remote sched1 [] scp (Some r) nt = Some (Ret ((resp, err), r', scp', nt')))"
proof -
  from assms(2) obtain resp1 errS1 errR1 used1 r1 scp1 nt1 where
    t1: "tryRoundTrip dec remote sched1 scp (request_frame r) nt =
      Some (Ret ((resp1, errS1, errR1, used1), r1, scp1, nt1))"
    by (auto simp: sc_RoundTrip_def Let_def split: option.splits outcome.splits)
  note one = tryRoundTrip_inv [OF t1 assms(1)]
  show ?thesis
  proof (cases errS1)
    case None
    with assms(2) t1 one show ?thesis by (auto simp: sc_RoundTrip_def)
  next
    case (Some e)
    from one Some have unused: "\<not> used1" by simp
    with assms(2) t1 Some obtain resp2 errS2 errR2 used2 r2 where
      t2: "tryRoundTrip dec remote sched2 scp1 r1 nt1 = Some (Ret ((resp2, errS2, errR2, used2), r2, scp', nt'))"
      "resp = resp2" "err = (if errS2 \<noteq> None then errS2 else errR2)"
      by (auto simp: sc_RoundTrip_def Let_def split: option.splits outcome.splits)
    from one have "sc_inv base scp1 nt1" by simp
    from tryRoundTrip_inv [OF t2(1) this] one t2(2,3) Some show ?thesis by (auto split: if_splits)
  qed
qed

theorem sc_RoundTrip_once_witness:
  "\<exists>nt' resp err r' scp'. sc_RoundTrip sample_dec (\<lambda>_. []) [] [BeginRead, BeginWrite, Write None True, ReadResponse (Some sample_resp) None, StartTimer, Cancel]
      (new_server 30) (Some (url_request (sample_url ''a'')))
      (sample_net\<lparr>nt_dials := [DialErr EOF False, DialOk]\<rparr>) = Some (Ret ((resp, err), r', scp', nt')) \<and>
    (nt_written nt' = [] \<and> resp = None \<and> err \<noteq> None \<or> (\<exists>c. nt_written nt' = [c]))"
proof -
  let ?nt = "sample_net\<lparr>nt_dials := [DialErr EOF False, DialOk]\<rparr>"
  let ?s2 = "[BeginRead, BeginWrite, Write None True, ReadResponse (Some sample_resp) None, StartTimer, Cancel]"
  have inv: "sc_inv [1] (new_server 30) ?nt" by (simp add: sc_inv_def new_server_def sample_net_def)
  let ?r = "request_strip (url_request (sample_url ''a''))"
  let ?scp = "(new_server 30)\<lparr>sc_Conns := Some []\<rparr>"
  let ?nt1 = "sample_net\<lparr>nt_dials := [DialOk], nt_dialed := [(''a:80'', False)]\<rparr>"
  have frame: "request_frame (url_request (sample_url ''a'')) = ?r"
    by (simp add: request_frame_def request_measure_def request_delimit_def request_strip_def url_request_def)
  have url: "rq_URL (url_request u) = u" "hdr_Get (rq_Header ?r) ''Remote-Address'' = []" for u
    by (simp_all add: request_strip_def url_request_def hdr_Get_def hdr_simps)
      (simp add: hdr_values_def)?
  note dialled = sc_Open_def make_conns_def make_room_def createConn_def dial_def host_key_def insertPort_def
    SplitHostAndPort_def url new_server_def sample_net_def sample_url_def
  have o1: "sc_Open (new_server 30) ?r ?nt = (Some EOF, ?scp, ?nt1)"
    by (simp add: dialled)
  have o2: "\<exists>scp2 nt2. sc_Open ?scp ?r ?nt1 = (None, scp2, nt2) \<and> sc_Conn scp2 = Some 3"
    by (simp add: dialled)
  then obtain scp2 nt2 where o2: "sc_Open ?scp ?r ?nt1 = (None, scp2, nt2)" "sc_Conn scp2 = Some 3" by blast
  have t1: "tryRoundTrip sample_dec (\<lambda>_. []) [] (new_server 30) ?r ?nt =
      Some (Ret ((None, Some EOF, None, False), ?r, ?scp, ?nt1))"
    unfolding tryRoundTrip_def o1 by simp
  obtain resp used scp3 nt3 where t2: "tryRoundTrip sample_dec (\<lambda>_. []) ?s2 ?scp ?r ?nt1 =
      Some (Ret ((resp, None, None, used), ?r, scp3, nt3))"
    unfolding tryRoundTrip_def o2(1)
    by (simp add: o2(2) url rt_start_def sc_Listen_def no_decoding sample_resp_plain
        once_cancel_def rt_finished_def)
  have "\<exists>resp err r' scp' nt'. sc_RoundTrip sample_dec (\<lambda>_. []) [] ?s2 (new_server 30)
      (Some (url_request (sample_url ''a''))) ?nt = Some (Ret ((resp, err), r', scp', nt'))"
    unfolding sc_RoundTrip_def option.case frame Let_def t1 by (simp add: t2)
  then obtain resp err r' scp' nt' where r: "sc_RoundTrip sample_dec (\<lambda>_. []) [] ?s2 (new_server 30)
      (Some (url_request (sample_url ''a''))) ?nt = Some (Ret ((resp, err), r', scp', nt'))" by blast
  from sc_RoundTrip_once [OF inv r] have
    "nt_written nt' = [] \<and> resp = None \<and> err \<noteq> None \<or> (\<exists>c. nt_written nt' = [c])"
    by (simp add: sample_net_def)
  with r show ?thesis by blast
qed

text \<open>Which decoder an encoding stands for, and what is closed with it.\<close>

definition decoder_for :: "decoders \<Rightarrow> string \<Rightarrow> (res \<times> (rdr \<Rightarrow> (goerr \<times> rdr) + rdr)) option" where
  "decoder_for dec =
     map_of [(''gzip'', RGzip, dec_gzip dec), (''deflate'', RFlate, \<lambda>ob. Inr (dec_flate dec ob)),
       (''br'', RBrotli, dec_brotli dec)]"



end
