(* ===== verification/Tunnel.thy ===== *)
theory Tunnel
  imports GoIo "HOL-Library.Sublist"
begin

text \<open>
  The tunnel of \<open>proxy/helpers.go\<close> for connections that are not decrypted:
  \<open>doubleSidedCopy\<close>, two goroutines that copy in opposite directions until both have ended, and
  \<open>combinedError\<close>, which makes one error of theirs.
\<close>

definition combinedError :: "goerr list \<Rightarrow> goerr option" where
  "combinedError errs =
     foldl (\<lambda>combinedErr err.
        case combinedErr of
          None \<Rightarrow> Some (Err (error_text err))
        | Some c \<Rightarrow> Some (Err (error_text c @ '', '' @ error_text err)))
       None errs"

text \<open>An end of the tunnel: what it will deliver, what has been written to it, and how much can be
  written before it fails, if it does.\<close>

record endpoint =
  ep_in :: source
  ep_out :: bytes
  ep_room :: "nat option"

definition ep_write :: "endpoint \<Rightarrow> bytes \<Rightarrow> goerr option \<times> endpoint" where
  "ep_write ep bs =
     (case ep_room ep of
        None \<Rightarrow> (None, ep\<lparr>ep_out := ep_out ep @ bs\<rparr>)
      | Some k \<Rightarrow>
          if length bs \<le> k then (None, ep\<lparr>ep_out := ep_out ep @ bs, ep_room := Some (k - length bs)\<rparr>)
          else (Some (Err ''broken pipe''), ep\<lparr>ep_out := ep_out ep @ take k bs, ep_room := Some 0\<rparr>))"

text \<open>One round of \<open>io.Copy(dst, src)\<close>: a read into 32 KiB and a write of what was read.  The last
  component says whether the copy has ended, and with which error; \<open>EOF\<close> is none.\<close>

definition copy_round :: "endpoint \<Rightarrow> endpoint \<Rightarrow> endpoint \<times> endpoint \<times> goerr option option" where
  "copy_round src dst =
     (let (bs, e, s) = src_read (ep_in src) 32768;
          src = src\<lparr>ep_in := s\<rparr>;
          (we, dst) = (if bs = [] then (None, dst) else ep_write dst bs)
      in (src, dst,
          if we \<noteq> None then Some we
          else case e of None \<Rightarrow> None | Some x \<Rightarrow> Some (if x = EOF then None else Some x)))"

text \<open>The two goroutines: a step is one round of one of them; the error of a copy that has ended is
  added to the list under the mutex.\<close>

datatype dir = ToLeft | ToRight

record tunnel =
  tn_left :: endpoint
  tn_right :: endpoint
  tn_leftDone :: bool
  tn_rightDone :: bool
  tn_errs :: "goerr list"

definition add_err :: "goerr option \<Rightarrow> goerr list \<Rightarrow> goerr list" where
  "add_err err errs = (case err of None \<Rightarrow> errs | Some x \<Rightarrow> errs @ [x])"

fun tn_exec :: "dir \<Rightarrow> tunnel \<Rightarrow> tunnel option" where
  "tn_exec ToLeft t =
     (if tn_leftDone t then None
      else
        let (r, l, fin) = copy_round (tn_right t) (tn_left t);
            t = t\<lparr>tn_left := l, tn_right := r\<rparr>
        in case fin of
             None \<Rightarrow> Some t
           | Some err \<Rightarrow> Some (t\<lparr>tn_leftDone := True, tn_errs := add_err err (tn_errs t)\<rparr>))"
| "tn_exec ToRight t =
     (if tn_rightDone t then None
      else
        let (l, r, fin) = copy_round (tn_left t) (tn_right t);
            t = t\<lparr>tn_left := l, tn_right := r\<rparr>
        in case fin of
             None \<Rightarrow> Some t
           | Some err \<Rightarrow> Some (t\<lparr>tn_rightDone := True, tn_errs := add_err err (tn_errs t)\<rparr>))"

fun tn_run :: "dir list \<Rightarrow> tunnel \<Rightarrow> tunnel option" where
  "tn_run [] t = Some t"
| "tn_run (d # ds) t = (case tn_exec d t of None \<Rightarrow> None | Some t' \<Rightarrow> tn_run ds t')"

definition tn_start :: "endpoint \<Rightarrow> endpoint \<Rightarrow> tunnel" where
  "tn_start left right =
     \<lparr>tn_left = left, tn_right = right, tn_leftDone = False, tn_rightDone = False, tn_errs = []\<rparr>"

text \<open>\<open>doubleSidedCopy\<close> under a schedule; \<open>None\<close> when the schedule is not one of a complete run.  That
  every schedule can be completed is part of the theorem below.\<close>

definition doubleSidedCopy ::
  "dir list \<Rightarrow> endpoint \<Rightarrow> endpoint \<Rightarrow> (goerr option \<times> endpoint \<times> endpoint) option" where
  "doubleSidedCopy sched left right =
     (case tn_run sched (tn_start left right) of
        None \<Rightarrow> None
      | Some t \<Rightarrow>
          if tn_leftDone t \<and> tn_rightDone t then Some (combinedError (tn_errs t), tn_left t, tn_right t) else None)"

subsection \<open>One round\<close>

lemma combinedError_snoc:
  "combinedError (errs @ [e]) =
     (case combinedError errs of
        None \<Rightarrow> Some (Err (error_text e))
      | Some c \<Rightarrow> Some (Err (error_text c @ '', '' @ error_text e)))"
  by (simp add: combinedError_def)

lemma combinedError_None: "combinedError errs = None \<longleftrightarrow> errs = []"
  by (induction errs rule: rev_induct) (auto simp: combinedError_snoc combinedError_def split: option.split)

text \<open>A round leaves what is still to be copied as a whole where it is, unless a write fails, and then
  it is the last one.\<close>

lemma copy_round_keeps:
  assumes "copy_round src dst = (src', dst', fin)" and "src_ok (ep_in src)"
  shows "src_ok (ep_in src')" "ep_room src' = ep_room src" "ep_out src' = ep_out src" "ep_in dst' = ep_in dst"
    "src_fin (ep_in src') = src_fin (ep_in src)" "ep_room dst' = None \<longleftrightarrow> ep_room dst = None"
    "fin = None \<Longrightarrow> src_rank (ep_in src') < src_rank (ep_in src)"
    "fin = None \<or> fin = Some None \<or> ep_room dst = None \<Longrightarrow>
       ep_out dst' @ src_rest (ep_in src') = ep_out dst @ src_rest (ep_in src)"
    "prefix (ep_out dst') (ep_out dst @ src_rest (ep_in src))"
    "fin = Some None \<Longrightarrow> src_rest (ep_in src') = [] \<and> src_fin (ep_in src) = EOF"
    "fin \<noteq> None \<Longrightarrow> ep_room dst = None \<Longrightarrow> src_rest (ep_in src') = [] \<and>
       (src_fin (ep_in src) = EOF \<longrightarrow> fin = Some None)"
proof -
  obtain bs e s where r: "src_read (ep_in src) 32768 = (bs, e, s)" by (cases "src_read (ep_in src) 32768") auto
  note st = src.rd_step [OF assms(2) r]
  obtain we d where w: "(if bs = [] then (None, dst) else ep_write dst bs) = (we, d)" by fastforce
  have d: "ep_in d = ep_in dst" "ep_room d = None \<longleftrightarrow> ep_room dst = None" "ep_room dst = None \<Longrightarrow> we = None"
    "we = None \<Longrightarrow> ep_out d = ep_out dst @ bs" "prefix (ep_out d) (ep_out dst @ bs)"
    using w by (auto simp: ep_write_def prefix_def split: if_splits option.splits)
      (metis append_take_drop_id)
  have eq: "src' = src\<lparr>ep_in := s\<rparr>" "dst' = d"
    "fin = (if we \<noteq> None then Some we else case e of None \<Rightarrow> None | Some x \<Rightarrow> Some (if x = EOF then None else Some x))"
    using assms(1) r w by (auto simp: copy_round_def)
  show "src_ok (ep_in src')" "ep_room src' = ep_room src" "ep_out src' = ep_out src" "ep_in dst' = ep_in dst"
    "src_fin (ep_in src') = src_fin (ep_in src)" "ep_room dst' = None \<longleftrightarrow> ep_room dst = None"
    using st(2,4) d(1,2) by (simp_all add: eq)
  show "fin = None \<Longrightarrow> src_rank (ep_in src') < src_rank (ep_in src)"
    using st(5) by (simp add: eq split: option.splits if_splits)
  show "fin = None \<or> fin = Some None \<or> ep_room dst = None \<Longrightarrow>
       ep_out dst' @ src_rest (ep_in src') = ep_out dst @ src_rest (ep_in src)"
    using st(3) d(3,4) by (auto simp: eq split: if_splits)
  show "prefix (ep_out dst') (ep_out dst @ src_rest (ep_in src))"
    using d(5) st(3) by (simp add: eq flip: append_assoc)
  show "fin = Some None \<Longrightarrow> src_rest (ep_in src') = [] \<and> src_fin (ep_in src) = EOF"
    using st(6,7) [of "the e"] by (auto simp: eq split: option.splits if_splits)
  show "fin \<noteq> None \<Longrightarrow> ep_room dst = None \<Longrightarrow> src_rest (ep_in src') = [] \<and>
       (src_fin (ep_in src) = EOF \<longrightarrow> fin = Some None)"
    using st(6,7) [of "the e"] d(3) by (auto simp: eq split: option.splits if_splits)
qed

subsection \<open>The whole tunnel\<close>

text \<open>One direction: \<open>all\<close> is what its target will have been sent if every write succeeds, \<open>x\<close> how its
  source ends.\<close>

definition flow_ok :: "bool \<Rightarrow> goerr list \<Rightarrow> endpoint \<Rightarrow> endpoint \<Rightarrow> bytes \<Rightarrow> goerr \<Rightarrow> bool" where
  "flow_ok finished errs src dst all x \<longleftrightarrow>
     src_ok (ep_in src) \<and> src_fin (ep_in src) = x \<and> prefix (ep_out dst) all \<and>
     (\<not> finished \<longrightarrow> ep_out dst @ src_rest (ep_in src) = all) \<and>
     (finished \<and> (ep_room dst = None \<or> errs = []) \<longrightarrow> ep_out dst = all) \<and>
     (finished \<and> errs = [] \<longrightarrow> x = EOF)"

definition tn_inv :: "bytes \<Rightarrow> goerr \<Rightarrow> bytes \<Rightarrow> goerr \<Rightarrow> tunnel \<Rightarrow> bool" where
  "tn_inv toLeft x toRight y t \<longleftrightarrow>
     flow_ok (tn_leftDone t) (tn_errs t) (tn_right t) (tn_left t) toLeft x \<and>
     flow_ok (tn_rightDone t) (tn_errs t) (tn_left t) (tn_right t) toRight y \<and>
     (ep_room (tn_left t) = None \<and> ep_room (tn_right t) = None \<and> x = EOF \<and> y = EOF \<longrightarrow> tn_errs t = [])"

definition tn_left_to_do :: "tunnel \<Rightarrow> nat" where
  "tn_left_to_do t =
     (if tn_leftDone t then 0 else Suc (src_rank (ep_in (tn_right t)))) +
     (if tn_rightDone t then 0 else Suc (src_rank (ep_in (tn_left t))))"

lemma flow_ok_round:
  assumes c: "copy_round src dst = (src', dst', fin)" and f: "flow_ok False errs src dst all x"
  shows "flow_ok (fin \<noteq> None) (add_err (case fin of None \<Rightarrow> None | Some err \<Rightarrow> err) errs) src' dst' all x"
    and "fin = None \<Longrightarrow> src_rank (ep_in src') < src_rank (ep_in src)"
    and "ep_room dst' = None \<Longrightarrow> x = EOF \<Longrightarrow> fin = None \<or> fin = Some None"
    and "flow_ok b errs dst src all' x' \<Longrightarrow> flow_ok b (add_err err errs) dst' src' all' x'"
    and "ep_in dst' = ep_in dst" "ep_room src' = ep_room src" "ep_room dst' = None \<longleftrightarrow> ep_room dst = None"
proof -
  from f have "src_ok (ep_in src)" by (simp add: flow_ok_def)
  note k = copy_round_keeps [OF c this]
  have all: "ep_out dst @ src_rest (ep_in src) = all" and x: "src_fin (ep_in src) = x"
    using f by (simp_all add: flow_ok_def)
  show "flow_ok (fin \<noteq> None) (add_err (case fin of None \<Rightarrow> None | Some err \<Rightarrow> err) errs) src' dst' all x"
  proof (cases fin)
    case None
    with k(1,5,8,9) all x show ?thesis by (simp add: flow_ok_def)
  next
    case (Some e)
    with k(1,5,6,8,9,10,11) all x show ?thesis
      by (cases e) (auto simp: flow_ok_def add_err_def)
  qed
  show "fin = None \<Longrightarrow> src_rank (ep_in src') < src_rank (ep_in src)" by (rule k(7))
  show "ep_room dst' = None \<Longrightarrow> x = EOF \<Longrightarrow> fin = None \<or> fin = Some None" using k(6,11) x by blast
  show "flow_ok b errs dst src all' x' \<Longrightarrow> flow_ok b (add_err err errs) dst' src' all' x'"
    using k(2-4) by (cases err) (auto simp: flow_ok_def add_err_def)
  show "ep_in dst' = ep_in dst" "ep_room src' = ep_room src" "ep_room dst' = None \<longleftrightarrow> ep_room dst = None"
    by (rule k(4) k(2) k(6))+
qed

lemma tn_exec_inv:
  assumes "tn_exec d t = Some t'" and "tn_inv a x b y t"
  shows "tn_inv a x b y t' \<and> tn_left_to_do t' < tn_left_to_do t \<and>
    (ep_room (tn_left t') = None \<longleftrightarrow> ep_room (tn_left t) = None) \<and>
    (ep_room (tn_right t') = None \<longleftrightarrow> ep_room (tn_right t) = None)"
proof (cases d)
  case ToLeft
  with assms(1) have open': "\<not> tn_leftDone t" by (cases "tn_leftDone t") simp_all
  obtain r l fin where c: "copy_round (tn_right t) (tn_left t) = (r, l, fin)"
    by (cases "copy_round (tn_right t) (tn_left t)") auto
  have "flow_ok False (tn_errs t) (tn_right t) (tn_left t) a x"
    and "flow_ok (tn_rightDone t) (tn_errs t) (tn_left t) (tn_right t) b y"
    using assms(2) open' by (simp_all add: tn_inv_def)
  note k = flow_ok_round [OF c this(1)] flow_ok_round(4) [OF c this]
  have "t' = t\<lparr>tn_left := l, tn_right := r, tn_leftDone := fin \<noteq> None,
      tn_errs := add_err (case fin of None \<Rightarrow> None | Some err \<Rightarrow> err) (tn_errs t)\<rparr>"
    using ToLeft assms(1) open' c by (auto simp: add_err_def split: option.splits)
  then show ?thesis
    using k(1,2,3,5-8) assms(2) open'
    by (auto simp: tn_inv_def tn_left_to_do_def add_err_def split: option.splits)
next
  case ToRight
  with assms(1) have open': "\<not> tn_rightDone t" by (cases "tn_rightDone t") simp_all
  obtain l r fin where c: "copy_round (tn_left t) (tn_right t) = (l, r, fin)"
    by (cases "copy_round (tn_left t) (tn_right t)") auto
  have "flow_ok False (tn_errs t) (tn_left t) (tn_right t) b y"
    and "flow_ok (tn_leftDone t) (tn_errs t) (tn_right t) (tn_left t) a x"
    using assms(2) open' by (simp_all add: tn_inv_def)
  note k = flow_ok_round [OF c this(1)] flow_ok_round(4) [OF c this]
  have "t' = t\<lparr>tn_left := l, tn_right := r, tn_rightDone := fin \<noteq> None,
      tn_errs := add_err (case fin of None \<Rightarrow> None | Some err \<Rightarrow> err) (tn_errs t)\<rparr>"
    using ToRight assms(1) open' c by (auto simp: add_err_def split: option.splits)
  then show ?thesis
    using k(1,2,3,5-8) assms(2) open'
    by (auto simp: tn_inv_def tn_left_to_do_def add_err_def split: option.splits)
qed

lemma tn_run_inv:
  "tn_run ds t = Some t' \<Longrightarrow> tn_inv a x b y t \<Longrightarrow>
     tn_inv a x b y t' \<and> length ds + tn_left_to_do t' \<le> tn_left_to_do t \<and>
     (ep_room (tn_left t') = None \<longleftrightarrow> ep_room (tn_left t) = None) \<and>
     (ep_room (tn_right t') = None \<longleftrightarrow> ep_room (tn_right t) = None)"
proof (induction ds arbitrary: t)
  case (Cons d ds)
  then obtain t1 where t1: "tn_exec d t = Some t1" "tn_run ds t1 = Some t'" by (auto split: option.splits)
  from tn_exec_inv [OF t1(1) Cons.prems(2)] Cons.IH [OF t1(2)] show ?case by auto
qed simp

lemma tn_run_append: "tn_run (ds @ es) t = (case tn_run ds t of None \<Rightarrow> None | Some t \<Rightarrow> tn_run es t)"
  by (induction ds arbitrary: t) (auto split: option.split)

lemma tn_exec_blocked:
  "tn_exec ToLeft t = None \<longleftrightarrow> tn_leftDone t" "tn_exec ToRight t = None \<longleftrightarrow> tn_rightDone t"
  by (auto simp: Let_def split: prod.splits option.splits)

lemma doubleSidedCopy_Some:
  "doubleSidedCopy sched left right = Some (err, left', right') \<longleftrightarrow>
     (\<exists>t. tn_run sched (tn_start left right) = Some t \<and> tn_leftDone t \<and> tn_rightDone t \<and>
        err = combinedError (tn_errs t) \<and> left' = tn_left t \<and> right' = tn_right t)"
  by (auto simp: doubleSidedCopy_def split: option.splits if_splits)

text \<open>A copy that has not ended can always go on, and after finitely many rounds both have ended.\<close>

lemma tn_run_finishes:
  assumes "tn_inv a x b y t"
  shows "\<exists>ds t'. tn_run ds t = Some t' \<and> tn_leftDone t' \<and> tn_rightDone t'"
  using assms
proof (induction "tn_left_to_do t" arbitrary: t rule: less_induct)
  case less
  show ?case
  proof (cases "tn_leftDone t \<and> tn_rightDone t")
    case True
    then show ?thesis by (intro exI [of _ "[]"] exI [of _ t]) simp
  next
    case False
    then have "tn_exec ToLeft t \<noteq> None \<or> tn_exec ToRight t \<noteq> None" by (simp add: tn_exec_blocked del: tn_exec.simps)
    then obtain d t1 where t1: "tn_exec d t = Some t1" by blast
    from tn_exec_inv [OF t1 less(2)] less(1) obtain ds t' where
      "tn_run ds t1 = Some t'" "tn_leftDone t'" "tn_rightDone t'" by blast
    with t1 show ?thesis by (intro exI [of _ "d # ds"] exI [of _ t']) simp
  qed
qed

text \<open>(C16) The tunnel is transparent and ends.  In every interleaving of the two copies, however the
  bytes arrive and wherever a write fails: there are only so many rounds, a schedule that is not
  yet complete can be completed, and at any time each side has been sent, after what it had got
  before, an initial part of the bytes the other delivers.  When both copies have ended, a side
  whose writes never fail has got all of these bytes; no error is returned only when both sides have
  got everything and both streams have ended with \<open>EOF\<close>, and none is when no write can fail and both
  end with \<open>EOF\<close>.\<close>

theorem doubleSidedCopy_transparent:
  assumes "\<not> src_closed (ep_in left)" and "\<not> src_closed (ep_in right)"
    and "tn_run sched (tn_start left right) = Some t"
  shows "length sched \<le> 2 + src_rank (ep_in left) + src_rank (ep_in right) \<and>
    (\<exists>more. doubleSidedCopy (sched @ more) left right \<noteq> None) \<and>
    prefix (ep_out (tn_left t)) (ep_out left @ src_rest (ep_in right)) \<and>
    prefix (ep_out (tn_right t)) (ep_out right @ src_rest (ep_in left)) \<and>
    (\<forall>err left' right'. doubleSidedCopy sched left right = Some (err, left', right') \<longrightarrow>
       (err = None \<or> ep_room left = None \<longrightarrow> ep_out left' = ep_out left @ src_rest (ep_in right)) \<and>
       (err = None \<or> ep_room right = None \<longrightarrow> ep_out right' = ep_out right @ src_rest (ep_in left)) \<and>
       (err = None \<longrightarrow> src_fin (ep_in left) = EOF \<and> src_fin (ep_in right) = EOF) \<and>
       (ep_room left = None \<and> ep_room right = None \<and> src_fin (ep_in left) = EOF \<and> src_fin (ep_in right) = EOF \<longrightarrow>
          err = None))"
proof -
  let ?t = "tn_start left right"
  have "tn_inv (ep_out left @ src_rest (ep_in right)) (src_fin (ep_in right))
      (ep_out right @ src_rest (ep_in left)) (src_fin (ep_in left)) ?t"
    using assms(1,2) by (simp add: tn_start_def tn_inv_def flow_ok_def src_ok_def)
  note run = tn_run_inv [OF assms(3) this]
  then obtain more t' where "tn_run more t = Some t'" "tn_leftDone t'" "tn_rightDone t'"
    using tn_run_finishes by blast
  then have more: "\<exists>more. doubleSidedCopy (sched @ more) left right \<noteq> None"
    by (intro exI [of _ more]) (simp add: doubleSidedCopy_def tn_run_append assms(3))
  have len: "length sched \<le> 2 + src_rank (ep_in left) + src_rank (ep_in right)"
    using run by (simp add: tn_start_def tn_left_to_do_def)
  have flow: "flow_ok (tn_leftDone t) (tn_errs t) (tn_right t) (tn_left t) (ep_out left @ src_rest (ep_in right))
      (src_fin (ep_in right))"
    "flow_ok (tn_rightDone t) (tn_errs t) (tn_left t) (tn_right t) (ep_out right @ src_rest (ep_in left))
      (src_fin (ep_in left))"
    and rooms: "ep_room (tn_left t) = None \<longleftrightarrow> ep_room left = None" "ep_room (tn_right t) = None \<longleftrightarrow> ep_room right = None"
    and errs: "ep_room left = None \<and> ep_room right = None \<and> src_fin (ep_in left) = EOF \<and> src_fin (ep_in right) = EOF \<Longrightarrow>
      tn_errs t = []"
    using run by (auto simp: tn_inv_def tn_start_def)
  show ?thesis
  proof (intro conjI allI impI more len; (elim conjE)?)
    show "prefix (ep_out (tn_left t)) (ep_out left @ src_rest (ep_in right))"
      "prefix (ep_out (tn_right t)) (ep_out right @ src_rest (ep_in left))"
      using flow by (simp_all add: flow_ok_def)
    fix err left' right'
    assume "doubleSidedCopy sched left right = Some (err, left', right')"
    then have d: "tn_leftDone t" "tn_rightDone t" "err = combinedError (tn_errs t)" "left' = tn_left t" "right' = tn_right t"
      by (simp_all add: doubleSidedCopy_Some assms(3))
    show "err = None \<or> ep_room left = None \<Longrightarrow> ep_out left' = ep_out left @ src_rest (ep_in right)"
      "err = None \<or> ep_room right = None \<Longrightarrow> ep_out right' = ep_out right @ src_rest (ep_in left)"
      "err = None \<Longrightarrow> src_fin (ep_in left) = EOF" "err = None \<Longrightarrow> src_fin (ep_in right) = EOF"
      using flow rooms by (auto simp: flow_ok_def d combinedError_None)
    show "ep_room left = None \<Longrightarrow> ep_room right = None \<Longrightarrow> src_fin (ep_in left) = EOF \<Longrightarrow>
        src_fin (ep_in right) = EOF \<Longrightarrow> err = None"
      using errs by (simp add: d combinedError_None)
  qed
qed

definition sample_end :: "bytes \<Rightarrow> goerr option \<Rightarrow> endpoint" where
  "sample_end bs e = \<lparr>ep_in = \<lparr>src_events = [(bs, e)], src_closed = False\<rparr>, ep_out = [], ep_room = None\<rparr>"

theorem doubleSidedCopy_transparent_witness:
  "\<exists>err l r. doubleSidedCopy [ToRight, ToLeft, ToRight] (sample_end ''hello'' None) (sample_end ''hi'' (Some (Err ''reset''))) =
      Some (err, l, r) \<and> ep_out l = ''hi'' \<and> ep_out r = ''hello'' \<and> err \<noteq> None"
proof -
  let ?l = "sample_end ''hello'' None" and ?r = "sample_end ''hi'' (Some (Err ''reset''))"
  let ?sched = "[ToRight, ToLeft, ToRight]"
  obtain t where t: "tn_run ?sched (tn_start ?l ?r) = Some t" "tn_leftDone t" "tn_rightDone t"
    by (simp add: tn_start_def copy_round_def src_read_def ep_write_def sample_end_def)
  then have d: "doubleSidedCopy ?sched ?l ?r = Some (combinedError (tn_errs t), tn_left t, tn_right t)"
    by (simp add: doubleSidedCopy_def)
  from doubleSidedCopy_transparent [OF _ _ t(1)] d
  have "ep_out (tn_left t) = ''hi'' \<and> ep_out (tn_right t) = ''hello'' \<and> combinedError (tn_errs t) \<noteq> None"
    by (simp add: sample_end_def src_rest_def src_fin_def)
  with d show ?thesis by blast
qed

end
