(* ===== verification/Throttle.thy ===== *)
theory Throttle
  imports GoIo Complex_Main "HOL-Library.Word" "HOL-Library.Log_Nat"
begin

text \<open>
  \<open>throttle/throttle.go\<close>: the controller that makes a body slow, and the reader that uses it.
  Times are in nanoseconds, the clock is part of the state.  The mutexes make each operation of
  a controller one step.  Only \<open>time.Sleep\<close> advances the clock: the reads of the wrapped body and
  what the reader of the throttled body does between two reads take no time, so the delays are
  those that the controller itself adds.

  The delay is computed in \<open>float64\<close>: the numbers of this program are not negative and far from
  the ends of the range, so a float is a rational number rounded to 53 binary digits, to the
  even one of two equally near.
\<close>

subsection \<open>Numbers of type float64\<close>

definition round_even :: "rat \<Rightarrow> int" where
  "round_even x =
     (let n = \<lfloor>x\<rfloor>; d = x - of_int n
      in if d < 1 / 2 then n else if d > 1 / 2 then n + 1 else if even n then n else n + 1)"

text \<open>The weight of the last of the 53 digits of \<open>x\<close>.\<close>

definition float_ulp :: "rat \<Rightarrow> rat" where
  "float_ulp x =
     (let (p, q) = quotient_of x;
          k = bitlen p - bitlen q;
          e = (if x < 2 powi k then k - 1 else k)
      in 2 powi (e - 52))"

definition float64 :: "rat \<Rightarrow> rat" where
  "float64 x = (if x \<le> 0 then 0 else of_int (round_even (x / float_ulp x)) * float_ulp x)"

lemma round_even_error: "\<bar>of_int (round_even x) - x\<bar> \<le> 1 / 2"
proof -
  have "of_int \<lfloor>x\<rfloor> \<le> x" "x < of_int \<lfloor>x\<rfloor> + 1" by linarith+
  then show ?thesis by (auto simp: round_even_def Let_def abs_le_iff)
qed

lemma float_ulp_bound:
  assumes "0 < x"
  shows "0 < float_ulp x" "2 ^ 52 * float_ulp x \<le> x"
proof -
  obtain p q where pq: "quotient_of x = (p, q)" by fastforce
  have x: "x = of_int p / of_int q" and q: "0 < q"
    using quotient_of_div [OF pq] quotient_of_denom_pos [OF pq] by simp_all
  with assms have p: "0 < p" by (simp add: zero_less_divide_iff)
  let ?k = "bitlen p - bitlen q"
  have bp: "1 \<le> bitlen p" using bitlen_bounds [OF p] p by (cases "bitlen p \<le> 0") auto
  have "(2::rat) ^ nat (bitlen p - 1) \<le> of_int p"
    using bitlen_bounds [OF p] by (metis of_int_le_iff of_int_numeral of_int_power)
  moreover have "of_int q < (2::rat) ^ nat (bitlen q)"
    using bitlen_bounds [OF q] by (metis of_int_less_iff of_int_numeral of_int_power)
  ultimately have "(2::rat) powi (bitlen p - 1) \<le> of_int p" "of_int q \<le> (2::rat) powi bitlen q"
    using bp bitlen_nonneg [of q] by (simp_all add: power_int_def)
  moreover from this(2) have "(2::rat) powi (?k - 1) * of_int q \<le> 2 powi (?k - 1) * 2 powi bitlen q"
    by (intro mult_left_mono) simp_all
  moreover have "(2::rat) powi (?k - 1) * 2 powi bitlen q = 2 powi (bitlen p - 1)"
    by (simp add: power_int_add [symmetric])
  ultimately have "(2::rat) powi (?k - 1) * of_int q \<le> of_int p" by linarith
  then have low: "2 powi (?k - 1) \<le> x" using q by (simp add: x pos_le_divide_eq)
  let ?e = "if x < 2 powi ?k then ?k - 1 else ?k"
  have e: "2 powi ?e \<le> x" using low by auto
  have ulp: "float_ulp x = 2 powi (?e - 52)" by (simp add: float_ulp_def pq Let_def)
  show "0 < float_ulp x" by (simp add: ulp)
  have "(2::rat) powi 52 * 2 powi (?e - 52) = 2 powi ?e"
    using power_int_add [of "2::rat" 52 "?e - 52"] by simp
  moreover have "(2::rat) powi 52 = 2 ^ 52" by (simp add: power_int_def)
  ultimately have "2 ^ 52 * (2::rat) powi (?e - 52) = 2 powi ?e" by metis
  with e show "2 ^ 52 * float_ulp x \<le> x" unfolding ulp by linarith
qed

lemma float64_error: "0 \<le> x \<Longrightarrow> \<bar>float64 x - x\<bar> \<le> x / 2 ^ 53"
proof (cases "x = 0")
  case False
  assume "0 \<le> x"
  with False have x: "0 < x" by simp
  let ?u = "float_ulp x"
  note u = float_ulp_bound [OF x]
  have "float64 x - x = (of_int (round_even (x / ?u)) - x / ?u) * ?u"
    using x u(1) by (simp add: float64_def field_simps)
  then have "\<bar>float64 x - x\<bar> \<le> 1 / 2 * ?u"
    using round_even_error [of "x / ?u"] u(1) by (simp add: abs_mult)
  also have "\<dots> \<le> x / 2 ^ 53" using u(2) by simp
  finally show ?thesis .
qed (simp add: float64_def)

lemma float64_nonneg: "0 \<le> float64 x"
proof (cases "x \<le> 0")
  case False
  then have "\<bar>float64 x - x\<bar> \<le> x / 2 ^ 53" by (intro float64_error) simp
  also have "\<dots> \<le> x" using False by simp
  finally show ?thesis by linarith
qed (simp add: float64_def)


subsection \<open>The controller\<close>

record ThrottleController =
  tc_rate :: "64 word"
  tc_timeRead :: int
  tc_bytesRead :: rat
  tc_allowNextReadAfter :: int
  tc_numConn :: "32 word"

definition NewThrottleController :: "64 word \<Rightarrow> int \<Rightarrow> ThrottleController" where
  "NewThrottleController rate now =
     \<lparr>tc_rate = rate, tc_timeRead = now, tc_bytesRead = 0, tc_allowNextReadAfter = 0, tc_numConn = 0\<rparr>"

definition tc_Add :: "ThrottleController \<Rightarrow> ThrottleController" where
  "tc_Add tc = tc\<lparr>tc_numConn := tc_numConn tc + 1\<rparr>"

definition tc_Remove :: "ThrottleController \<Rightarrow> ThrottleController" where
  "tc_Remove tc = tc\<lparr>tc_numConn := tc_numConn tc - 1\<rparr>"

definition tc_Rate :: "ThrottleController \<Rightarrow> 64 word" where
  "tc_Rate tc = tc_rate tc"

definition tc_SetRate :: "64 word \<Rightarrow> ThrottleController \<Rightarrow> ThrottleController" where
  "tc_SetRate rate tc = tc\<lparr>tc_rate := rate\<rparr>"

text \<open>A rate of zero divides by zero, which gives an infinity or no number (\<open>None\<close>).\<close>

definition timeToBlock :: "int \<Rightarrow> 64 word \<Rightarrow> rat option" where
  "timeToBlock bytes rate =
     (let rate = float64 (of_int (uint rate))
      in if rate = 0 then None
         else Some (float64 (float64 (float64 (of_int bytes) / (rate / 8)) * 1000000000)))"

text \<open>\<open>time.Duration(f)\<close> is \<open>f\<close> without its fraction; what it is for a number out of range depends
  on the machine (\<open>unrep\<close>; the least 64-bit number on amd64).\<close>

definition Duration :: "int \<Rightarrow> rat option \<Rightarrow> int" where
  "Duration unrep x = (case x of None \<Rightarrow> unrep | Some f \<Rightarrow> if f < 2 ^ 63 then \<lfloor>f\<rfloor> else unrep)"

text \<open>\<open>ConsumeBytes\<close> first waits for what the previous read has left to wait for.\<close>

definition ConsumeBytes :: "int \<Rightarrow> int \<Rightarrow> ThrottleController \<times> int \<Rightarrow> ThrottleController \<times> int" where
  "ConsumeBytes unrep bytes s =
     (let (tc, now) = s;
          now = now + max 0 (tc_allowNextReadAfter tc)
      in (tc\<lparr>tc_allowNextReadAfter := Duration unrep (timeToBlock bytes (tc_rate tc))\<rparr>, now))"

subsection \<open>The reader\<close>

record 'd throttled =
  th_data :: 'd
  th_controller :: "ThrottleController \<times> int"

definition tc_ReadCloser :: "'d \<Rightarrow> ThrottleController \<times> int \<Rightarrow> 'd throttled" where
  "tc_ReadCloser reader s = \<lparr>th_data = reader, th_controller = (tc_Add (fst s), snd s)\<rparr>"

definition th_Read :: "int \<Rightarrow> 'd read_fn \<Rightarrow> 'd throttled read_fn" where
  "th_Read unrep rd r n =
     (let (bs, e, d) = rd (th_data r) n
      in (bs, e, r\<lparr>th_data := d, th_controller := ConsumeBytes unrep (int (length bs)) (th_controller r)\<rparr>))"

definition th_Close :: "'d close_fn \<Rightarrow> 'd throttled close_fn" where
  "th_Close cl r =
     (let r = r\<lparr>th_controller := (tc_Remove (fst (th_controller r)), snd (th_controller r))\<rparr>;
          (e, d) = cl (th_data r)
      in (e, r\<lparr>th_data := d\<rparr>))"

context io_reader
begin

text \<open>A throttled body is the body, only slower.\<close>

lemma throttled_reader:
  "io_reader (th_Read unrep rd) (\<lambda>r :: 's throttled. ok (th_data r)) (\<lambda>r. rest (th_data r)) (\<lambda>r. fin (th_data r))
     (\<lambda>r. rank (th_data r))"
proof
  fix r r' :: "'s throttled" and n bs e x
  assume ok: "ok (th_data r)"
  { assume "th_Read unrep rd r n = (bs, e, r')"
    then have "rd (th_data r) n = (bs, e, th_data r')" by (auto simp: th_Read_def split: prod.splits)
    from rd_step [OF ok this] show "length bs \<le> n" "ok (th_data r')" "rest (th_data r) = bs @ rest (th_data r')"
      "fin (th_data r') = fin (th_data r)" by simp_all }
  { assume "th_Read unrep rd r n = (bs, None, r')" and "0 < n"
    then have "rd (th_data r) n = (bs, None, th_data r')" by (auto simp: th_Read_def split: prod.splits)
    with rd_step(5) [OF ok this] \<open>0 < n\<close> show "rank (th_data r') < rank (th_data r)" by simp }
  { assume "th_Read unrep rd r n = (bs, Some x, r')"
    then have "rd (th_data r) n = (bs, Some x, th_data r')" by (auto simp: th_Read_def split: prod.splits)
    from rd_step(6,7) [OF ok this] show "x = fin (th_data r) \<and> rest (th_data r') = []" by simp }
qed

end

interpretation throttled_src: io_reader "th_Read unrep src_read" "\<lambda>r. src_ok (th_data r)"
  "\<lambda>r. src_rest (th_data r)" "\<lambda>r. src_fin (th_data r)" "\<lambda>r. src_rank (th_data r)"
  by (rule src.throttled_reader)

subsection \<open>The speed\<close>

lemma float64_bounds:
  assumes "0 \<le> x"
  shows "(1 - 1 / 2 ^ 53) * x \<le> float64 x" "float64 x \<le> (1 + 1 / 2 ^ 53) * x"
proof -
  have "float64 x - x \<le> x / 2 ^ 53" "- (float64 x - x) \<le> x / 2 ^ 53"
    using float64_error [OF assms] by (simp_all only: abs_le_iff)
  then show "(1 - 1 / 2 ^ 53) * x \<le> float64 x" "float64 x \<le> (1 + 1 / 2 ^ 53) * x"
    by (simp_all add: left_diff_distrib distrib_right)
qed

text \<open>The time \<open>n\<close> bytes take at a rate of \<open>rate\<close> bits per second, exactly.\<close>

definition exact_time :: "int \<Rightarrow> 64 word \<Rightarrow> rat" where
  "exact_time bytes rate = of_int (bytes * 8 * 1000000000) / of_int (uint rate)"

lemma timeToBlock_bounds:
  assumes "0 \<le> bytes" and "rate \<noteq> 0"
  obtains t where "timeToBlock bytes rate = Some t" "0 \<le> t"
    "(1 - 1 / 2 ^ 50) * exact_time bytes rate \<le> t" "t \<le> (1 + 1 / 2 ^ 50) * exact_time bytes rate"
proof -
  define u :: rat where "u = 1 / 2 ^ 53"
  have u: "0 < u" "u < 1" by (simp_all add: u_def)
  define r :: rat where "r = of_int (uint rate)"
  define b :: rat where "b = of_int bytes"
  have "uint rate \<noteq> 0" using assms(2) by (simp add: unsigned_eq_0_iff)
  then have "0 < uint rate" using uint_ge_0 [of rate] by linarith
  then have r: "0 < r" unfolding r_def of_int_0_less_iff .
  have b: "0 \<le> b" using assms(1) by (simp add: b_def)
  let ?r = "float64 r" and ?b = "float64 b"
  have fr: "(1 - u) * r \<le> ?r" "?r \<le> (1 + u) * r" using float64_bounds [of r] r by (simp_all add: u_def)
  have "0 < (1 - u) * r" using u r by simp
  with fr(1) have r0: "0 < ?r" by linarith
  have fb: "(1 - u) * b \<le> ?b" "?b \<le> (1 + u) * b" using float64_bounds [of b] b by (simp_all add: u_def)
  let ?q = "?b / (?r / 8)"
  have q0: "0 \<le> ?q" using r0 float64_nonneg [of b] by simp
  have fq: "(1 - u) * ?q \<le> float64 ?q" "float64 ?q \<le> (1 + u) * ?q"
    using float64_bounds [OF q0] by (simp_all add: u_def)
  let ?t = "float64 (float64 ?q * 1000000000)"
  have t0: "0 \<le> float64 ?q * 1000000000" using float64_nonneg [of ?q] by simp
  have ft: "(1 - u) * (float64 ?q * 1000000000) \<le> ?t" "?t \<le> (1 + u) * (float64 ?q * 1000000000)"
    using float64_bounds [OF t0] by (simp_all add: u_def)
  let ?e = "exact_time bytes rate" and ?f = "8 * 1000000000 :: rat"
  have e: "?e = ?f * b / r" by (simp add: exact_time_def b_def r_def)
  have e0: "0 \<le> ?e" using b r by (simp add: e)
  have low: "(1 - u) * b / ((1 + u) * r) \<le> ?b / ?r"
    using fb(1) fr(2) b r r0 u float64_nonneg [of b] by (intro frac_le) simp_all
  have high: "?b / ?r \<le> (1 + u) * b / ((1 - u) * r)"
    using fb(2) fr(1) b r r0 u by (intro frac_le) simp_all
  have q: "?q = 8 * (?b / ?r)" by simp
  have "(1 - u) * ((1 - u) * (8 * ((1 - u) * b / ((1 + u) * r))) * 1000000000) \<le> ?t"
  proof -
    have "(1 - u) * (8 * ((1 - u) * b / ((1 + u) * r))) \<le> (1 - u) * ?q"
      unfolding q by (intro mult_left_mono low) (use u in simp_all)
    with fq(1) have "(1 - u) * (8 * ((1 - u) * b / ((1 + u) * r))) \<le> float64 ?q" by linarith
    then have "(1 - u) * ((1 - u) * (8 * ((1 - u) * b / ((1 + u) * r))) * 1000000000)
        \<le> (1 - u) * (float64 ?q * 1000000000)"
      using u by (intro mult_left_mono) simp_all
    with ft(1) show ?thesis by linarith
  qed
  moreover have "(1 - u) * ((1 - u) * (8 * ((1 - u) * b / ((1 + u) * r))) * 1000000000) = (1 - u) ^ 3 / (1 + u) * ?e"
    using r u by (simp add: e power3_eq_cube)
  moreover have "?t \<le> (1 + u) * ((1 + u) * (8 * ((1 + u) * b / ((1 - u) * r))) * 1000000000)"
  proof -
    have "(1 + u) * ?q \<le> (1 + u) * (8 * ((1 + u) * b / ((1 - u) * r)))"
      unfolding q by (intro mult_left_mono high) (use u in simp_all)
    with fq(2) have "float64 ?q \<le> (1 + u) * (8 * ((1 + u) * b / ((1 - u) * r)))" by linarith
    then have "(1 + u) * (float64 ?q * 1000000000)
        \<le> (1 + u) * ((1 + u) * (8 * ((1 + u) * b / ((1 - u) * r))) * 1000000000)"
      using u by (intro mult_left_mono) simp_all
    with ft(2) show ?thesis by linarith
  qed
  moreover have "(1 + u) * ((1 + u) * (8 * ((1 + u) * b / ((1 - u) * r))) * 1000000000) = (1 + u) ^ 3 / (1 - u) * ?e"
    using r u by (simp add: e power3_eq_cube)
  moreover have "(1 - 1 / 2 ^ 50) * ?e \<le> (1 - u) ^ 3 / (1 + u) * ?e" "(1 + u) ^ 3 / (1 - u) * ?e \<le> (1 + 1 / 2 ^ 50) * ?e"
    using e0 by (intro mult_right_mono; simp add: u_def power_divide)+
  ultimately have "(1 - 1 / 2 ^ 50) * ?e \<le> ?t" "?t \<le> (1 + 1 / 2 ^ 50) * ?e" by linarith+
  moreover have "timeToBlock bytes rate = Some ?t"
    using r0 by (simp add: timeToBlock_def Let_def r_def b_def)
  ultimately show thesis using that float64_nonneg by blast
qed


lemma exact_time_add: "exact_time (a + b) rate = exact_time a rate + exact_time b rate"
  by (simp add: exact_time_def add_divide_distrib ring_distribs)

lemma exact_time_le: "0 \<le> a \<Longrightarrow> 0 \<le> exact_time a rate"
  unfolding exact_time_def by (intro divide_nonneg_nonneg) (simp_all only: of_int_0_le_iff uint_ge_0)

lemma delay_bounds:
  assumes "0 \<le> bytes" and "bytes \<le> 2 ^ 30" and "rate \<noteq> 0"
  shows "0 \<le> Duration unrep (timeToBlock bytes rate)"
    "(1 - 1 / 2 ^ 50) * exact_time bytes rate - 1 \<le> of_int (Duration unrep (timeToBlock bytes rate))"
    "of_int (Duration unrep (timeToBlock bytes rate)) \<le> (1 + 1 / 2 ^ 50) * exact_time bytes rate"
proof -
  obtain t where t: "timeToBlock bytes rate = Some t" "0 \<le> t"
    "(1 - 1 / 2 ^ 50) * exact_time bytes rate \<le> t" "t \<le> (1 + 1 / 2 ^ 50) * exact_time bytes rate"
    using timeToBlock_bounds [OF assms(1,3)] by blast
  have "uint rate \<noteq> 0" using assms(3) by (simp add: unsigned_eq_0_iff)
  then have "1 \<le> uint rate" using uint_ge_0 [of rate] by linarith
  then have "(1::rat) \<le> of_int (uint rate)" unfolding of_int_1_le_iff .
  moreover have "of_int (bytes * 8 * 1000000000) \<le> (2 ^ 30 * 8 * 1000000000 :: rat)"
    using assms(2) by (simp add: of_int_le_iff [of bytes "2 ^ 30", symmetric, where 'a = rat])
  ultimately have "exact_time bytes rate \<le> 2 ^ 30 * 8 * 1000000000 / 1"
    unfolding exact_time_def by (intro frac_le) simp_all
  with t(4) have "t < 2 ^ 63" by simp
  then have d: "Duration unrep (timeToBlock bytes rate) = \<lfloor>t\<rfloor>" by (simp add: Duration_def t(1))
  show "0 \<le> Duration unrep (timeToBlock bytes rate)" using t(2) by (simp add: d)
  have "t - 1 \<le> of_int \<lfloor>t\<rfloor>" "of_int \<lfloor>t\<rfloor> \<le> t" by linarith+
  with t(3,4) show "(1 - 1 / 2 ^ 50) * exact_time bytes rate - 1 \<le> of_int (Duration unrep (timeToBlock bytes rate))"
    "of_int (Duration unrep (timeToBlock bytes rate)) \<le> (1 + 1 / 2 ^ 50) * exact_time bytes rate"
    unfolding d by linarith+
qed

definition consume_all :: "int \<Rightarrow> int list \<Rightarrow> ThrottleController \<times> int \<Rightarrow> ThrottleController \<times> int" where
  "consume_all unrep ns s = foldl (\<lambda>s n. ConsumeBytes unrep n s) s ns"

lemma consume_all_snoc: "consume_all unrep (ns @ [n]) s = ConsumeBytes unrep n (consume_all unrep ns s)"
  by (simp add: consume_all_def)

lemma consume_all_bounds:
  assumes "rate \<noteq> 0" and "tc_rate tc0 = rate" and "tc_allowNextReadAfter tc0 = 0"
    and "\<forall>n \<in> set ns. 0 \<le> n \<and> n \<le> 2 ^ 30" and "consume_all unrep ns (tc0, start) = (tc, now)"
  shows "tc_rate tc = rate \<and> 0 \<le> tc_allowNextReadAfter tc \<and>
    (1 - 1 / 2 ^ 50) * exact_time (sum_list ns) rate - of_nat (length ns) \<le>
      of_int (now - start + tc_allowNextReadAfter tc) \<and>
    of_int (now - start + tc_allowNextReadAfter tc) \<le> (1 + 1 / 2 ^ 50) * exact_time (sum_list ns) rate"
  using assms(4,5)
proof (induction ns arbitrary: tc now rule: rev_induct)
  case Nil
  then show ?case using assms(2,3) by (auto simp: consume_all_def exact_time_def)
next
  case (snoc n ns)
  obtain tc1 now1 where c1: "consume_all unrep ns (tc0, start) = (tc1, now1)" by fastforce
  from snoc.IH [OF _ c1] snoc.prems(1) have IH: "tc_rate tc1 = rate" "0 \<le> tc_allowNextReadAfter tc1"
    "(1 - 1 / 2 ^ 50) * exact_time (sum_list ns) rate - of_nat (length ns) \<le>
      of_int (now1 - start + tc_allowNextReadAfter tc1)"
    "of_int (now1 - start + tc_allowNextReadAfter tc1) \<le> (1 + 1 / 2 ^ 50) * exact_time (sum_list ns) rate"
    by auto
  let ?d = "Duration unrep (timeToBlock n rate)"
  have tc: "tc = tc1\<lparr>tc_allowNextReadAfter := ?d\<rparr>" "now = now1 + tc_allowNextReadAfter tc1"
    using snoc.prems(2) IH(1,2) by (simp_all add: consume_all_snoc c1 ConsumeBytes_def Let_def)
  have "0 \<le> n" "n \<le> 2 ^ 30" using snoc.prems(1) by auto
  note d = delay_bounds [OF this assms(1), of unrep]
  have e: "exact_time (sum_list (ns @ [n])) rate = exact_time (sum_list ns) rate + exact_time n rate"
    by (simp add: exact_time_add)
  have elapsed: "of_int (now - start + tc_allowNextReadAfter tc) =
      of_int (now1 - start + tc_allowNextReadAfter tc1) + (of_int ?d :: rat)"
    by (simp add: tc)
  have "(1 - 1 / 2 ^ 50) * exact_time (sum_list (ns @ [n])) rate - of_nat (length (ns @ [n])) \<le>
      of_int (now - start + tc_allowNextReadAfter tc)"
    unfolding elapsed e using IH(3) d(2) by (simp add: distrib_left)
  moreover have "of_int (now - start + tc_allowNextReadAfter tc) \<le>
      (1 + 1 / 2 ^ 50) * exact_time (sum_list (ns @ [n])) rate"
    unfolding elapsed e using IH(4) d(3) by (simp add: distrib_left)
  ultimately show ?case using IH(1) d(1) by (simp add: tc(1))
qed

lemma consume_all_speed:
  assumes "rate \<noteq> 0" and "tc_rate tc0 = rate" and "tc_allowNextReadAfter tc0 = 0"
    and "\<forall>n \<in> set (ns @ [n]). 0 \<le> n \<and> n \<le> 2 ^ 30" and "consume_all unrep (ns @ [n]) (tc0, start) = (tc, now)"
  shows "(1 - 1 / 2 ^ 50) * exact_time (sum_list ns) rate - of_nat (length ns) \<le> of_int (now - start) \<and>
    of_int (now - start) \<le> (1 + 1 / 2 ^ 50) * exact_time (sum_list ns) rate"
proof -
  obtain tc1 now1 where c1: "consume_all unrep ns (tc0, start) = (tc1, now1)" by fastforce
  from consume_all_bounds [OF assms(1-3) _ c1] assms(4,5) show ?thesis
    by (simp add: consume_all_snoc c1 ConsumeBytes_def Let_def)
qed

text \<open>(C15) The speed: whatever bodies share a controller and however their reads are interleaved, the
  time that has passed when a read returns is the time all reads before it should take at the
  rate of the controller, up to the rounding of \<open>float64\<close> and one nanosecond a read.  The bytes of
  the last read are not waited for, so what fits into one read is not slowed down at all.\<close>

theorem throttle_speed:
  assumes "rate \<noteq> 0" and "tc_rate tc0 = rate" and "tc_allowNextReadAfter tc0 = 0"
    and "\<forall>n \<in> set (ns @ [n]). 0 \<le> n \<and> n \<le> 2 ^ 30" and "consume_all unrep (ns @ [n]) (tc0, start) = (tc, now)"
  shows "(1 - 1 / 2 ^ 50) * exact_time (sum_list ns) rate - of_nat (length ns) \<le> of_int (now - start) \<and>
    of_int (now - start) \<le> (1 + 1 / 2 ^ 50) * exact_time (sum_list ns) rate"
  using assms by (rule consume_all_speed)

theorem throttle_speed_witness:
  "\<exists>tc now. consume_all 0 [125000, 250000, 1] (NewThrottleController 1000000 7, 7) = (tc, now) \<and>
    2999999990 \<le> now - 7 \<and> now - 7 \<le> 3000000001"
proof -
  obtain tc now where c: "consume_all 0 ([125000, 250000] @ [1]) (NewThrottleController 1000000 7, 7) = (tc, now)"
    by fastforce
  have "exact_time (sum_list [125000, 250000]) 1000000 = 3000000000" by (simp add: exact_time_def)
  with throttle_speed [OF _ _ _ _ c] have "(2999999990::rat) \<le> of_int (now - 7)" "of_int (now - 7) \<le> (3000000001::rat)"
    by (simp_all add: NewThrottleController_def)
  with c show ?thesis by simp
qed


subsection \<open>A throttled body\<close>

context io_reader
begin

lemma throttled_chunks:
  assumes "ok (th_data r)" and "\<And>i. 0 < sz i \<and> sz i \<le> 2 ^ 30"
  shows "\<exists>cs r'. drain (th_Read unrep rd) sz i acc r = Some (acc @ rest (th_data r), fin (th_data r), r') \<and>
    concat cs = rest (th_data r) \<and> cs \<noteq> [] \<and> (\<forall>c \<in> set cs. length c \<le> 2 ^ 30) \<and>
    th_controller r' = consume_all unrep (map (\<lambda>c. int (length c)) cs) (th_controller r)"
  using assms(1)
proof (induction "rank (th_data r)" arbitrary: r i acc rule: less_induct)
  case less
  obtain bs e d where rd: "rd (th_data r) (sz i) = (bs, e, d)" by (cases "rd (th_data r) (sz i)") auto
  let ?r = "r\<lparr>th_data := d, th_controller := ConsumeBytes unrep (int (length bs)) (th_controller r)\<rparr>"
  have th: "th_Read unrep rd r (sz i) = (bs, e, ?r)" by (simp add: th_Read_def rd)
  note st = rd_step [OF less.prems rd]
  have len: "length bs \<le> 2 ^ 30" using st(1) assms(2) [of i] by linarith
  show ?case
  proof (cases e)
    case (Some x)
    with st(3,6,7) th len show ?thesis
      by (intro exI [of _ "[bs]"] exI [of _ ?r]) (simp add: drain.simps [of _ _ i] consume_all_def)
  next
    case None
    with st(5) assms(2) [of i] have "rank (th_data ?r) < rank (th_data r)" by simp
    from less.hyps [OF this, of "Suc i" "acc @ bs"] st(2) obtain cs r' where
      "drain (th_Read unrep rd) sz (Suc i) (acc @ bs) ?r = Some ((acc @ bs) @ rest d, fin d, r')"
      "concat cs = rest d" "cs \<noteq> []" "\<forall>c \<in> set cs. length c \<le> 2 ^ 30"
      "th_controller r' = consume_all unrep (map (\<lambda>c. int (length c)) cs) (th_controller ?r)"
      by auto
    with None th len st(3,4) show ?thesis
      by (intro exI [of _ "bs # cs"] exI [of _ r']) (simp add: drain.simps [of _ _ i] consume_all_def)
  qed
qed

end

text \<open>A throttled body delivers the body, byte for byte and with its final error, however it is
  read; when the last read returns, the time that has passed is what all bytes but those of the
  last read should take.\<close>

theorem throttled_body:
  assumes "\<not> src_closed s" and "\<And>i. 0 < sz i \<and> sz i \<le> 2 ^ 30" and "rate \<noteq> 0"
  shows "\<exists>cs c r'. drain (th_Read unrep src_read) sz 0 []
      (tc_ReadCloser s (NewThrottleController rate start, start)) = Some (src_rest s, src_fin s, r') \<and>
    concat (cs @ [c]) = src_rest s \<and>
    (let passed = of_int (snd (th_controller r') - start); exact = exact_time (int (length (concat cs))) rate
     in (1 - 1 / 2 ^ 50) * exact - of_nat (length cs) \<le> passed \<and> passed \<le> (1 + 1 / 2 ^ 50) * exact)"
proof -
  let ?r = "tc_ReadCloser s (NewThrottleController rate start, start)"
  let ?tc = "tc_Add (NewThrottleController rate start)"
  have r: "th_data ?r = s" "th_controller ?r = (?tc, start)" by (simp_all add: tc_ReadCloser_def)
  have "src_ok (th_data ?r)" using assms(1) by (simp add: r src_ok_def)
  from src.throttled_chunks [where i = 0 and acc = "[]" and unrep = unrep and sz = sz, OF this assms(2)] obtain cs r' where
    d: "drain (th_Read unrep src_read) sz 0 [] ?r = Some (src_rest s, src_fin s, r')"
    "concat cs = src_rest s" "cs \<noteq> []" "\<forall>c \<in> set cs. length c \<le> 2 ^ 30"
    "th_controller r' = consume_all unrep (map (\<lambda>c. int (length c)) cs) (?tc, start)"
    by (auto simp: r)
  then obtain ds c where cs: "cs = ds @ [c]" by (cases cs rule: rev_cases) auto
  obtain tc now where tn: "th_controller r' = (tc, now)" by fastforce
  let ?len = "\<lambda>c. int (length c)"
  have "consume_all unrep (map ?len ds @ [?len c]) (?tc, start) = (tc, now)" using d(5) tn by (simp add: cs)
  moreover have "tc_rate ?tc = rate" "tc_allowNextReadAfter ?tc = 0"
    by (simp_all add: tc_Add_def NewThrottleController_def)
  moreover have "\<forall>n \<in> set (map ?len ds @ [?len c]). 0 \<le> n \<and> n \<le> 2 ^ 30" using d(4) by (auto simp: cs)
  ultimately have "(1 - 1 / 2 ^ 50) * exact_time (sum_list (map ?len ds)) rate - of_nat (length ds) \<le> of_int (now - start) \<and>
      of_int (now - start) \<le> (1 + 1 / 2 ^ 50) * exact_time (sum_list (map ?len ds)) rate"
    using consume_all_speed [OF assms(3), of ?tc "map ?len ds" "?len c" unrep start tc now] by simp
  moreover have "sum_list (map ?len ds) = ?len (concat ds)" by (induction ds) simp_all
  ultimately show ?thesis using d(1,2) tn cs
    by (intro exI [of _ ds] exI [of _ c] exI [of _ r']) (simp add: Let_def)
qed

theorem throttled_body_witness:
  "\<exists>bs r'. drain (th_Read 0 src_read) (\<lambda>_. 2) 0 [] (tc_ReadCloser
      \<lparr>src_events = [(''abc'', None), (''d'', Some EOF)], src_closed = False\<rparr> (NewThrottleController 8 0, 0)) =
    Some (bs, EOF, r') \<and> bs = ''abcd''"
  using throttled_body [of "\<lparr>src_events = [(''abc'', None), (''d'', Some EOF)], src_closed = False\<rparr>" "\<lambda>_. 2" 8 0 0]
  by (auto simp: src_rest_def src_fin_def)

end
