(* ===== verification/Sessions.thy ===== *)
theory Sessions
  imports PrxConfig Throttle
begin

text \<open>
  What \<open>main.go\<close> keeps for every client address: the compiled rules, when the client was last
  seen, and the throttle controllers of its rules.  The three maps are \<open>sync.Map\<close>s; a controller
  is shared by the bodies that are being sent, so the controllers live in a store of their own
  and the map refers to them by number.
\<close>

record sessions =
  ss_lastTimeUsed :: "string \<Rightarrow> int option"
  ss_rewriteRules :: "string \<Rightarrow> RewriteRules option"
  ss_throttledConnections :: "string \<Rightarrow> (string \<Rightarrow> nat option) option"
  ss_controllers :: "ThrottleController list"

definition no_sessions :: sessions where
  "no_sessions = \<lparr>ss_lastTimeUsed = Map.empty, ss_rewriteRules = Map.empty,
     ss_throttledConnections = Map.empty, ss_controllers = []\<rparr>"

definition store_used :: "string \<Rightarrow> int \<Rightarrow> sessions \<Rightarrow> sessions" where
  "store_used ip now s = s\<lparr>ss_lastTimeUsed := (ss_lastTimeUsed s)(ip \<mapsto> now)\<rparr>"

text \<open>The rules are a slice: a configuration without entries compiles to nil and removes them.\<close>

definition store_rules :: "string \<Rightarrow> RewriteRules \<Rightarrow> sessions \<Rightarrow> sessions" where
  "store_rules ip rules s =
     (let s = (if rules \<noteq> [] then s\<lparr>ss_rewriteRules := (ss_rewriteRules s)(ip \<mapsto> rules)\<rparr>
               else s\<lparr>ss_rewriteRules := (ss_rewriteRules s)(ip := None)\<rparr>)
      in s\<lparr>ss_throttledConnections := (ss_throttledConnections s)(ip := None)\<rparr>)"

definition clear_rules :: "string \<Rightarrow> sessions \<Rightarrow> sessions" where
  "clear_rules ip s =
     (let s = s\<lparr>ss_rewriteRules := (ss_rewriteRules s)(ip := None)\<rparr>
      in s\<lparr>ss_throttledConnections := (ss_throttledConnections s)(ip := None)\<rparr>)"

definition rules_of :: "string \<Rightarrow> sessions \<Rightarrow> RewriteRules" where
  "rules_of ip s = (case ss_rewriteRules s ip of None \<Rightarrow> [] | Some rules \<Rightarrow> rules)"

subsection \<open>The controllers of a client\<close>

definition find_client :: "string \<Rightarrow> sessions \<Rightarrow> (string \<Rightarrow> nat option) \<times> sessions" where
  "find_client ip s =
     (case ss_throttledConnections s ip of
        Some c \<Rightarrow> (c, s)
      | None \<Rightarrow> (Map.empty, s\<lparr>ss_throttledConnections := (ss_throttledConnections s)(ip \<mapsto> Map.empty)\<rparr>))"

definition find_controller :: "string \<Rightarrow> string \<Rightarrow> 64 word \<Rightarrow> int \<Rightarrow> sessions \<Rightarrow> nat \<times> sessions" where
  "find_controller ip key rate now s =
     (let (throttledClient, s) = find_client ip s
      in case throttledClient key of
           Some i \<Rightarrow> (i, s)
         | None \<Rightarrow>
             (let i = length (ss_controllers s);
                  s = s\<lparr>ss_controllers := ss_controllers s @ [NewThrottleController rate now]\<rparr>
              in (i, s\<lparr>ss_throttledConnections := (ss_throttledConnections s)(ip \<mapsto> throttledClient(key \<mapsto> i))\<rparr>)))"

definition add_reader :: "nat \<Rightarrow> sessions \<Rightarrow> sessions" where
  "add_reader i s = s\<lparr>ss_controllers := (ss_controllers s)[i := tc_Add (ss_controllers s ! i)]\<rparr>"

text \<open>Every controller the map refers to is in the store.\<close>

definition sessions_ok :: "sessions \<Rightarrow> bool" where
  "sessions_ok s \<longleftrightarrow> (\<forall>ip c key i. ss_throttledConnections s ip = Some c \<longrightarrow> c key = Some i \<longrightarrow>
     i < length (ss_controllers s))"

lemma sessions_ok_no [simp]: "sessions_ok no_sessions"
  by (simp add: sessions_ok_def no_sessions_def)

lemma sessions_ok_store [simp]:
  "sessions_ok s \<Longrightarrow> sessions_ok (store_used ip now s)"
  "sessions_ok s \<Longrightarrow> sessions_ok (store_rules ip rules s)"
  "sessions_ok s \<Longrightarrow> sessions_ok (clear_rules ip s)"
  by (auto simp: sessions_ok_def store_used_def store_rules_def clear_rules_def Let_def split: if_splits)

lemma find_controller_ok:
  assumes "sessions_ok s" and "find_controller ip key rate now s = (i, s')"
  shows "sessions_ok s' \<and> i < length (ss_controllers s') \<and>
    (\<exists>c. ss_throttledConnections s' ip = Some c \<and> c key = Some i) \<and>
    (\<forall>j < length (ss_controllers s). ss_controllers s' ! j = ss_controllers s ! j) \<and>
    ss_rewriteRules s' = ss_rewriteRules s \<and> ss_lastTimeUsed s' = ss_lastTimeUsed s"
proof (cases "ss_throttledConnections s ip")
  case None
  with assms show ?thesis
    by (auto simp: find_controller_def find_client_def Let_def sessions_ok_def nth_append split: if_splits)
       (metis less_SucI)+
next
  case (Some c)
  show ?thesis
  proof (cases "c key")
    case None
    with Some assms show ?thesis
      by (auto simp: find_controller_def find_client_def Let_def sessions_ok_def nth_append split: if_splits)
         (metis less_SucI)+
  next
    case (Some j)
    with \<open>ss_throttledConnections s ip = Some c\<close> assms show ?thesis
      by (auto simp: find_controller_def find_client_def Let_def sessions_ok_def)
  qed
qed

lemma add_reader_ok: "sessions_ok (add_reader i s) \<longleftrightarrow> sessions_ok s"
  by (simp add: sessions_ok_def add_reader_def)

subsection \<open>Forgetting clients\<close>

text \<open>One round of the session cleaner, over the addresses in the order \<open>Range\<close> visits them.\<close>

definition clean_session :: "int \<Rightarrow> int \<Rightarrow> string \<Rightarrow> sessions \<Rightarrow> sessions" where
  "clean_session expiration now key s =
     (case ss_lastTimeUsed s key of
        None \<Rightarrow> s
      | Some used \<Rightarrow>
          if used + expiration < now then
            s\<lparr>ss_lastTimeUsed := (ss_lastTimeUsed s)(key := None),
              ss_rewriteRules := (ss_rewriteRules s)(key := None),
              ss_throttledConnections := (ss_throttledConnections s)(key := None)\<rparr>
          else s)"

definition clean_round :: "int \<Rightarrow> int \<Rightarrow> string list \<Rightarrow> sessions \<Rightarrow> sessions" where
  "clean_round expiration now keys s = foldl (\<lambda>s key. clean_session expiration now key s) s keys"

definition stale :: "int \<Rightarrow> int \<Rightarrow> sessions \<Rightarrow> string \<Rightarrow> bool" where
  "stale expiration now s ip \<longleftrightarrow>
     (case ss_lastTimeUsed s ip of None \<Rightarrow> False | Some used \<Rightarrow> used + expiration < now)"

lemma clean_round_maps:
  "distinct keys \<Longrightarrow>
   clean_round expiration now keys s =
     s\<lparr>ss_lastTimeUsed := (\<lambda>ip. if ip \<in> set keys \<and> stale expiration now s ip then None else ss_lastTimeUsed s ip),
       ss_rewriteRules := (\<lambda>ip. if ip \<in> set keys \<and> stale expiration now s ip then None else ss_rewriteRules s ip),
       ss_throttledConnections := (\<lambda>ip. if ip \<in> set keys \<and> stale expiration now s ip then None
                                        else ss_throttledConnections s ip)\<rparr>"
proof (induction keys arbitrary: s)
  case (Cons key keys)
  show ?case
  proof (cases "stale expiration now s key")
    case True
    let ?s = "s\<lparr>ss_lastTimeUsed := (ss_lastTimeUsed s)(key := None),
        ss_rewriteRules := (ss_rewriteRules s)(key := None),
        ss_throttledConnections := (ss_throttledConnections s)(key := None)\<rparr>"
    from True have c: "clean_session expiration now key s = ?s"
      by (auto simp: clean_session_def stale_def split: option.splits)
    have "clean_round expiration now (key # keys) s = clean_round expiration now keys ?s"
      by (simp add: clean_round_def c)
    moreover have "stale expiration now ?s ip \<longleftrightarrow> ip \<noteq> key \<and> stale expiration now s ip" for ip
      by (simp add: stale_def)
    ultimately show ?thesis using Cons True by (intro sessions.equality ext) auto
  next
    case False
    then have "clean_session expiration now key s = s"
      by (auto simp: clean_session_def stale_def split: option.splits)
    with Cons False show ?thesis by (intro sessions.equality ext) (auto simp: clean_round_def)
  qed
qed (simp add: clean_round_def)

text \<open>The session cleaner forgets exactly the clients that have not been seen for longer than the
  expiration time: their rules, their controllers and the record itself; all other clients keep
  theirs.  Rules set for an address that has never used the proxy are kept for ever.\<close>

theorem clean_round_exact:
  assumes "distinct keys" and "set keys = dom (ss_lastTimeUsed s)"
  shows "ss_rewriteRules (clean_round expiration now keys s) =
      (\<lambda>ip. if stale expiration now s ip then None else ss_rewriteRules s ip) \<and>
    ss_throttledConnections (clean_round expiration now keys s) =
      (\<lambda>ip. if stale expiration now s ip then None else ss_throttledConnections s ip) \<and>
    ss_lastTimeUsed (clean_round expiration now keys s) =
      (\<lambda>ip. if stale expiration now s ip then None else ss_lastTimeUsed s ip) \<and>
    (ss_lastTimeUsed s ip = None \<longrightarrow> rules_of ip (clean_round expiration now keys s) = rules_of ip s)"
proof -
  have "ip \<in> set keys \<and> stale expiration now s ip \<longleftrightarrow> stale expiration now s ip" for ip
    using assms(2) by (auto simp: stale_def split: option.splits)
  with clean_round_maps [OF assms(1), of expiration now s] show ?thesis
    by (auto simp: rules_of_def stale_def)
qed

theorem clean_round_exact_witness:
  "ss_rewriteRules (clean_round 10 100 [''a'', ''b''] (no_sessions
      \<lparr>ss_lastTimeUsed := [''a'' \<mapsto> 5, ''b'' \<mapsto> 95], ss_rewriteRules := [''a'' \<mapsto> [], ''b'' \<mapsto> []]\<rparr>)) =
    [''b'' \<mapsto> []]"
proof -
  let ?s = "no_sessions\<lparr>ss_lastTimeUsed := [''a'' \<mapsto> 5, ''b'' \<mapsto> 95], ss_rewriteRules := [''a'' \<mapsto> [], ''b'' \<mapsto> []]\<rparr>"
  have "distinct [''a'', ''b'']" "set [''a'', ''b''] = dom (ss_lastTimeUsed ?s)" by auto
  from clean_round_exact [OF this, of 10 100]
  have "ss_rewriteRules (clean_round 10 100 [''a'', ''b''] ?s) =
      (\<lambda>ip. if stale 10 100 ?s ip then None else ss_rewriteRules ?s ip)" by blast
  also have "\<dots> = [''b'' \<mapsto> []]" by (rule ext) (simp add: stale_def)
  finally show ?thesis .
qed

end
