(* ===== verification/ProxyLoop.thy ===== *)
theory ProxyLoop
  imports ServerConn Signer ConnSet Tunnel Sessions
begin

text \<open>
  The loop of \<open>proxy/proxy.go\<close>: accepting a client, reading its requests one after the other,
  answering them through \<open>Modify\<close> and the servers, \<open>CONNECT\<close> with its forged certificate or its
  tunnel, and the check for idle clients.

  The outside is a script again: what the client sends and when, how the writes to it and the
  TLS handshakes end, what passes through the tunnels, and the schedules of the exchanges with
  the servers; the record also keeps what was sent.  A client connection is a handle: the
  connection and whether it is wrapped in TLS.
\<close>

subsection \<open>The outside\<close>

type_synonym handle = "conn \<times> bool"

record world =
  w_net :: net
  w_requests :: "(int \<times> rbody request option \<times> goerr option) list"
  w_sends :: "goerr option list"
  w_sent :: "rbody response list"
  w_raw :: "bytes list"
  w_handshakes :: "goerr option list"
  w_presented :: "octets list list"
  w_tunnels :: "(endpoint \<times> endpoint \<times> dir list) list"
  w_scheds :: "(rt_event list \<times> rt_event list) list"
  w_time :: int
  w_clientConns :: int
  w_sessions :: sessions

definition is_open :: "handle \<Rightarrow> world \<Rightarrow> bool" where
  "is_open h w \<longleftrightarrow> fst h \<in> set (nt_open (w_net w))"

definition closed_error :: goerr where
  "closed_error = Err ''use of closed network connection''"

definition read_request :: "(res closer, handle, world) req_reader" where
  "read_request h w =
     (if \<not> is_open h w then (None, Some closed_error, w)
      else case w_requests w of
             [] \<Rightarrow> (None, Some EOF, w)
           | (t, r, e) # rs \<Rightarrow> (r, e, w\<lparr>w_requests := rs, w_time := t\<rparr>))"

definition next_send :: "handle \<Rightarrow> world \<Rightarrow> goerr option \<times> world" where
  "next_send h w =
     (if \<not> is_open h w then (Some closed_error, w)
      else case w_sends w of [] \<Rightarrow> (None, w) | e # es \<Rightarrow> (e, w\<lparr>w_sends := es\<rparr>))"

definition send_response :: "(res closer, handle, world) resp_writer" where
  "send_response resp h w =
     (let (e, w) = next_send h w in (e, if e = None then w\<lparr>w_sent := w_sent w @ [resp]\<rparr> else w))"

definition send_raw :: "bytes \<Rightarrow> handle \<Rightarrow> world \<Rightarrow> goerr option \<times> world" where
  "send_raw bs h w =
     (let (e, w) = next_send h w in (e, if e = None then w\<lparr>w_raw := w_raw w @ [bs]\<rparr> else w))"

definition handshake :: "octets list \<Rightarrow> handle \<Rightarrow> world \<Rightarrow> goerr option \<times> world" where
  "handshake chain h w =
     (let w = w\<lparr>w_presented := w_presented w @ [chain]\<rparr>
      in case w_handshakes w of [] \<Rightarrow> (None, w) | e # es \<Rightarrow> (e, w\<lparr>w_handshakes := es\<rparr>))"

definition close_handle :: "handle \<Rightarrow> world close_fn" where
  "close_handle h w = (let (e, nt) = conn_close (fst h) (w_net w) in (e, w\<lparr>w_net := nt\<rparr>))"

text \<open>\<open>RoundTrip\<close> under the next two schedules of the script.\<close>

definition round_trip ::
  "decoders \<Rightarrow> (conn \<Rightarrow> string) \<Rightarrow> ServerConnProps \<Rightarrow> rbody request option \<Rightarrow> world \<Rightarrow>
     ((rbody response option \<times> goerr option) \<times> rbody request option \<times> ServerConnProps \<times> world) outcome option" where
  "round_trip dec remote server req w =
     (let (s1, s2) = (case w_scheds w of [] \<Rightarrow> ([], []) | s # _ \<Rightarrow> s)
      in case sc_RoundTrip dec remote s1 s2 server req (w_net w) of
           None \<Rightarrow> None
         | Some (Panic m) \<Rightarrow> Some (Panic m)
         | Some (Ret (res, req, server, nt)) \<Rightarrow>
             Some (Ret (res, req, server, w\<lparr>w_net := nt, w_scheds := tl (w_scheds w)\<rparr>)))"

record ('k, 'ip, 'c, 's) outside =
  ou_crypto :: "('k, 'ip, 'c, 's) crypto"
  ou_dec :: decoders
  ou_remote :: "conn \<Rightarrow> string"

subsection \<open>The proxy\<close>

type_synonym modify =
  "rbody request \<Rightarrow> handle ClientConnProps \<Rightarrow> ServerConnProps \<Rightarrow> world \<Rightarrow>
     ((rbody request option \<times> rbody response option) \<times> ServerConnProps \<times> world) outcome option"

text \<open>A client is named by the number of its connection.\<close>

record 'k proxy =
  px_Cert :: "'k tls_certificate"
  px_Modify :: "modify option"
  px_conns :: "conn connSet"
  px_idleConns :: "conn connSet"
  px_IdleTimeout :: int
  px_MaxHeaderBytes :: int
  px_MaxConnsKeptAlive :: int
  px_ResponseHeaderTimeout :: int

definition second :: int where
  "second = 1000000000"

definition Proxy :: "'k proxy" where
  "Proxy =
     \<lparr>px_Cert = \<lparr>tc_Certificate = [], tc_PrivateKey = OtherKey\<rparr>,
      px_Modify = Some (\<lambda>req client server w. Some (Ret ((Some req, None), server, w))),
      px_conns = new_connSet, px_idleConns = new_connSet, px_IdleTimeout = 100 * second,
      px_MaxHeaderBytes = 20000, px_MaxConnsKeptAlive = 30, px_ResponseHeaderTimeout = 30 * second\<rparr>"

definition OnRequest :: "'k proxy \<Rightarrow> modify option \<Rightarrow> 'k proxy" where
  "OnRequest p modify = p\<lparr>px_Modify := modify\<rparr>"

subsection \<open>CONNECT\<close>

text \<open>\<open>net.DialTimeout\<close> returns no connection along with an error.\<close>

definition dial_tcp :: "string \<Rightarrow> net \<Rightarrow> conn option \<times> goerr option \<times> net" where
  "dial_tcp addr nt =
     (case dial addr False nt of
        (Some c, Some e, nt) \<Rightarrow> (None, Some e, snd (conn_close c nt))
      | res \<Rightarrow> res)"

definition ok_line :: "'b request \<Rightarrow> bytes" where
  "ok_line r = rq_Proto r @ '' 200 OK'' @ [CHR 0x0D, CHR 0x0A, CHR 0x0D, CHR 0x0A]"

definition handleConnect ::
  "('k, 'ip, 'c, 's) outside \<Rightarrow> 'k tls_certificate \<Rightarrow> rbody request \<Rightarrow> handle \<Rightarrow> world \<Rightarrow>
     (handle option \<times> goerr option \<times> world) outcome option" where
  "handleConnect ou cert connectRequest client w =
     (let mitm = (snd (SplitHostAndPort (url_Host (rq_URL connectRequest))) = ''443'');
          mitm = (mitm \<and> \<not> snd client);
          hostAndPort = resolveRealHost (rq_URL connectRequest) (rq_Host connectRequest);
          (host, _) = SplitHostAndPort hostAndPort
      in if mitm then
           (case signHost (ou_crypto ou) cert [host] of
              Panic m \<Rightarrow> Some (Panic m)
            | Ret signedCert \<Rightarrow>
                (let chain = (case signedCert of Inl _ \<Rightarrow> [] | Inr c \<Rightarrow> tc_Certificate c);
                     (err, w) = send_raw (ok_line connectRequest) client w
                 in if err \<noteq> None then Some (Ret (None, err, w))
                    else
                      let (err, w) = handshake chain client w
                      in if err \<noteq> None then Some (Ret (None, err, w))
                         else Some (Ret (Some (fst client, True), None, w))))
         else
           (case dial_tcp hostAndPort (w_net w) of
              (server, err, nt) \<Rightarrow>
                let w = w\<lparr>w_net := nt\<rparr>
                in case server of
                     None \<Rightarrow> Some (Ret (None, err, w))
                   | Some s \<Rightarrow>
                       if err \<noteq> None then Some (Ret (None, err, w))
                       else
                         let (_, w) = send_raw (ok_line connectRequest) client w
                         in case w_tunnels w of
                              [] \<Rightarrow> None
                            | (left, right, sched) # ts \<Rightarrow>
                                (case doubleSidedCopy sched left right of
                                   None \<Rightarrow> None
                                 | Some _ \<Rightarrow>
                                     (let w = w\<lparr>w_tunnels := ts\<rparr>;
                                          (_, w) = close_handle client w;
                                          (_, w) = close_handle (s, False) w
                                      in Some (Ret (None, None, w))))))"

subsection \<open>One request\<close>

record 'k lc =
  lc_px :: "'k proxy"
  lc_client :: "handle ClientConnProps"
  lc_server :: ServerConnProps
  lc_world :: world

datatype ctl = Break | Continue

text \<open>What is made of a response before it is written to the client.\<close>

definition finish_response :: "bool \<Rightarrow> rbody response \<Rightarrow> rbody response" where
  "finish_response closeConnAfterRequest resp =
     (let resp = (if closeConnAfterRequest
                  then resp\<lparr>rs_Header := hdr_Set (rs_Header resp) ''Connection'' ''close'', rs_Close := True\<rparr>
                  else resp);
          resp = (if rs_Body resp = None then resp\<lparr>rs_Body := Some (rdr_of string_read [], NopClose)\<rparr> else resp)
      in if \<not> contains (rs_TransferEncoding resp) ''chunked'' \<and> rs_ContentLength resp = - 1 \<and> \<not> rs_Close resp
         then resp\<lparr>rs_Header := hdr_Set (rs_Header resp) ''Connection'' ''close'', rs_Close := True\<rparr>
         else resp)"

text \<open>Sending it, and what follows: the connection ends, or waits for the next request as an idle
  one.  \<open>Response.Write\<close> reads the body and closes it; here its outcome is the next of the script,
  and what a body gives when it is read, an error or a panic included, is the subject of
  \<open>RegexStream\<close> and \<open>ApiRules\<close>.\<close>

definition answer :: "conn \<Rightarrow> 'k lc \<Rightarrow> rbody response \<Rightarrow> (ctl \<times> 'k lc) outcome" where
  "answer cid st resp =
     (let client = lc_client st;
          resp = finish_response (cl_closeConnAfterRequest client) resp
      in case client_Write send_response client resp (lc_world st) of
           Panic m \<Rightarrow> Panic m
         | Ret (err, resp, w) \<Rightarrow>
             (let st = st\<lparr>lc_world := w\<rparr>
              in if err \<noteq> None then Ret (Break, st)
                 else if rs_Close resp then Ret (Break, st)
                 else
                   let st = st\<lparr>lc_client := client\<lparr>cl_lastUsedTime := w_time w\<rparr>\<rparr>;
                       p = lc_px st
                   in Ret (Continue, st\<lparr>lc_px := p\<lparr>px_idleConns := cs_Add (px_idleConns p) cid\<rparr>\<rparr>)))"

definition prepare_request :: "string \<Rightarrow> 'b request \<Rightarrow> 'b request" where
  "prepare_request addr request =
     (let request = request\<lparr>rq_RemoteAddr := addr\<rparr>;
          request = removeProxyHeaders request
      in request\<lparr>rq_URL := removeRedundantPort (rq_URL request)\<rparr>)"

text \<open>\<open>Modify\<close>, and the server when it gave no response.\<close>

definition respond ::
  "('k, 'ip, 'c, 's) outside \<Rightarrow> 'k lc \<Rightarrow> rbody request \<Rightarrow> (rbody response option \<times> 'k lc) outcome option" where
  "respond ou st request =
     (let modified = (case px_Modify (lc_px st) of
                        None \<Rightarrow> Some (Ret ((Some request, None), lc_server st, lc_world st))
                      | Some modify \<Rightarrow> modify request (lc_client st) (lc_server st) (lc_world st))
      in case modified of
           None \<Rightarrow> None
         | Some (Panic m) \<Rightarrow> Some (Panic m)
         | Some (Ret ((request, resp), server, w)) \<Rightarrow>
             (let st = st\<lparr>lc_server := server, lc_world := w\<rparr>
              in if request = None then Some (Ret (None, st))
                 else case resp of
                        Some r \<Rightarrow> Some (Ret (Some r, st))
                      | None \<Rightarrow>
                          (case round_trip (ou_dec ou) (ou_remote ou) server request w of
                             None \<Rightarrow> None
                           | Some (Panic m) \<Rightarrow> Some (Panic m)
                           | Some (Ret ((resp, err), request, server, w)) \<Rightarrow>
                               Some (Ret (resp, st\<lparr>lc_server := server, lc_world := w\<rparr>)))))"

text \<open>One turn of the loop of \<open>listenConn\<close>.\<close>

definition listen_step ::
  "('k, 'ip, 'c, 's) outside \<Rightarrow> conn \<Rightarrow> 'k lc \<Rightarrow> (ctl \<times> 'k lc) outcome option" where
  "listen_step ou cid st =
     (case client_Listen read_request (lc_client st) (lc_world st) of
        (request, err, w) \<Rightarrow>
          let st = st\<lparr>lc_world := w\<rparr>
          in if err \<noteq> None then Some (Ret (Break, st))
             else
               let p = lc_px st;
                   st = st\<lparr>lc_px := p\<lparr>px_idleConns := cs_Remove (px_idleConns p) cid\<rparr>\<rparr>
               in case (request, cl_Conn (lc_client st)) of
                    (Some r, Some h) \<Rightarrow>
                      if rq_Method r = ''CONNECT'' then
                        (case handleConnect ou (px_Cert p) r h w of
                           None \<Rightarrow> None
                         | Some (Panic m) \<Rightarrow> Some (Panic m)
                         | Some (Ret (conn, err, w)) \<Rightarrow>
                             (let st = st\<lparr>lc_world := w, lc_client := (lc_client st)\<lparr>cl_Conn := conn\<rparr>\<rparr>
                              in Some (Ret (if conn = None then Break else Continue, st))))
                      else
                        (case respond ou st (prepare_request (ou_remote ou (fst h)) r) of
                           None \<Rightarrow> None
                         | Some (Panic m) \<Rightarrow> Some (Panic m)
                         | Some (Ret (None, st)) \<Rightarrow> Some (Ret (Break, st))
                         | Some (Ret (Some resp, st)) \<Rightarrow> Some (answer cid st resp))
                  | _ \<Rightarrow> Some (Panic ''invalid memory address or nil pointer dereference''))"

partial_function (option) listen_loop ::
  "('k, 'ip, 'c, 's) outside \<Rightarrow> conn \<Rightarrow> 'k lc \<Rightarrow> 'k lc outcome option" where
  "listen_loop ou cid st =
     (case listen_step ou cid st of
        None \<Rightarrow> None
      | Some (Panic m) \<Rightarrow> Some (Panic m)
      | Some (Ret (Break, st')) \<Rightarrow> Some (Ret st')
      | Some (Ret (Continue, st')) \<Rightarrow> listen_loop ou cid st')"

text \<open>\<open>listenConn\<close>: the loop, then everything is closed; the counter of clients is put back when
  the function returns.\<close>

definition listen_end :: "conn \<Rightarrow> 'k lc \<Rightarrow> 'k lc" where
  "listen_end cid st =
     (let (_, server, nt) = sc_Close (lc_server st) (w_net (lc_world st));
          w = (lc_world st)\<lparr>w_net := nt\<rparr>;
          (_, w) = client_Close close_handle (lc_client st) w;
          p = lc_px st
      in st\<lparr>lc_server := server, lc_world := w\<lparr>w_clientConns := w_clientConns w - 1\<rparr>,
            lc_px := p\<lparr>px_idleConns := cs_Remove (px_idleConns p) cid\<rparr>\<rparr>)"

definition listen_start :: "'k proxy \<Rightarrow> handle ClientConnProps \<Rightarrow> world \<Rightarrow> 'k lc" where
  "listen_start p client w =
     \<lparr>lc_px = p, lc_client = client, lc_server = new_server (px_ResponseHeaderTimeout p),
      lc_world = w\<lparr>w_clientConns := w_clientConns w + 1\<rparr>\<rparr>"

definition listenConn ::
  "('k, 'ip, 'c, 's) outside \<Rightarrow> conn \<Rightarrow> 'k proxy \<Rightarrow> handle ClientConnProps \<Rightarrow> world \<Rightarrow> 'k lc outcome option" where
  "listenConn ou cid p client w =
     map_option (\<lambda>res. bind_outcome res (\<lambda>st. Ret (listen_end cid st)))
       (listen_loop ou cid (listen_start p client w))"

subsection \<open>Accepting and timing out\<close>

definition accept_client :: "'k proxy \<Rightarrow> conn \<Rightarrow> int \<Rightarrow> handle ClientConnProps" where
  "accept_client p c now =
     \<lparr>cl_lastUsedTime = now, cl_Conn = Some (c, False), cl_idleTimeout = px_IdleTimeout p,
      cl_maxHeaderBytes = px_MaxHeaderBytes p,
      cl_closeConnAfterRequest = (px_MaxConnsKeptAlive p \<le> sint (cs_Len (px_conns p)))\<rparr>"

text \<open>The goroutine \<open>Listen\<close> starts for an accepted connection.\<close>

definition serve_client ::
  "('k, 'ip, 'c, 's) outside \<Rightarrow> 'k proxy \<Rightarrow> conn \<Rightarrow> int \<Rightarrow> world \<Rightarrow> 'k lc outcome option" where
  "serve_client ou p c now w =
     (let client = accept_client p c now
      in map_option (\<lambda>res. bind_outcome res (\<lambda>st.
             let p = lc_px st in Ret (st\<lparr>lc_px := p\<lparr>px_conns := cs_Remove (px_conns p) c\<rparr>\<rparr>)))
           (listenConn ou c (p\<lparr>px_conns := cs_Add (px_conns p) c\<rparr>) client w))"

text \<open>One round of the timeout checker over the idle clients; \<open>clients\<close> is what their pointers
  refer to.\<close>

definition check_timeout ::
  "(conn \<Rightarrow> handle ClientConnProps) \<Rightarrow> int \<Rightarrow> conn \<Rightarrow> world \<Rightarrow> bool \<times> world" where
  "check_timeout clients now key w =
     (let client = clients key
      in if cl_lastUsedTime client + cl_idleTimeout client < now
         then (True, snd (client_Close close_handle client w)) else (True, w))"

definition timeout_round :: "(conn \<Rightarrow> handle ClientConnProps) \<Rightarrow> int \<Rightarrow> 'k proxy \<Rightarrow> world \<Rightarrow> world" where
  "timeout_round clients now p w = cs_Range (px_idleConns p) (check_timeout clients now) w"

subsection \<open>What the parts keep\<close>

text \<open>The fields of the world a part leaves alone.\<close>

definition same_outside :: "world \<Rightarrow> world \<Rightarrow> bool" where
  "same_outside w w' \<longleftrightarrow> w_clientConns w' = w_clientConns w \<and> w_requests w' = w_requests w \<and>
     w_sent w' = w_sent w"

lemma same_outside_refl [simp]: "same_outside w w"
  by (simp add: same_outside_def)

lemma same_outside_trans [trans]: "same_outside w w1 \<Longrightarrow> same_outside w1 w2 \<Longrightarrow> same_outside w w2"
  by (simp add: same_outside_def)

lemma client_Listen_world:
  assumes "client_Listen read_request client w = (r, e, w')"
  shows "w_net w' = w_net w \<and> w_clientConns w' = w_clientConns w \<and> w_sent w' = w_sent w \<and>
    (e = None \<longrightarrow> length (w_requests w') < length (w_requests w) \<and> r \<noteq> None \<and> cl_Conn client \<noteq> None) \<and>
    length (w_requests w') \<le> length (w_requests w)"
  using assms
  by (auto simp: client_Listen_def read_request_def Let_def split: option.splits if_splits list.splits prod.splits)

lemma next_send_world:
  "next_send h w = (e, w') \<Longrightarrow> w_net w' = w_net w \<and> same_outside w w'"
  by (auto simp: next_send_def same_outside_def split: if_splits list.splits)

lemma send_raw_world:
  "send_raw bs h w = (e, w') \<Longrightarrow> w_net w' = w_net w \<and> same_outside w w'"
  by (auto simp: send_raw_def same_outside_def dest!: next_send_world split: if_splits prod.splits)

lemma send_response_world:
  "send_response resp h w = (e, w') \<Longrightarrow>
     w_net w' = w_net w \<and> w_clientConns w' = w_clientConns w \<and> w_requests w' = w_requests w \<and>
     w_sent w' = (if e = None then w_sent w @ [resp] else w_sent w)"
  by (auto simp: send_response_def same_outside_def dest!: next_send_world split: if_splits prod.splits)

lemma handshake_world:
  "handshake chain h w = (e, w') \<Longrightarrow> w_net w' = w_net w \<and> same_outside w w'"
  by (auto simp: handshake_def same_outside_def Let_def split: list.splits)

lemma sc_RoundTrip_keeps:
  assumes "sc_inv base scp nt"
    and "sc_RoundTrip dec remote s1 s2 scp req nt = Some (Ret (res, req', scp', nt'))"
  shows "sc_inv base scp' nt'"
proof (cases req)
  case None
  with assms show ?thesis by (simp add: sc_RoundTrip_def)
next
  case (Some r)
  with assms(2) obtain resp1 errS1 errR1 used1 r1 scp1 nt1 where
    t1: "tryRoundTrip dec remote s1 scp (request_frame r) nt =
      Some (Ret ((resp1, errS1, errR1, used1), r1, scp1, nt1))"
    by (auto simp: sc_RoundTrip_def Let_def split: option.splits outcome.splits)
  from tryRoundTrip_inv [OF t1 assms(1)] have inv1: "sc_inv base scp1 nt1" by simp
  show ?thesis
  proof (cases "errS1 \<noteq> None \<and> (rq_Body r1 = None \<or> \<not> used1)")
    case False
    with assms(2) Some t1 inv1 show ?thesis by (auto simp: sc_RoundTrip_def Let_def)
  next
    case True
    with assms(2) Some t1 obtain res2 r2 where
      "tryRoundTrip dec remote s2 scp1 r1 nt1 = Some (Ret (res2, r2, scp', nt'))"
      by (auto simp: sc_RoundTrip_def Let_def split: option.splits outcome.splits prod.splits)
    then show ?thesis using tryRoundTrip_inv [OF _ inv1] by (cases res2) blast
  qed
qed

lemma round_trip_keeps:
  assumes "round_trip dec remote server req w = Some (Ret (res, req', server', w'))"
    and "sc_inv base server (w_net w)"
  shows "sc_inv base server' (w_net w') \<and> same_outside w w'"
proof -
  obtain s1 s2 where s: "(case w_scheds w of [] \<Rightarrow> ([], []) | s # _ \<Rightarrow> s) = (s1, s2)" by fastforce
  from assms(1) obtain nt where
    "sc_RoundTrip dec remote s1 s2 server req (w_net w) = Some (Ret (res, req', server', nt))"
    "w' = w\<lparr>w_net := nt, w_scheds := tl (w_scheds w)\<rparr>"
    by (auto simp: round_trip_def s split: option.splits outcome.splits)
  with sc_RoundTrip_keeps [OF assms(2)] show ?thesis by (simp add: same_outside_def)
qed

text \<open>What is asked of a \<open>Modify\<close> function: it may use the server connections, but keeps them in
  order, and does not talk to the client itself.\<close>

definition modify_ok :: "modify \<Rightarrow> bool" where
  "modify_ok m \<longleftrightarrow> (\<forall>base req client server w res server' w'.
     sc_inv base server (w_net w) \<longrightarrow> m req client server w = Some (Ret (res, server', w')) \<longrightarrow>
     sc_inv base server' (w_net w') \<and> same_outside w w')"

definition proxy_ok :: "'k proxy \<Rightarrow> bool" where
  "proxy_ok p \<longleftrightarrow> (case px_Modify p of None \<Rightarrow> True | Some m \<Rightarrow> modify_ok m)"

lemma respond_keeps:
  assumes "respond ou st req = Some (Ret (resp, st'))" and "proxy_ok (lc_px st)"
    and "sc_inv base (lc_server st) (w_net (lc_world st))"
  shows "sc_inv base (lc_server st') (w_net (lc_world st')) \<and> same_outside (lc_world st) (lc_world st') \<and>
    lc_px st' = lc_px st \<and> lc_client st' = lc_client st"
proof -
  obtain rq rs server w where m: "(case px_Modify (lc_px st) of
        None \<Rightarrow> Some (Ret ((Some req, None), lc_server st, lc_world st))
      | Some modify \<Rightarrow> modify req (lc_client st) (lc_server st) (lc_world st)) = Some (Ret ((rq, rs), server, w))"
    using assms(1) by (auto simp: respond_def split: option.splits outcome.splits)
  have inv: "sc_inv base server (w_net w) \<and> same_outside (lc_world st) w"
  proof (cases "px_Modify (lc_px st)")
    case None
    with m assms(3) show ?thesis by simp
  next
    case (Some f)
    with assms(2) have "modify_ok f" by (simp add: proxy_ok_def)
    with Some m assms(3) show ?thesis unfolding modify_ok_def by fastforce
  qed
  let ?st = "st\<lparr>lc_server := server, lc_world := w\<rparr>"
  have st': "(resp, st') = (None, ?st) \<or> (rs \<noteq> None \<and> (resp, st') = (rs, ?st)) \<or>
      (\<exists>err rq' server' w'. round_trip (ou_dec ou) (ou_remote ou) server rq w = Some (Ret ((resp, err), rq', server', w')) \<and>
        st' = ?st\<lparr>lc_server := server', lc_world := w'\<rparr>)"
    using assms(1) unfolding respond_def Let_def m
    by (auto split: if_splits option.splits outcome.splits prod.splits)
  then show ?thesis
  proof (elim disjE exE conjE)
    fix err rq' server' w'
    assume rt: "round_trip (ou_dec ou) (ou_remote ou) server rq w = Some (Ret ((resp, err), rq', server', w'))"
      and "st' = ?st\<lparr>lc_server := server', lc_world := w'\<rparr>"
    with round_trip_keeps [OF rt] inv show ?thesis by (auto intro: same_outside_trans)
  qed (use inv in auto)
qed

end
