(* ===== verification/ProxySafety.thy ===== *)
theory ProxySafety
  imports ProxyLoop
begin

text \<open>
  What the loop of \<open>listenConn\<close> guarantees: the sockets and the counter when it ends, the
  responses it sends, that it ends, what a failed \<open>CONNECT\<close> leaves behind, and the check for
  idle clients.
\<close>

subsection \<open>Sockets\<close>

lemma sc_inv_fresh: "sc_inv base scp nt \<Longrightarrow> \<forall>c \<in> set (nt_open nt). c < nt_next nt"
  unfolding sc_inv_def by blast

lemma sc_inv_net:
  assumes "sc_inv base scp nt" and "nt_open nt' = nt_open nt" and "nt_next nt \<le> nt_next nt'"
  shows "sc_inv base scp nt'"
proof -
  have "\<forall>c \<in> set (nt_open nt). c < nt_next nt" by (rule sc_inv_fresh [OF assms(1)])
  with assms(2,3) have "\<forall>c \<in> set (nt_open nt'). c < nt_next nt'" by (metis less_le_trans)
  with assms(1,2) show ?thesis by (simp add: sc_inv_def)
qed

lemma sc_inv_remove:
  assumes "sc_inv base scp nt" and "c \<in> set base" and "nt_open nt' = removeAll c (nt_open nt)"
    and "nt_next nt \<le> nt_next nt'"
  shows "sc_inv (removeAll c base) scp nt'"
proof -
  have open_nt: "nt_open nt = base @ map snd (conns_of scp)" and d: "distinct (base @ map snd (conns_of scp))"
    using assms(1) by (simp_all add: sc_inv_def)
  with assms(2) have "c \<notin> set (map snd (conns_of scp))" by auto
  then have "removeAll c (nt_open nt) = removeAll c base @ map snd (conns_of scp)"
    by (simp add: open_nt)
  moreover have "distinct (removeAll c base @ map snd (conns_of scp))"
    using d by (auto simp: distinct_removeAll)
  moreover have "\<forall>c \<in> set (nt_open nt). c < nt_next nt" by (rule sc_inv_fresh [OF assms(1)])
  then have "\<forall>c \<in> set (nt_open nt'). c < nt_next nt'"
    using assms(3,4) by (auto intro: less_le_trans)
  ultimately show ?thesis using assms(1,3) by (simp add: sc_inv_def)
qed

lemma dial_tcp_cases:
  assumes "dial_tcp addr nt = (server, err, nt')" and "\<forall>c \<in> set (nt_open nt). c < nt_next nt"
  obtains (Fail) e where "err = Some e" "server = None" "nt_open nt' = nt_open nt" "nt_next nt \<le> nt_next nt'"
    | (Open) "err = None" "server = Some (nt_next nt)" "nt_open nt' = nt_open nt @ [nt_next nt]"
      "nt_next nt' = Suc (nt_next nt)"
proof -
  have fresh: "removeAll (nt_next nt) (nt_open nt) = nt_open nt"
    using assms(2) by (intro removeAll_id) auto
  show thesis
    using assms(1) fresh
    by (auto simp: dial_tcp_def dial_def Let_def conn_close_def split: list.splits dial_outcome.splits bool.splits
        intro: Fail Open)
qed

lemma close_handle_world:
  "close_handle h w = (e, w') \<Longrightarrow> w' = w\<lparr>w_net := snd (conn_close (fst h) (w_net w))\<rparr>"
  by (auto simp: close_handle_def split: prod.splits)

lemma conn_close_open: "nt_open (snd (conn_close c nt)) = removeAll c (nt_open nt)"
  "nt_next (snd (conn_close c nt)) = nt_next nt"
  by (auto simp: conn_close_def)

text \<open>The three ways \<open>handleConnect\<close> ends.\<close>

lemma handleConnect_cases:
  assumes hc: "handleConnect ou cert r h w = Some (Ret (conn, err, w'))"
    and inv: "sc_inv base scp (w_net w)" and h: "fst h \<in> set base"
  obtains (Upgraded) "conn = Some (fst h, True)" "err = None" "sc_inv base scp (w_net w')" "same_outside w w'"
    | (Failed) "conn = None" "err \<noteq> None" "sc_inv base scp (w_net w')" "same_outside w w'"
    | (Tunnelled) "conn = None" "err = None" "sc_inv (removeAll (fst h) base) scp (w_net w')" "same_outside w w'"
proof -
  obtain host port where sp: "SplitHostAndPort (resolveRealHost (rq_URL r) (rq_Host r)) = (host, port)" by fastforce
  let ?addr = "resolveRealHost (rq_URL r) (rq_Host r)"
  have fresh: "\<forall>c \<in> set (nt_open (w_net w)). c < nt_next (w_net w)" by (rule sc_inv_fresh [OF inv])
  show thesis
  proof (cases "snd (SplitHostAndPort (url_Host (rq_URL r))) = ''443'' \<and> \<not> snd h")
    case True
    obtain sc where sc: "signHost (ou_crypto ou) cert [host] = Ret sc"
      using hc True by (auto simp: handleConnect_def Let_def sp split: outcome.splits)
    define chain where "chain = (case sc of Inl _ \<Rightarrow> [] | Inr c \<Rightarrow> tc_Certificate c)"
    obtain e1 w1 where w1: "send_raw (ok_line r) h w = (e1, w1)" by (cases "send_raw (ok_line r) h w") auto
    obtain e2 w2 where w2: "handshake chain h w1 = (e2, w2)" by (cases "handshake chain h w1") auto
    have "(conn, err, w') = (if e1 \<noteq> None then (None, e1, w1) else if e2 \<noteq> None then (None, e2, w2)
        else (Some (fst h, True), None, w2))"
      using hc True
      by (auto simp: handleConnect_def Let_def sp sc w1 w2 simp flip: chain_def split: if_splits)
    then show thesis
      using send_raw_world [OF w1] handshake_world [OF w2] inv same_outside_trans [of w w1 w2] Upgraded Failed
      by (auto split: if_splits)
  next
    case False
    obtain server e1 nt1 where d: "dial_tcp ?addr (w_net w) = (server, e1, nt1)"
      by (cases "dial_tcp ?addr (w_net w)") auto
    from d fresh show thesis
    proof (cases rule: dial_tcp_cases)
      case (Fail e)
      then have "conn = None \<and> err = e1 \<and> w' = w\<lparr>w_net := nt1\<rparr>"
        using hc False by (auto simp: handleConnect_def Let_def sp d)
      with Fail sc_inv_net [OF inv, of nt1] Failed show thesis by (auto simp: same_outside_def)
    next
      case Open
      let ?s = "nt_next (w_net w)"
      obtain e2 w2 where w2: "send_raw (ok_line r) h (w\<lparr>w_net := nt1\<rparr>) = (e2, w2)"
        by (cases "send_raw (ok_line r) h (w\<lparr>w_net := nt1\<rparr>)") auto
      have "conn = None \<and> err = None \<and>
          (\<exists>ts. w' = snd (close_handle (?s, False) (snd (close_handle h (w2\<lparr>w_tunnels := ts\<rparr>)))))"
        using hc False Open(1,2)
        by (auto simp: handleConnect_def Let_def sp d w2 split: list.splits prod.splits option.splits)
           (metis snd_conv)+
      then obtain ts where ts: "conn = None" "err = None"
        "w' = snd (close_handle (?s, False) (snd (close_handle h (w2\<lparr>w_tunnels := ts\<rparr>))))"
        by blast
      from send_raw_world [OF w2] have n2: "w_net w2 = nt1" "same_outside w w2"
        by (auto simp: same_outside_def)
      obtain a w3 where w3: "close_handle h (w2\<lparr>w_tunnels := ts\<rparr>) = (a, w3)"
        by (cases "close_handle h (w2\<lparr>w_tunnels := ts\<rparr>)") auto
      obtain b w4 where w4: "close_handle (?s, False) w3 = (b, w4)" by (cases "close_handle (?s, False) w3") auto
      have fresh': "?s \<notin> set (nt_open (w_net w))" using fresh by auto
      moreover have "fst h \<in> set (nt_open (w_net w))" using inv h by (simp add: sc_inv_def)
      ultimately have "nt_open (w_net w4) = removeAll (fst h) (nt_open (w_net w))" "nt_next (w_net w4) = Suc ?s"
        using close_handle_world [OF w3] close_handle_world [OF w4] Open(3,4) n2(1)
        by (auto simp: conn_close_open)
      then have "sc_inv (removeAll (fst h) base) scp (w_net w4)"
        by (intro sc_inv_remove [OF inv h]) simp_all
      moreover have "same_outside w w4"
        using n2(2) close_handle_world [OF w3] close_handle_world [OF w4] by (simp add: same_outside_def)
      moreover have "w' = w4" using ts(3) w3 w4 by simp
      ultimately show thesis using ts(1,2) Tunnelled by simp
    qed
  qed
qed


subsection \<open>One turn\<close>

text \<open>The ways a turn of the loop ends.  \<open>turn_start\<close> is the state once a request was read.\<close>

definition turn_start :: "conn \<Rightarrow> 'k lc \<Rightarrow> world \<Rightarrow> 'k lc" where
  "turn_start cid st w =
     st\<lparr>lc_world := w, lc_px := (lc_px st)\<lparr>px_idleConns := cs_Remove (px_idleConns (lc_px st)) cid\<rparr>\<rparr>"

lemma turn_start_simps [simp]:
  "lc_world (turn_start cid st w) = w" "lc_client (turn_start cid st w) = lc_client st"
  "lc_server (turn_start cid st w) = lc_server st"
  "lc_px (turn_start cid st w) = (lc_px st)\<lparr>px_idleConns := cs_Remove (px_idleConns (lc_px st)) cid\<rparr>"
  by (simp_all add: turn_start_def)

lemma listen_step_cases:
  assumes "listen_step ou cid st = Some (Ret (c, st'))"
  obtains (Unread) r e w where "client_Listen read_request (lc_client st) (lc_world st) = (r, e, w)" "e \<noteq> None"
      "c = Break" "st' = st\<lparr>lc_world := w\<rparr>"
    | (Connect) r w h conn err w' where
      "client_Listen read_request (lc_client st) (lc_world st) = (Some r, None, w)"
      "cl_Conn (lc_client st) = Some h" "handleConnect ou (px_Cert (lc_px st)) r h w = Some (Ret (conn, err, w'))"
      "c = (if conn = None then Break else Continue)"
      "st' = (turn_start cid st w)\<lparr>lc_world := w', lc_client := (lc_client st)\<lparr>cl_Conn := conn\<rparr>\<rparr>"
      "rq_Method r = ''CONNECT''"
    | (Unanswered) r w h where
      "client_Listen read_request (lc_client st) (lc_world st) = (Some r, None, w)"
      "cl_Conn (lc_client st) = Some h"
      "respond ou (turn_start cid st w) (prepare_request (ou_remote ou (fst h)) r) = Some (Ret (None, st'))"
      "c = Break" "rq_Method r \<noteq> ''CONNECT''"
    | (Answered) r w h resp st1 where
      "client_Listen read_request (lc_client st) (lc_world st) = (Some r, None, w)"
      "cl_Conn (lc_client st) = Some h"
      "respond ou (turn_start cid st w) (prepare_request (ou_remote ou (fst h)) r) = Some (Ret (Some resp, st1))"
      "answer cid st1 resp = Ret (c, st')" "rq_Method r \<noteq> ''CONNECT''"
proof -
  obtain r e w where l: "client_Listen read_request (lc_client st) (lc_world st) = (r, e, w)"
    by (cases "client_Listen read_request (lc_client st) (lc_world st)") auto
  show thesis
  proof (cases "e = None \<and> r \<noteq> None \<and> cl_Conn (lc_client st) \<noteq> None")
    case False
    with client_Listen_world [OF l] have "e \<noteq> None" by auto
    with assms l Unread show thesis by (simp add: listen_step_def Let_def)
  next
    case True
    then obtain rq h where rh: "e = None" "r = Some rq" "cl_Conn (lc_client st) = Some h" by auto
    show thesis
    proof (cases "rq_Method rq = ''CONNECT''")
      case True
      with assms l rh obtain conn err w' where hc: "handleConnect ou (px_Cert (lc_px st)) rq h w = Some (Ret (conn, err, w'))"
        by (auto simp: listen_step_def Let_def split: option.splits outcome.splits)
      with assms l rh True have "c = (if conn = None then Break else Continue)"
        "st' = (turn_start cid st w)\<lparr>lc_world := w', lc_client := (lc_client st)\<lparr>cl_Conn := conn\<rparr>\<rparr>"
        by (auto simp: listen_step_def Let_def turn_start_def)
      with Connect l rh hc True show thesis by blast
    next
      case False
      let ?rq = "prepare_request (ou_remote ou (fst h)) rq"
      from assms l rh False obtain resp st1 where re: "respond ou (turn_start cid st w) ?rq = Some (Ret (resp, st1))"
        by (auto simp: listen_step_def Let_def turn_start_def split: option.splits outcome.splits)
      with assms l rh False have "case resp of None \<Rightarrow> (c, st') = (Break, st1) | Some x \<Rightarrow> answer cid st1 x = Ret (c, st')"
        by (auto simp: listen_step_def Let_def turn_start_def split: option.splits)
      with l rh re Unanswered Answered False show thesis by (cases resp) auto
    qed
  qed
qed

text \<open>What a response is when it has been sent.\<close>

definition framed :: "bool \<Rightarrow> rbody response \<Rightarrow> bool" where
  "framed closeAfter resp \<longleftrightarrow>
     delimited (rs_ContentLength resp) (rs_TransferEncoding resp) (rs_Close resp) \<and>
     (closeAfter \<longrightarrow> rs_Close resp)"

lemma client_frame_delimited:
  "delimited (rs_ContentLength (client_frame r)) (rs_TransferEncoding (client_frame r)) (rs_Close (client_frame r))"
  unfolding client_frame_def by (rule client_delimit_delimited)

lemma client_frame_Close: "rs_Close r \<Longrightarrow> rs_Close (client_frame r)"
  by (simp add: client_frame_def client_delimit_def)

lemma finish_response_Close: "closeAfter \<Longrightarrow> rs_Close (finish_response closeAfter r)"
  by (simp add: finish_response_def Let_def)

lemma finish_framed: "framed closeAfter (client_frame (finish_response closeAfter r))"
  by (simp add: framed_def client_frame_delimited client_frame_Close finish_response_Close)

lemma answer_cases:
  assumes "answer cid st resp = Ret (c, st')"
  obtains sent idle client where
    "lc_server st' = lc_server st" "lc_px st' = (lc_px st)\<lparr>px_idleConns := idle\<rparr>" "lc_client st' = client"
    "cl_Conn client = cl_Conn (lc_client st)"
    "cl_closeConnAfterRequest client = cl_closeConnAfterRequest (lc_client st)"
    "w_net (lc_world st') = w_net (lc_world st)" "w_clientConns (lc_world st') = w_clientConns (lc_world st)"
    "w_requests (lc_world st') = w_requests (lc_world st)" "w_sent (lc_world st') = w_sent (lc_world st) @ sent"
    "sent = [] \<and> c = Break \<or>
       (\<exists>r. r = client_frame (finish_response (cl_closeConnAfterRequest (lc_client st)) resp) \<and> sent = [r] \<and>
          framed (cl_closeConnAfterRequest (lc_client st)) r \<and> (c = Continue \<longrightarrow> \<not> rs_Close r))"
proof -
  let ?close = "cl_closeConnAfterRequest (lc_client st)"
  let ?r = "client_frame (finish_response ?close resp)"
  obtain h where h: "cl_Conn (lc_client st) = Some h"
    using assms by (auto simp: answer_def client_Write_def Let_def split: option.splits)
  obtain e w where w: "send_response ?r h (lc_world st) = (e, w)" by (cases "send_response ?r h (lc_world st)") auto
  from send_response_world [OF w] have sw: "w_net w = w_net (lc_world st)"
    "w_clientConns w = w_clientConns (lc_world st)" "w_requests w = w_requests (lc_world st)"
    "w_sent w = w_sent (lc_world st) @ (if e = None then [?r] else [])" by auto
  have st': "(c, st') = (if e \<noteq> None \<or> rs_Close ?r then (Break, st\<lparr>lc_world := w\<rparr>)
      else (Continue, st\<lparr>lc_world := w, lc_client := (lc_client st)\<lparr>cl_lastUsedTime := w_time w\<rparr>,
              lc_px := (lc_px st)\<lparr>px_idleConns := cs_Add (px_idleConns (lc_px st)) cid\<rparr>\<rparr>))"
    using assms by (auto simp: answer_def client_Write_def Let_def h w split: if_splits)
  have framed: "framed ?close ?r" by (rule finish_framed)
  show thesis
  proof (cases "e = None \<and> \<not> rs_Close ?r")
    case True
    with st' sw framed show thesis
      by (intro that [of "cs_Add (px_idleConns (lc_px st)) cid" "lc_client st'" "[?r]"]) simp_all
  next
    case False
    with st' sw framed show thesis
      by (intro that [of "px_idleConns (lc_px st)" "lc_client st'" "if e = None then [?r] else []"]) auto
  qed
qed


subsection \<open>The loop\<close>

text \<open>The invariant: \<open>base\<close> are the connections that do not belong to the servers of this client,
  its own one included.  Where \<open>CONNECT\<close> has failed, the client's connection is no longer known;
  it is still open, or the tunnel has closed it.\<close>

definition loop_inv :: "conn list \<Rightarrow> conn \<Rightarrow> 'k proxy \<Rightarrow> bool \<Rightarrow> int \<Rightarrow> 'k lc \<Rightarrow> bool" where
  "loop_inv base cid p closeAfter clients st \<longleftrightarrow>
     (\<exists>idle. lc_px st = p\<lparr>px_idleConns := idle\<rparr>) \<and> cl_closeConnAfterRequest (lc_client st) = closeAfter \<and>
     w_clientConns (lc_world st) = clients \<and>
     (case cl_Conn (lc_client st) of
        Some h \<Rightarrow> fst h = cid \<and> sc_inv base (lc_server st) (w_net (lc_world st))
      | None \<Rightarrow> sc_inv base (lc_server st) (w_net (lc_world st)) \<or>
                 sc_inv (removeAll cid base) (lc_server st) (w_net (lc_world st)))"

definition exchanged :: "bool \<Rightarrow> world \<Rightarrow> world \<Rightarrow> rbody response list \<Rightarrow> bool" where
  "exchanged closeAfter w w' rs \<longleftrightarrow> w_sent w' = w_sent w @ rs \<and>
     length rs + length (w_requests w') \<le> length (w_requests w) \<and> (\<forall>r \<in> set rs. framed closeAfter r)"

lemma turn_start_inv:
  assumes "loop_inv base cid p closeAfter clients st" and "cl_Conn (lc_client st) = Some h"
    and l: "client_Listen read_request (lc_client st) (lc_world st) = (r, e, w)"
  shows "loop_inv base cid p closeAfter clients (turn_start cid st w)" and "fst h = cid"
    and "sc_inv base (lc_server st) (w_net w)" and "proxy_ok p \<Longrightarrow> proxy_ok (lc_px (turn_start cid st w))"
  using assms(1,2) client_Listen_world [OF l] by (auto simp: loop_inv_def proxy_ok_def)

lemma listen_step_inv:
  assumes step: "listen_step ou cid st = Some (Ret (c, st'))" and inv: "loop_inv base cid p closeAfter clients st"
    and "cid \<in> set base" and "proxy_ok p"
  shows "loop_inv base cid p closeAfter clients st' \<and>
    (\<exists>rs. exchanged closeAfter (lc_world st) (lc_world st') rs \<and> length rs \<le> 1 \<and>
       (c = Continue \<longrightarrow> (\<forall>r \<in> set rs. \<not> rs_Close r) \<and>
          length (w_requests (lc_world st')) < length (w_requests (lc_world st))))"
  using step
proof (cases rule: listen_step_cases)
  case (Unread r e w)
  with client_Listen_world [OF Unread(1)] inv show ?thesis
    by (auto simp: loop_inv_def exchanged_def split: option.splits)
next
  case (Connect r w h conn err w')
  note ts = turn_start_inv [OF inv Connect(2,1)]
  note l = client_Listen_world [OF Connect(1)]
  have "fst h \<in> set base" using ts(2) assms(3) by simp
  with Connect(3) ts(3) have "loop_inv base cid p closeAfter clients st' \<and> same_outside w w'"
  proof (cases rule: handleConnect_cases [where scp = "lc_server st"])
    case Upgraded
    with ts Connect(5) show ?thesis by (auto simp: loop_inv_def same_outside_def)
  next
    case Failed
    with ts Connect(5) show ?thesis by (auto simp: loop_inv_def same_outside_def)
  next
    case Tunnelled
    with ts Connect(5) show ?thesis by (auto simp: loop_inv_def same_outside_def)
  qed
  moreover have "lc_world st' = w'" using Connect(5) by simp
  ultimately show ?thesis using l by (auto simp: exchanged_def same_outside_def)
next
  case (Unanswered r w h)
  note ts = turn_start_inv [OF inv Unanswered(2,1)]
  from respond_keeps [OF Unanswered(3) ts(4) [OF assms(4)]] ts(1,2,3) client_Listen_world [OF Unanswered(1)]
    Unanswered(2,4) show ?thesis
    by (auto simp: loop_inv_def exchanged_def same_outside_def)
next
  case (Answered r w h resp st1)
  note ts = turn_start_inv [OF inv Answered(2,1)]
  note l = client_Listen_world [OF Answered(1)]
  from respond_keeps [OF Answered(3) ts(4) [OF assms(4)]] ts(1,2,3) Answered(2)
  have st1: "loop_inv base cid p closeAfter clients st1" "same_outside w (lc_world st1)"
    "cl_Conn (lc_client st1) = Some h"
    by (auto simp: loop_inv_def same_outside_def)
  from Answered(4) show ?thesis
  proof (cases rule: answer_cases)
    case (1 sent idle client)
    have "loop_inv base cid p closeAfter clients st'"
      using st1(1,3) 1(1-7) by (auto simp: loop_inv_def)
    moreover have "exchanged closeAfter (lc_world st) (lc_world st') sent"
      using l st1 1(8-10) by (auto simp: exchanged_def same_outside_def loop_inv_def)
    ultimately show ?thesis using l st1(2) 1(8,10) by (auto simp: same_outside_def)
  qed
qed

fun listen_turns :: "('k, 'ip, 'c, 's) outside \<Rightarrow> conn \<Rightarrow> nat \<Rightarrow> 'k lc \<Rightarrow> 'k lc option" where
  "listen_turns ou cid 0 st = Some st"
| "listen_turns ou cid (Suc n) st =
     (case listen_step ou cid st of
        Some (Ret (Continue, st')) \<Rightarrow> listen_turns ou cid n st'
      | _ \<Rightarrow> None)"

text \<open>The loop is its turns, and a last one.\<close>

lemma listen_loop_turns:
  assumes "listen_loop ou cid st = Some res"
  shows "res = Ret st' \<Longrightarrow> \<exists>n st1. listen_turns ou cid n st = Some st1 \<and> listen_step ou cid st1 = Some (Ret (Break, st'))"
  using assms
proof (induction ou cid st res rule: listen_loop.raw_induct [rotated, consumes 1, case_names 1])
  case (1 loop ou cid st res)
  from 1(2,3) obtain c st1 where step: "listen_step ou cid st = Some (Ret (c, st1))"
    by (auto split: option.splits outcome.splits)
  show ?case
  proof (cases c)
    case Break
    with 1(2,3) step show ?thesis by (intro exI [of _ 0] exI [of _ st]) simp
  next
    case Continue
    with 1(2,3) step have "loop ou cid st1 = Some (Ret st')" by simp
    from 1(1) [OF this refl] obtain n st2 where "listen_turns ou cid n st1 = Some st2"
      "listen_step ou cid st2 = Some (Ret (Break, st'))" by blast
    with step Continue show ?thesis by (intro exI [of _ "Suc n"] exI [of _ st2]) simp
  qed
qed

text \<open>A turn that was a \<open>CONNECT\<close> and failed.\<close>

definition connect_failed :: "('k, 'ip, 'c, 's) outside \<Rightarrow> 'k lc \<Rightarrow> bool" where
  "connect_failed ou st \<longleftrightarrow>
     (\<exists>r w h e w'. client_Listen read_request (lc_client st) (lc_world st) = (Some r, None, w) \<and>
        rq_Method r = ''CONNECT'' \<and> cl_Conn (lc_client st) = Some h \<and>
        handleConnect ou (px_Cert (lc_px st)) r h w = Some (Ret (None, Some e, w')))"

text \<open>What a turn leaves of the client's connection: it is there unless the turn was a \<open>CONNECT\<close>; then
  a failure leaves it open but unknown, and the end of a tunnel has closed it.\<close>

lemma listen_step_conn:
  assumes step: "listen_step ou cid st = Some (Ret (c, st'))" and inv: "loop_inv base cid p closeAfter clients st"
    and "cid \<in> set base" and "proxy_ok p" and conn: "cl_Conn (lc_client st) \<noteq> None"
  shows "(c = Continue \<longrightarrow> cl_Conn (lc_client st') \<noteq> None) \<and>
    (cl_Conn (lc_client st') = None \<longrightarrow>
       sc_inv (if connect_failed ou st then base else removeAll cid base) (lc_server st') (w_net (lc_world st'))) \<and>
    (cl_Conn (lc_client st') \<noteq> None \<longrightarrow> \<not> connect_failed ou st)"
  using step
proof (cases rule: listen_step_cases)
  case (Unread r e w)
  with conn show ?thesis by (auto simp: connect_failed_def)
next
  case (Connect r w h conn err w')
  note ts = turn_start_inv [OF inv Connect(2,1)]
  have failed: "connect_failed ou st \<longleftrightarrow> conn = None \<and> err \<noteq> None"
    using Connect(1,2,3,6) by (auto simp: connect_failed_def)
  have "fst h \<in> set base" using ts(2) assms(3) by simp
  with Connect(3) ts(3) show ?thesis
  proof (cases rule: handleConnect_cases [where scp = "lc_server st"])
    case Upgraded
    with Connect(4,5) failed show ?thesis by simp
  next
    case Failed
    with Connect(4,5) failed show ?thesis by simp
  next
    case Tunnelled
    with Connect(4,5) failed ts(2) show ?thesis by simp
  qed
next
  case (Unanswered r w h)
  note ts = turn_start_inv [OF inv Unanswered(2,1)]
  from respond_keeps [OF Unanswered(3) ts(4) [OF assms(4)]] ts(3) Unanswered show ?thesis
    by (auto simp: connect_failed_def)
next
  case (Answered r w h resp st1)
  note ts = turn_start_inv [OF inv Answered(2,1)]
  from respond_keeps [OF Answered(3) ts(4) [OF assms(4)]] ts(3) Answered(2)
  have "cl_Conn (lc_client st1) = Some h" by simp
  with Answered show ?thesis by (auto simp: connect_failed_def elim!: answer_cases)
qed

lemma listen_turns_inv:
  "listen_turns ou cid n st = Some st' \<Longrightarrow> loop_inv base cid p closeAfter clients st \<Longrightarrow> cl_Conn (lc_client st) \<noteq> None \<Longrightarrow>
     cid \<in> set base \<Longrightarrow> proxy_ok p \<Longrightarrow>
     loop_inv base cid p closeAfter clients st' \<and> cl_Conn (lc_client st') \<noteq> None"
proof (induction n arbitrary: st)
  case (Suc n)
  from Suc.prems(1) obtain st1 where step: "listen_step ou cid st = Some (Ret (Continue, st1))"
    "listen_turns ou cid n st1 = Some st'"
    by (auto split: option.splits outcome.splits ctl.splits)
  have "loop_inv base cid p closeAfter clients st1"
    using listen_step_inv [OF step(1) Suc.prems(2,4,5)] by blast
  moreover have "cl_Conn (lc_client st1) \<noteq> None"
    using listen_step_conn [OF step(1) Suc.prems(2,4,5,3)] by blast
  ultimately show ?case using Suc.IH [OF step(2)] Suc.prems(4,5) by blast
qed simp

subsection \<open>Which request a response answers\<close>

text \<open>What a client has sent is read with its scheme and its host filled in.\<close>

definition read_as :: "int \<times> rbody request option \<times> goerr option \<Rightarrow> rbody request \<Rightarrow> bool" where
  "read_as item q \<longleftrightarrow> (\<exists>t r. item = (t, Some r, None) \<and> rq_Method q = rq_Method r \<and> rq_Header q = rq_Header r \<and>
     rq_Body q = rq_Body r)"

text \<open>A turn in the state \<open>st\<close> that reads \<open>q\<close> and sends \<open>rs\<close>: nothing, or the response that \<open>Modify\<close> or
  the server gave to this very request, framed.\<close>

definition turn_answers ::
  "('k, 'ip, 'c, 's) outside \<Rightarrow> conn \<Rightarrow> 'k lc \<Rightarrow> rbody request \<times> rbody response list \<Rightarrow> bool" where
  "turn_answers ou cid st entry \<longleftrightarrow>
     (\<exists>q rs w h. entry = (q, rs) \<and> client_Listen read_request (lc_client st) (lc_world st) = (Some q, None, w) \<and>
        cl_Conn (lc_client st) = Some h \<and>
        (rs = [] \<or> rq_Method q \<noteq> ''CONNECT'' \<and>
           (\<exists>resp st1. respond ou (turn_start cid st w) (prepare_request (ou_remote ou (fst h)) q) =
                Some (Ret (Some resp, st1)) \<and>
              rs = [client_frame (finish_response (cl_closeConnAfterRequest (lc_client st)) resp)])))"

definition answered_log ::
  "('k, 'ip, 'c, 's) outside \<Rightarrow> conn \<Rightarrow> 'k lc \<Rightarrow> (rbody request \<times> rbody response list) list \<Rightarrow> bool" where
  "answered_log ou cid st es \<longleftrightarrow>
     (\<forall>i < length es. \<exists>sti. listen_turns ou cid i st = Some sti \<and> turn_answers ou cid sti (es ! i))"

lemma answered_log_simps [simp]:
  "answered_log ou cid st []"
  "listen_step ou cid st = Some (Ret (Continue, st')) \<Longrightarrow>
     answered_log ou cid st (x # es) \<longleftrightarrow> turn_answers ou cid st x \<and> answered_log ou cid st' es"
  "answered_log ou cid st [x] \<longleftrightarrow> turn_answers ou cid st x"
  by (simp_all add: answered_log_def All_less_Suc2)

lemma client_Listen_read_as:
  assumes "client_Listen read_request client w = (Some q, None, w')"
  shows "\<exists>item. w_requests w = item # w_requests w' \<and> read_as item q"
  using assms
  by (auto simp: client_Listen_def read_request_def read_as_def Let_def split: option.splits if_splits list.splits prod.splits)

lemma listen_step_answers:
  assumes step: "listen_step ou cid st = Some (Ret (c, st'))" and inv: "loop_inv base cid p closeAfter clients st"
    and "cid \<in> set base" and "proxy_ok p"
  shows "c = Break \<and> w_sent (lc_world st') = w_sent (lc_world st) \<or>
    (\<exists>q rs item. turn_answers ou cid st (q, rs) \<and> w_sent (lc_world st') = w_sent (lc_world st) @ rs \<and>
       w_requests (lc_world st) = item # w_requests (lc_world st') \<and> read_as item q \<and>
       (c = Continue \<and> rq_Method q \<noteq> ''CONNECT'' \<longrightarrow> (\<exists>r. rs = [r] \<and> \<not> rs_Close r)))"
  using step
proof (cases rule: listen_step_cases)
  case (Unread r e w)
  with client_Listen_world [OF Unread(1)] show ?thesis by simp
next
  case (Connect r w h conn err w')
  note ts = turn_start_inv [OF inv Connect(2,1)]
  have "fst h \<in> set base" using ts(2) assms(3) by simp
  with Connect(3) ts(3) have "same_outside w w'"
    by (cases rule: handleConnect_cases [where scp = "lc_server st"]) simp_all
  with Connect(1,2,5,6) client_Listen_world [OF Connect(1)] client_Listen_read_as [OF Connect(1)]
  show ?thesis by (auto simp: turn_answers_def same_outside_def)
next
  case (Unanswered r w h)
  note ts = turn_start_inv [OF inv Unanswered(2,1)]
  from respond_keeps [OF Unanswered(3) ts(4) [OF assms(4)]] ts(3) Unanswered(4) client_Listen_world [OF Unanswered(1)]
  show ?thesis by (simp add: same_outside_def)
next
  case (Answered r w h resp st1)
  note ts = turn_start_inv [OF inv Answered(2,1)]
  note l = client_Listen_world [OF Answered(1)] client_Listen_read_as [OF Answered(1)]
  from respond_keeps [OF Answered(3) ts(4) [OF assms(4)]] ts(3)
  have st1: "same_outside w (lc_world st1)" "lc_client st1 = lc_client st" by simp_all
  from Answered(4) show ?thesis
  proof (cases rule: answer_cases)
    case (1 sent idle client)
    from 1(10) have "turn_answers ou cid st (r, sent) \<and>
        (c = Continue \<longrightarrow> (\<exists>x. sent = [x] \<and> \<not> rs_Close x))"
      using Answered(1,2,3,5) st1(2) by (auto simp: turn_answers_def)
    then show ?thesis using l st1(1) 1(8,9) by (auto simp: same_outside_def)
  qed
qed

lemma listen_loop_answers:
  assumes "listen_loop ou cid st = Some res"
  shows "res = Ret st' \<Longrightarrow> loop_inv base cid p closeAfter clients st \<Longrightarrow> cid \<in> set base \<Longrightarrow> proxy_ok p \<Longrightarrow>
    \<exists>es. answered_log ou cid st es \<and> w_sent (lc_world st') = w_sent (lc_world st) @ concat (map snd es) \<and>
      list_all2 read_as (take (length es) (w_requests (lc_world st))) (map fst es) \<and>
      (\<forall>(q, rs) \<in> set (butlast es). rq_Method q \<noteq> ''CONNECT'' \<longrightarrow> (\<exists>r. rs = [r] \<and> \<not> rs_Close r))"
  using assms
proof (induction ou cid st res rule: listen_loop.raw_induct [rotated, consumes 1, case_names 1])
  case (1 loop ou cid st res)
  from 1(2,3) obtain c st1 where step: "listen_step ou cid st = Some (Ret (c, st1))"
    by (auto split: option.splits outcome.splits)
  note s = listen_step_answers [OF step 1(4-6)]
  show ?case
  proof (cases c)
    case Break
    with 1(2,3) step have "st' = st1" by simp
    with s show ?thesis
    proof (elim disjE exE conjE)
      assume "w_sent (lc_world st1) = w_sent (lc_world st)"
      with \<open>st' = st1\<close> show ?thesis by (intro exI [of _ "[]"]) simp
    next
      fix q rs item
      assume "turn_answers ou cid st (q, rs)" "w_sent (lc_world st1) = w_sent (lc_world st) @ rs"
        "w_requests (lc_world st) = item # w_requests (lc_world st1)" "read_as item q"
      with \<open>st' = st1\<close> show ?thesis by (intro exI [of _ "[(q, rs)]"]) simp
    qed
  next
    case Continue
    with 1(2,3) step have "loop ou cid st1 = Some (Ret st')" by simp
    moreover have "loop_inv base cid p closeAfter clients st1" using listen_step_inv [OF step 1(4-6)] by blast
    ultimately obtain es where es: "answered_log ou cid st1 es"
      "w_sent (lc_world st') = w_sent (lc_world st1) @ concat (map snd es)"
      "list_all2 read_as (take (length es) (w_requests (lc_world st1))) (map fst es)"
      "\<forall>(q, rs) \<in> set (butlast es). rq_Method q \<noteq> ''CONNECT'' \<longrightarrow> (\<exists>r. rs = [r] \<and> \<not> rs_Close r)"
      using 1(1) [OF _ refl _ 1(5,6)] by blast
    from s [unfolded Continue, simplified] obtain q rs item where q: "turn_answers ou cid st (q, rs)"
      "w_sent (lc_world st1) = w_sent (lc_world st) @ rs"
      "w_requests (lc_world st) = item # w_requests (lc_world st1)" "read_as item q"
      "rq_Method q \<noteq> ''CONNECT'' \<longrightarrow> (\<exists>r. rs = [r] \<and> \<not> rs_Close r)" by blast
    from es q step Continue show ?thesis by (intro exI [of _ "(q, rs) # es"]) auto
  qed
qed


lemma exchanged_append:
  assumes "exchanged c w w1 rs" and "exchanged c w1 w2 rs'"
  shows "exchanged c w w2 (rs @ rs')"
  using assms by (auto simp: exchanged_def)

lemma listen_loop_inv:
  assumes "listen_loop ou cid st = Some res"
  shows "res = Ret st' \<Longrightarrow> loop_inv base cid p closeAfter clients st \<Longrightarrow> cid \<in> set base \<Longrightarrow> proxy_ok p \<Longrightarrow>
    loop_inv base cid p closeAfter clients st' \<and>
    (\<exists>rs. exchanged closeAfter (lc_world st) (lc_world st') rs \<and> (\<forall>r \<in> set (butlast rs). \<not> rs_Close r))"
  using assms
proof (induction ou cid st res rule: listen_loop.raw_induct [rotated, consumes 1, case_names 1])
  case (1 loop ou cid st res)
  from 1(2,3) obtain c st1 where step: "listen_step ou cid st = Some (Ret (c, st1))"
    by (auto split: option.splits outcome.splits)
  note s = listen_step_inv [OF step 1(4-6)]
  then obtain rs where rs: "exchanged closeAfter (lc_world st) (lc_world st1) rs"
    "length rs \<le> 1" "c = Continue \<longrightarrow> (\<forall>r \<in> set rs. \<not> rs_Close r)" by blast
  show ?case
  proof (cases c)
    case Break
    with 1(2,3) step have "st' = st1" by simp
    then show ?thesis using s rs(1,2) by (cases rs) auto
  next
    case Continue
    with 1(2,3) step have "loop ou cid st1 = Some (Ret st')" by simp
    from 1(1) [OF this refl _ 1(5,6)] s obtain rs' where "loop_inv base cid p closeAfter clients st'"
      "exchanged closeAfter (lc_world st1) (lc_world st') rs'" "\<forall>r \<in> set (butlast rs'). \<not> rs_Close r" by blast
    with Continue rs exchanged_append [OF rs(1)] show ?thesis
      by (intro conjI exI [of _ "rs @ rs'"]) (auto simp: butlast_append dest: in_set_butlastD)
  qed
qed


lemma removeAll_members [simp]: "cid \<notin> set (cs_m (cs_Remove s cid))"
  by (auto simp: cs_Remove_def cs_Contains_def)

lemma listen_start_inv:
  assumes "distinct (nt_open (w_net w))" and "\<forall>c \<in> set (nt_open (w_net w)). c < nt_next (w_net w)"
    and "cl_Conn client = Some (cid, tls)"
  shows "loop_inv (nt_open (w_net w)) cid p (cl_closeConnAfterRequest client) (w_clientConns w + 1)
    (listen_start p client w)"
  using new_server_inv [OF assms(1,2)] assms(3)
  by (auto simp: loop_inv_def listen_start_def intro: exI [of _ "px_idleConns p"])

lemma listenConn_loop:
  assumes "listenConn ou cid p client w = Some (Ret st')"
    and "proxy_ok p" and "distinct (nt_open (w_net w))"
    and "\<forall>c \<in> set (nt_open (w_net w)). c < nt_next (w_net w)"
    and "cl_Conn client = Some (cid, tls)" and "cid \<in> set (nt_open (w_net w))"
  obtains st rs where "listen_loop ou cid (listen_start p client w) = Some (Ret st)" "st' = listen_end cid st"
    "loop_inv (nt_open (w_net w)) cid p (cl_closeConnAfterRequest client) (w_clientConns w + 1) st"
    "exchanged (cl_closeConnAfterRequest client) w (lc_world st) rs" "\<forall>r \<in> set (butlast rs). \<not> rs_Close r"
proof -
  let ?st = "listen_start p client w"
  obtain st where st: "listen_loop ou cid ?st = Some (Ret st)" "st' = listen_end cid st"
    using assms(1) by (auto simp: listenConn_def Let_def bind_outcome_Ret_iff)
  have "loop_inv (nt_open (w_net w)) cid p (cl_closeConnAfterRequest client) (w_clientConns w + 1) ?st"
    using assms(3-5) by (rule listen_start_inv)
  from listen_loop_inv [OF st(1) refl this assms(6,2)] st that show thesis
    by (auto simp: exchanged_def listen_start_def)
qed

lemma listen_end_world:
  assumes "loop_inv base cid p closeAfter clients st" and "distinct base" and "cid \<in> set base"
    and st': "st' = listen_end cid st"
  shows "w_clientConns (lc_world st') = clients - 1 \<and> conns_of (lc_server st') = [] \<and>
    lc_client st' = lc_client st \<and> lc_px st' = (lc_px st)\<lparr>px_idleConns := cs_Remove (px_idleConns (lc_px st)) cid\<rparr> \<and>
    w_sent (lc_world st') = w_sent (lc_world st) \<and> w_requests (lc_world st') = w_requests (lc_world st) \<and>
    (nt_open (w_net (lc_world st')) = removeAll cid base \<or>
     cl_Conn (lc_client st) = None \<and> nt_open (w_net (lc_world st')) = base)"
proof -
  obtain e server nt where c: "sc_close (lc_server st) (w_net (lc_world st)) = (e, server, nt)"
    by (cases "sc_close (lc_server st) (w_net (lc_world st))") auto
  obtain base' where b: "sc_inv base' (lc_server st) (w_net (lc_world st))"
    "base' = base \<or> base' = removeAll cid base \<and> cl_Conn (lc_client st) = None"
    "\<And>h. cl_Conn (lc_client st) = Some h \<Longrightarrow> fst h = cid"
    using assms(1) by (auto simp: loop_inv_def split: option.splits)
  note sc = sc_close_inv [OF b(1) c]
  obtain e2 w2 where cc: "client_Close close_handle (lc_client st) ((lc_world st)\<lparr>w_net := nt\<rparr>) = (e2, w2)"
    by (cases "client_Close close_handle (lc_client st) ((lc_world st)\<lparr>w_net := nt\<rparr>)") auto
  have w2: "w2 = (lc_world st)\<lparr>w_net := (case cl_Conn (lc_client st) of None \<Rightarrow> nt | Some h \<Rightarrow> snd (conn_close (fst h) nt))\<rparr>"
    using cc by (auto simp: client_Close_def dest: close_handle_world split: option.splits)
  have clients: "w_clientConns (lc_world st) = clients" using assms(1) by (simp add: loop_inv_def)
  have "nt_open (w_net w2) = removeAll cid base \<or> cl_Conn (lc_client st) = None \<and> nt_open (w_net w2) = base"
    using b(2,3) sc(2) by (cases "cl_Conn (lc_client st)") (auto simp: w2 conn_close_open)
  moreover have "st' = st\<lparr>lc_server := server, lc_world := w2\<lparr>w_clientConns := w_clientConns w2 - 1\<rparr>,
      lc_px := (lc_px st)\<lparr>px_idleConns := cs_Remove (px_idleConns (lc_px st)) cid\<rparr>\<rparr>"
    by (simp add: st' listen_end_def sc_Close_def c cc Let_def)
  ultimately show ?thesis using sc(3) clients by (simp add: w2)
qed

lemma listen_end_open:
  assumes "sc_inv base (lc_server st) (w_net (lc_world st))"
  shows "nt_open (w_net (lc_world (listen_end cid st))) =
    (case cl_Conn (lc_client st) of None \<Rightarrow> base | Some h \<Rightarrow> removeAll (fst h) base)"
proof -
  obtain e server nt where c: "sc_close (lc_server st) (w_net (lc_world st)) = (e, server, nt)"
    by (cases "sc_close (lc_server st) (w_net (lc_world st))") auto
  obtain e2 w2 where cc: "client_Close close_handle (lc_client st) ((lc_world st)\<lparr>w_net := nt\<rparr>) = (e2, w2)"
    by (cases "client_Close close_handle (lc_client st) ((lc_world st)\<lparr>w_net := nt\<rparr>)") auto
  from sc_close_inv(2) [OF assms c] cc show ?thesis
    by (auto simp: listen_end_def sc_Close_def c Let_def client_Close_def conn_close_open
        dest: close_handle_world split: option.splits)
qed

text \<open>How \<open>listenConn\<close> ends: after some turns and a last one.\<close>

lemma listenConn_last:
  assumes "listenConn ou cid p client w = Some (Ret st')" and "proxy_ok p" and "distinct (nt_open (w_net w))"
    and "\<forall>c \<in> set (nt_open (w_net w)). c < nt_next (w_net w)"
    and "cl_Conn client = Some (cid, tls)" and "cid \<in> set (nt_open (w_net w))"
  obtains n st1 st2 where "listen_turns ou cid n (listen_start p client w) = Some st1"
    "listen_step ou cid st1 = Some (Ret (Break, st2))" "st' = listen_end cid st2"
    "nt_open (w_net (lc_world st')) =
      (if connect_failed ou st1 then nt_open (w_net w) else removeAll cid (nt_open (w_net w)))"
proof -
  let ?st = "listen_start p client w" and ?base = "nt_open (w_net w)"
  have start: "loop_inv ?base cid p (cl_closeConnAfterRequest client) (w_clientConns w + 1) ?st"
    using assms(3-5) by (rule listen_start_inv)
  obtain st2 where st2: "listen_loop ou cid ?st = Some (Ret st2)" "st' = listen_end cid st2"
    using assms(1) by (auto simp: listenConn_def Let_def bind_outcome_Ret_iff)
  from listen_loop_turns [OF st2(1) refl] obtain n st1 where
    t: "listen_turns ou cid n ?st = Some st1" "listen_step ou cid st1 = Some (Ret (Break, st2))" by blast
  have "cl_Conn (lc_client ?st) \<noteq> None" using assms(5) by (simp add: listen_start_def)
  from listen_turns_inv [OF t(1) start this assms(6,2)]
  have inv1: "loop_inv ?base cid p (cl_closeConnAfterRequest client) (w_clientConns w + 1) st1"
    and conn1: "cl_Conn (lc_client st1) \<noteq> None" by simp_all
  note last = listen_step_conn [OF t(2) inv1 assms(6,2) conn1]
  have inv2: "loop_inv ?base cid p (cl_closeConnAfterRequest client) (w_clientConns w + 1) st2"
    using listen_step_inv [OF t(2) inv1 assms(6,2)] by blast
  have "nt_open (w_net (lc_world st')) = (if connect_failed ou st1 then ?base else removeAll cid ?base)"
  proof (cases "cl_Conn (lc_client st2)")
    case None
    with last have "sc_inv (if connect_failed ou st1 then ?base else removeAll cid ?base)
        (lc_server st2) (w_net (lc_world st2))" by simp
    from listen_end_open [OF this, of cid] None st2(2) show ?thesis by simp
  next
    case (Some h)
    with inv2 have "sc_inv ?base (lc_server st2) (w_net (lc_world st2))" "fst h = cid"
      by (auto simp: loop_inv_def)
    with listen_end_open [OF this(1), of cid] Some last st2(2) show ?thesis by simp
  qed
  with t st2(2) that show thesis by blast
qed

lemma serve_client_run:
  assumes "serve_client ou p c now w = Some (Ret st')"
  obtains st where "listenConn ou c (p\<lparr>px_conns := cs_Add (px_conns p) c\<rparr>) (accept_client p c now) w = Some (Ret st)"
    "st' = st\<lparr>lc_px := (lc_px st)\<lparr>px_conns := cs_Remove (px_conns (lc_px st)) c\<rparr>\<rparr>"
  using assms by (auto simp: serve_client_def Let_def bind_outcome_Ret_iff)

lemma accept_client_simps [simp]:
  "cl_Conn (accept_client p c now) = Some (c, False)"
  "cl_closeConnAfterRequest (accept_client p c now) \<longleftrightarrow> px_MaxConnsKeptAlive p \<le> sint (cs_Len (px_conns p))"
  by (simp_all add: accept_client_def)

lemma proxy_ok_conns [simp]: "proxy_ok (p\<lparr>px_conns := s\<rparr>) \<longleftrightarrow> proxy_ok p"
  by (simp add: proxy_ok_def)

text \<open>(C5) When the goroutine of an accepted client returns, nothing of the client is left: every
  connection to a server is closed, the client is in neither set of connections, the count of
  clients is what it was, the connections of everybody else are untouched, and the client's own
  socket is closed, whether the client hung up, was not answered or had its tunnel, with one
  exception: if and only if its last turn was a \<open>CONNECT\<close> that failed, the socket is still open.\<close>

theorem serve_client_cleans_up:
  assumes "proxy_ok p" and "distinct (nt_open (w_net w))"
    and "\<forall>c \<in> set (nt_open (w_net w)). c < nt_next (w_net w)" and "c \<in> set (nt_open (w_net w))"
    and "serve_client ou p c now w = Some (Ret st')"
  shows "conns_of (lc_server st') = [] \<and> \<not> cs_Contains (px_idleConns (lc_px st')) c \<and>
    \<not> cs_Contains (px_conns (lc_px st')) c \<and> w_clientConns (lc_world st') = w_clientConns w \<and>
    (\<exists>n st1 st2. listen_turns ou c n
         (listen_start (p\<lparr>px_conns := cs_Add (px_conns p) c\<rparr>) (accept_client p c now) w) = Some st1 \<and>
       listen_step ou c st1 = Some (Ret (Break, st2)) \<and>
       nt_open (w_net (lc_world st')) =
         (if connect_failed ou st1 then nt_open (w_net w) else removeAll c (nt_open (w_net w))))"
proof -
  let ?p = "p\<lparr>px_conns := cs_Add (px_conns p) c\<rparr>" and ?client = "accept_client p c now"
  have p: "proxy_ok ?p" and conn: "cl_Conn ?client = Some (c, False)" using assms(1) by simp_all
  from assms(5) obtain st where run: "listenConn ou c ?p ?client w = Some (Ret st)"
    "st' = st\<lparr>lc_px := (lc_px st)\<lparr>px_conns := cs_Remove (px_conns (lc_px st)) c\<rparr>\<rparr>"
    by (rule serve_client_run)
  obtain st1 rs where "st = listen_end c st1"
    "loop_inv (nt_open (w_net w)) c ?p (cl_closeConnAfterRequest ?client) (w_clientConns w + 1) st1"
    using listenConn_loop [OF run(1) p assms(2,3) conn assms(4)] by metis
  note ends = listen_end_world [OF this(2) assms(2,4) this(1)]
  from listenConn_last [OF run(1) p assms(2,3) conn assms(4)] obtain n st1 st2 where
    "listen_turns ou c n (listen_start ?p ?client w) = Some st1" "listen_step ou c st1 = Some (Ret (Break, st2))"
    "nt_open (w_net (lc_world st)) = (if connect_failed ou st1 then nt_open (w_net w) else removeAll c (nt_open (w_net w)))"
    by metis
  with ends run(2) show ?thesis by (auto simp: cs_Contains_def)
qed

text \<open>(C6) The responses of a client are the answers to its requests, one by one and in order.  There is a
  log that lists, for each request that was read, in the order in which they were sent, what was
  sent for it: a single response, or nothing for a \<open>CONNECT\<close> and possibly for the last request; the
  responses the client gets are those of the log and no others.  The response of an entry is the
  one that \<open>Modify\<close> or the server gave in this turn, to this request.  Each has an end the client can
  see, and nothing comes after one that announces the end of the connection.  A client accepted
  when the counter of connections has reached the limit gets a single response, with
  \<open>Connection: close\<close>.\<close>

theorem serve_client_answers:
  assumes "proxy_ok p" and "distinct (nt_open (w_net w))"
    and "\<forall>c \<in> set (nt_open (w_net w)). c < nt_next (w_net w)" and "c \<in> set (nt_open (w_net w))"
    and "serve_client ou p c now w = Some (Ret st')"
  shows "\<exists>es. answered_log ou c (listen_start (p\<lparr>px_conns := cs_Add (px_conns p) c\<rparr>) (accept_client p c now) w) es \<and>
    list_all2 read_as (take (length es) (w_requests w)) (map fst es) \<and>
    (\<forall>(q, rs) \<in> set (butlast es). rq_Method q \<noteq> ''CONNECT'' \<longrightarrow> (\<exists>r. rs = [r] \<and> \<not> rs_Close r)) \<and>
    (let rs = concat (map snd es)
     in w_sent (lc_world st') = w_sent w @ rs \<and>
        (\<forall>r \<in> set rs. delimited (rs_ContentLength r) (rs_TransferEncoding r) (rs_Close r)) \<and>
        (\<forall>r \<in> set (butlast rs). \<not> rs_Close r) \<and>
        (px_MaxConnsKeptAlive p \<le> sint (cs_Len (px_conns p)) \<longrightarrow> length rs \<le> 1 \<and> (\<forall>r \<in> set rs. rs_Close r)))"
proof -
  let ?p = "p\<lparr>px_conns := cs_Add (px_conns p) c\<rparr>" and ?client = "accept_client p c now"
  let ?st = "listen_start ?p ?client w"
  have p: "proxy_ok ?p" and conn: "cl_Conn ?client = Some (c, False)" using assms(1) by simp_all
  from assms(5) obtain st where run: "listenConn ou c ?p ?client w = Some (Ret st)"
    "st' = st\<lparr>lc_px := (lc_px st)\<lparr>px_conns := cs_Remove (px_conns (lc_px st)) c\<rparr>\<rparr>"
    by (rule serve_client_run)
  obtain st1 rs where st: "listen_loop ou c ?st = Some (Ret st1)" "st = listen_end c st1"
    "loop_inv (nt_open (w_net w)) c ?p (cl_closeConnAfterRequest ?client) (w_clientConns w + 1) st1"
    and rs: "exchanged (cl_closeConnAfterRequest ?client) w (lc_world st1) rs" "\<forall>r \<in> set (butlast rs). \<not> rs_Close r"
    by (rule listenConn_loop [OF run(1) p assms(2,3) conn assms(4)])
  obtain es where es: "answered_log ou c ?st es" "w_sent (lc_world st1) = w_sent w @ concat (map snd es)"
    "list_all2 read_as (take (length es) (w_requests w)) (map fst es)"
    "\<forall>(q, rs) \<in> set (butlast es). rq_Method q \<noteq> ''CONNECT'' \<longrightarrow> (\<exists>r. rs = [r] \<and> \<not> rs_Close r)"
    using listen_loop_answers [OF st(1) refl listen_start_inv [OF assms(2,3) conn] assms(4) p]
    by (auto simp: listen_start_def)
  then have all: "concat (map snd es) = rs" using rs(1) by (simp add: exchanged_def)
  have "cl_closeConnAfterRequest ?client \<longrightarrow> butlast rs = []"
    using rs in_set_butlastD [of "hd (butlast rs)" rs]
    by (cases "butlast rs") (auto simp: exchanged_def framed_def)
  then have "cl_closeConnAfterRequest ?client \<longrightarrow> length rs \<le> 1"
    by (metis length_butlast le_0_eq diff_is_0_eq list.size(3) order_refl)
  moreover have "w_sent (lc_world st') = w_sent w @ rs"
    using listen_end_world [OF st(3) assms(2,4) st(2)] rs(1) run(2) by (simp add: exchanged_def)
  ultimately show ?thesis
    using es(1,3,4) rs unfolding Let_def all
    by (intro exI [of _ es]) (simp add: all exchanged_def framed_def)
qed

subsection \<open>A run\<close>

text \<open>A proxy whose \<open>Modify\<close> answers everything itself, and a client that sends one request and
  hangs up.\<close>

definition sample_modify :: modify where
  "sample_modify req client server w = Some (Ret ((Some req, Some sample_resp), server, w))"

definition sample_proxy :: "octets proxy" where
  "sample_proxy = Proxy\<lparr>px_Modify := Some sample_modify\<rparr>"

definition sample_outside :: "(octets, string, octets, octets) outside" where
  "sample_outside = \<lparr>ou_crypto = toy_crypto, ou_dec = sample_dec, ou_remote = (\<lambda>_. ''10.0.0.1:80'')\<rparr>"

definition sample_get :: "rbody request" where
  "sample_get =
     \<lparr>rq_Method = ''GET'', rq_URL = sample_url ''a'', rq_Proto = ''HTTP/1.1'', rq_ProtoMajor = 1, rq_ProtoMinor = 1,
      rq_Header = Map.empty, rq_Body = None, rq_ContentLength = 0, rq_TransferEncoding = [],
      rq_Close = False, rq_Host = ''a'', rq_RemoteAddr = [], rq_RequestURI = []\<rparr>"

definition sample_world :: world where
  "sample_world =
     \<lparr>w_net = sample_net, w_requests = [(7, Some sample_get, None), (9, None, Some EOF)], w_sends = [],
      w_sent = [], w_raw = [], w_handshakes = [], w_presented = [], w_tunnels = [], w_scheds = [],
      w_time = 0, w_clientConns = 4, w_sessions = no_sessions\<rparr>"

lemma sample_get_Method: "rq_Method sample_get = ''GET''"
  by (simp add: sample_get_def)

lemma sample_modify_ok: "modify_ok sample_modify"
  by (simp add: modify_ok_def sample_modify_def)

lemma sample_proxy_ok: "proxy_ok sample_proxy"
  by (simp add: proxy_ok_def sample_proxy_def sample_modify_ok)

lemma sample_world_simps:
  "distinct (nt_open (w_net sample_world))" "\<forall>c \<in> set (nt_open (w_net sample_world)). c < nt_next (w_net sample_world)"
  "1 \<in> set (nt_open (w_net sample_world))" "nt_open (w_net sample_world) = [1]"
  by (simp_all add: sample_world_def sample_net_def)

lemma sample_resp_simps:
  "rs_ContentLength sample_resp = 5" "rs_Close sample_resp = False" "rs_TransferEncoding sample_resp = []"
  "\<exists>b. rs_Body sample_resp = Some b"
  by (simp_all add: sample_resp_def zero_response_def)


fun sample_item :: "int \<times> rbody request option \<times> goerr option \<Rightarrow> bool" where
  "sample_item (t, r, e) \<longleftrightarrow> r = Some sample_get \<and> e = None \<or> r = None"

definition sample_state :: "octets lc \<Rightarrow> bool" where
  "sample_state st \<longleftrightarrow> px_Modify (lc_px st) = Some sample_modify \<and> cl_Conn (lc_client st) = Some (1, False) \<and>
     list_all sample_item (w_requests (lc_world st))"

lemma sample_answer:
  assumes "sample_state st"
  shows "\<exists>c st'. answer 1 st sample_resp = Ret (c, st') \<and> sample_state st' \<and>
    w_requests (lc_world st') = w_requests (lc_world st)"
proof -
  let ?r = "client_frame (finish_response (cl_closeConnAfterRequest (lc_client st)) sample_resp)"
  have h: "cl_Conn (lc_client st) = Some (1, False)" using assms by (simp del: One_nat_def add: sample_state_def)
  obtain e w where w: "send_response ?r (1, False) (lc_world st) = (e, w)"
    by (cases "send_response ?r (1, False) (lc_world st)") auto
  from send_response_world [OF w] assms show ?thesis
    by (auto simp del: One_nat_def simp: answer_def client_Write_def Let_def h w sample_state_def)
qed

lemma sample_step:
  assumes "sample_state st"
  shows "\<exists>c st'. listen_step sample_outside 1 st = Some (Ret (c, st')) \<and> sample_state st' \<and>
    (c = Continue \<longrightarrow> length (w_requests (lc_world st')) < length (w_requests (lc_world st)))"
proof -
  let ?l = "client_Listen read_request (lc_client st) (lc_world st)"
  obtain r e w where l: "?l = (r, e, w)" by (cases ?l) auto
  have h: "cl_Conn (lc_client st) = Some (1, False)" using assms by (simp del: One_nat_def add: sample_state_def)
  have w: "sample_state (turn_start 1 st w)" "sample_state (st\<lparr>lc_world := w\<rparr>)"
    "e = None \<Longrightarrow> length (w_requests w) < length (w_requests (lc_world st)) \<and> (\<exists>rq. r = Some rq \<and> rq_Method rq = ''GET'')"
    using l h assms
    by (auto simp del: One_nat_def simp: client_Listen_def read_request_def sample_state_def Let_def sample_get_Method
        split: if_splits list.splits option.splits)
  show ?thesis
  proof (cases "e = None")
    case False
    with l w(2) show ?thesis by (simp del: One_nat_def add: listen_step_def Let_def)
  next
    case True
    with w(3) obtain rq where rq: "r = Some rq" "rq_Method rq = ''GET''" by blast
    have m: "px_Modify (lc_px (turn_start 1 st w)) = Some sample_modify" using w(1) by (simp del: One_nat_def add: sample_state_def)
    then have "respond sample_outside (turn_start 1 st w) q = Some (Ret (Some sample_resp, turn_start 1 st w))" for q
      by (simp del: One_nat_def add: respond_def sample_modify_def)
    then have "listen_step sample_outside 1 st = Some (answer 1 (turn_start 1 st w) sample_resp)"
      using l True rq h by (simp del: One_nat_def add: listen_step_def Let_def turn_start_def)
    with sample_answer [OF w(1)] w(3) True show ?thesis by (auto simp del: One_nat_def)
  qed
qed

lemma sample_loop: "sample_state st \<Longrightarrow> \<exists>st'. listen_loop sample_outside 1 st = Some (Ret st')"
proof (induction "length (w_requests (lc_world st))" arbitrary: st rule: less_induct)
  case less
  from sample_step [OF less(2)] obtain c st1 where s: "listen_step sample_outside 1 st = Some (Ret (c, st1))"
    "sample_state st1" "c = Continue \<longrightarrow> length (w_requests (lc_world st1)) < length (w_requests (lc_world st))"
    by blast
  show ?case
  proof (cases c)
    case Break
    with s(1) show ?thesis by (simp add: listen_loop.simps)
  next
    case Continue
    with s less(1) [of st1] show ?thesis by (simp add: listen_loop.simps [of _ _ st])
  qed
qed

lemma sample_run:
  assumes "px_Modify p = Some sample_modify"
  obtains st' where "serve_client sample_outside p 1 now sample_world = Some (Ret st')"
proof -
  let ?p = "p\<lparr>px_conns := cs_Add (px_conns p) 1\<rparr>"
  have "sample_state (listen_start ?p (accept_client p 1 now) sample_world)"
    using assms by (simp del: One_nat_def add: sample_state_def listen_start_def sample_world_def)
  from sample_loop [OF this] that show thesis
    by (auto simp del: One_nat_def simp: serve_client_def listenConn_def Let_def)
qed

theorem serve_client_cleans_up_witness:
  "\<exists>st'. serve_client sample_outside sample_proxy 1 0 sample_world = Some (Ret st') \<and>
    conns_of (lc_server st') = [] \<and> w_clientConns (lc_world st') = 4 \<and> \<not> cs_Contains (px_conns (lc_px st')) 1"
proof -
  obtain st' where st': "serve_client sample_outside sample_proxy 1 0 sample_world = Some (Ret st')"
    using sample_run [of sample_proxy] by (auto simp: sample_proxy_def)
  from serve_client_cleans_up [OF sample_proxy_ok sample_world_simps(1-3) st'] st'
  show ?thesis by (auto simp: sample_world_def)
qed

theorem serve_client_answers_witness:
  "\<exists>st'. serve_client sample_outside (sample_proxy\<lparr>px_MaxConnsKeptAlive := 0\<rparr>) 1 0 sample_world = Some (Ret st') \<and>
    length (w_sent (lc_world st')) \<le> 1 \<and> (\<forall>r \<in> set (w_sent (lc_world st')). rs_Close r)"
proof -
  let ?p = "sample_proxy\<lparr>px_MaxConnsKeptAlive := 0\<rparr>"
  obtain st' where st': "serve_client sample_outside ?p 1 0 sample_world = Some (Ret st')"
    using sample_run [of ?p] by (auto simp: sample_proxy_def)
  have "proxy_ok ?p" using sample_proxy_ok by (simp add: proxy_ok_def)
  from serve_client_answers [OF this sample_world_simps(1-3) st'] obtain es :: "(rbody request \<times> rbody response list) list" where
    "w_sent (lc_world st') = w_sent sample_world @ concat (map snd es)"
    "px_MaxConnsKeptAlive ?p \<le> sint (cs_Len (px_conns ?p)) \<longrightarrow>
       length (concat (map snd es)) \<le> 1 \<and> (\<forall>r \<in> set (concat (map snd es)). rs_Close r)"
    unfolding Let_def by blast
  moreover have "px_MaxConnsKeptAlive ?p \<le> sint (cs_Len (px_conns ?p))" "w_sent sample_world = []"
    by (simp_all add: sample_world_def sample_proxy_def Proxy_def new_connSet_def cs_Len_def)
  ultimately show ?thesis using st' by simp
qed

subsection \<open>The loop ends\<close>

lemma listen_loop_returns:
  assumes "loop_inv base cid p closeAfter clients st" and "cid \<in> set base" and "proxy_ok p"
    and "listen_loop ou cid st = None"
  shows "\<exists>n st1. n \<le> length (w_requests (lc_world st)) \<and> listen_turns ou cid n st = Some st1 \<and>
    listen_step ou cid st1 = None"
  using assms
proof (induction "length (w_requests (lc_world st))" arbitrary: st rule: less_induct)
  case less
  show ?case
  proof (cases "listen_step ou cid st")
    case None
    then show ?thesis by (intro exI [of _ 0] exI [of _ st]) simp
  next
    case (Some res)
    with less(5) obtain st1 where step: "listen_step ou cid st = Some (Ret (Continue, st1))"
      "listen_loop ou cid st1 = None"
      by (auto simp: listen_loop.simps [of _ _ st] split: outcome.splits ctl.splits)
    from listen_step_inv [OF step(1) less(2,3,4)] have inv: "loop_inv base cid p closeAfter clients st1"
      and shorter: "length (w_requests (lc_world st1)) < length (w_requests (lc_world st))" by auto
    from less(1) [OF shorter inv less(3,4) step(2)] obtain n st2 where
      n: "n \<le> length (w_requests (lc_world st1))" "listen_turns ou cid n st1 = Some st2" "listen_step ou cid st2 = None"
      by blast
    with step(1) shorter show ?thesis by (intro exI [of _ "Suc n"] exI [of _ st2]) simp
  qed
qed


text \<open>(C20) The loop of a client always ends, after at most as many turns as the client sends requests,
  provided each of its turns ends (the calls of \<open>Modify\<close>, the exchanges with the servers and the
  tunnels are what a turn waits for).\<close>

theorem listenConn_returns:
  assumes "proxy_ok p" and "distinct (nt_open (w_net w))"
    and "\<forall>c \<in> set (nt_open (w_net w)). c < nt_next (w_net w)"
    and "cl_Conn client = Some (cid, tls)" and "cid \<in> set (nt_open (w_net w))"
    and "\<forall>n \<le> length (w_requests w). \<forall>st. listen_turns ou cid n (listen_start p client w) = Some st \<longrightarrow>
      listen_step ou cid st \<noteq> None"
  shows "listenConn ou cid p client w \<noteq> None"
proof
  assume "listenConn ou cid p client w = None"
  then have "listen_loop ou cid (listen_start p client w) = None" by (simp add: listenConn_def)
  from listen_loop_returns [OF listen_start_inv [OF assms(2-4)] assms(5,1) this] assms(6) show False
    by (auto simp: listen_start_def)
qed

lemma sample_turns: "sample_state st \<Longrightarrow> listen_turns sample_outside 1 n st = Some st1 \<Longrightarrow> sample_state st1"
proof (induction n arbitrary: st)
  case (Suc n)
  from sample_step [OF Suc(2)] Suc(1,3) show ?case by (auto split: ctl.splits)
qed simp

theorem listenConn_returns_witness:
  "listenConn sample_outside 1 sample_proxy (accept_client sample_proxy 1 0) sample_world \<noteq> None"
proof (rule listenConn_returns [OF sample_proxy_ok sample_world_simps(1,2) _ sample_world_simps(3)])
  show "cl_Conn (accept_client sample_proxy 1 0) = Some (1, False)" by simp
  have start: "sample_state (listen_start sample_proxy (accept_client sample_proxy 1 0) sample_world)"
    by (simp del: One_nat_def add: sample_state_def listen_start_def sample_world_def sample_proxy_def)
  show "\<forall>n \<le> length (w_requests sample_world). \<forall>st.
      listen_turns sample_outside 1 n (listen_start sample_proxy (accept_client sample_proxy 1 0) sample_world) = Some st \<longrightarrow>
      listen_step sample_outside 1 st \<noteq> None"
    using sample_step sample_turns [OF start] by fastforce
qed

subsection \<open>A \<open>CONNECT\<close> that fails\<close>

text \<open>(C36) A \<open>CONNECT\<close> that fails, for whatever reason (the reply cannot be written, the TLS handshake
  with the client fails, the server cannot be dialled), leaves the client's connection open:
  \<open>listenConn\<close> stores the nil connection it got back in the client before closing it.\<close>

theorem failed_CONNECT_leaks:
  assumes "distinct (nt_open (w_net w))" and "\<forall>c \<in> set (nt_open (w_net w)). c < nt_next (w_net w)"
    and "cl_Conn client = Some (cid, tls)" and "cid \<in> set (nt_open (w_net w))"
    and "client_Listen read_request client (w\<lparr>w_clientConns := w_clientConns w + 1\<rparr>) = (Some r, None, w1)"
    and "rq_Method r = ''CONNECT''"
    and "handleConnect ou (px_Cert p) r (cid, tls) w1 = Some (Ret (None, Some e, w2))"
  shows "\<exists>st'. listenConn ou cid p client w = Some (Ret st') \<and>
    nt_open (w_net (lc_world st')) = nt_open (w_net w)"
proof -
  let ?base = "nt_open (w_net w)" and ?st = "listen_start p client w"
  let ?st1 = "(turn_start cid ?st w1)\<lparr>lc_world := w2, lc_client := client\<lparr>cl_Conn := None\<rparr>\<rparr>"
  have l: "client_Listen read_request (lc_client ?st) (lc_world ?st) = (Some r, None, w1)"
    using assms(5) by (simp add: listen_start_def)
  have start: "loop_inv ?base cid p (cl_closeConnAfterRequest client) (w_clientConns w + 1) ?st"
    by (rule listen_start_inv [OF assms(1-3)])
  have c: "cl_Conn (lc_client ?st) = Some (cid, tls)" using assms(3) by (simp add: listen_start_def)
  have "listen_step ou cid ?st = Some (Ret (Break, ?st1))"
    using l c assms(6,7) by (simp add: listen_step_def Let_def turn_start_def listen_start_def)
  then have "listenConn ou cid p client w = Some (Ret (listen_end cid ?st1))"
    by (simp add: listenConn_def listen_loop.simps)
  moreover have "sc_inv ?base (lc_server ?st) (w_net w2)"
    using assms(7) turn_start_inv(3) [OF start c l]
    by (cases rule: handleConnect_cases [where base = ?base and scp = "lc_server ?st"]) (use assms(4) in auto)
  ultimately show ?thesis
    using sc_close_inv(2) [of ?base "lc_server ?st" "w_net w2"]
    by (cases "sc_close (lc_server ?st) (w_net w2)")
       (auto simp: listen_end_def sc_Close_def client_Close_def)
qed


definition sample_connect :: "rbody request" where
  "sample_connect = sample_get
     \<lparr>rq_Method := ''CONNECT'', rq_URL := (sample_url ''a.b:443'')\<lparr>url_Scheme := []\<rparr>, rq_Host := ''a.b:443''\<rparr>"

lemma sample_connect_listen:
  "client_Listen read_request (accept_client p 1 now)
      (sample_world\<lparr>w_requests := [(7, Some sample_connect, None)], w_handshakes := hs,
         w_clientConns := n\<rparr>) =
    (Some (sample_connect\<lparr>rq_URL := (sample_url ''a.b:443'')\<lparr>url_Scheme := ''https''\<rparr>, rq_Host := []\<rparr>), None,
     sample_world\<lparr>w_requests := [], w_handshakes := hs, w_clientConns := n, w_time := 7\<rparr>)"
  by (simp add: client_Listen_def read_request_def accept_client_def is_open_def sample_world_def sample_net_def
      sample_connect_def sample_get_def sample_url_def resolveRealHost_def SplitHostAndPort_def numeral_eq_Suc)


lemma sample_connect_host: "SplitHostAndPort ''a.b:443'' = (''a.b'', ''443'')"
  by (simp add: SplitHostAndPort_def numeral_eq_Suc)

lemma failed_handshake:
  assumes "url_Host (rq_URL r) = ''a.b:443''" and "resolveRealHost (rq_URL r) (rq_Host r) = ''a.b:443''"
    and "is_open (c, False) w" and "w_sends w = []" and "w_handshakes w = [Some e]"
  shows "\<exists>w2. handleConnect sample_outside (toy_ca k) r (c, False) w = Some (Ret (None, Some e, w2))"
proof -
  have o: "ou_crypto sample_outside = toy_crypto" by (simp add: sample_outside_def)
  obtain w1 where w1: "send_raw (ok_line r) (c, False) w = (None, w1)" "w_handshakes w1 = [Some e]"
    using assms(3-5) by (simp add: send_raw_def next_send_def)
  obtain w2 where "handshake [k @ replicate 8 28, k] (c, False) w1 = (Some e, w2)"
    using w1(2) by (simp add: handshake_def)
  with w1(1) show ?thesis
    by (simp add: handleConnect_def assms(1,2) sample_connect_host o toy_sign Let_def)
qed

lemma sample_connect_fails:
  "\<exists>w2. handleConnect sample_outside (toy_ca k)
      (sample_connect\<lparr>rq_URL := (sample_url ''a.b:443'')\<lparr>url_Scheme := ''https''\<rparr>, rq_Host := []\<rparr>) (1, False)
      (sample_world\<lparr>w_requests := [], w_handshakes := [Some e], w_clientConns := n, w_time := 7\<rparr>) =
    Some (Ret (None, Some e, w2))"
  by (rule failed_handshake)
     (simp_all add: sample_url_def resolveRealHost_def insertPort_def SplitHostAndPort_def numeral_eq_Suc
       is_open_def sample_world_def sample_net_def)

theorem failed_CONNECT_leaks_witness:
  "\<exists>st'. listenConn sample_outside 1 (sample_proxy\<lparr>px_Cert := toy_ca []\<rparr>) (accept_client sample_proxy 1 0)
      (sample_world\<lparr>w_requests := [(7, Some sample_connect, None)], w_handshakes := [Some (Err ''bad certificate'')]\<rparr>) =
      Some (Ret st') \<and> nt_open (w_net (lc_world st')) = [1]"
proof -
  let ?e = "Err ''bad certificate''"
  let ?w = "sample_world\<lparr>w_requests := [(7, Some sample_connect, None)], w_handshakes := [Some ?e]\<rparr>"
  let ?p = "sample_proxy\<lparr>px_Cert := toy_ca []\<rparr>"
  let ?r = "sample_connect\<lparr>rq_URL := (sample_url ''a.b:443'')\<lparr>url_Scheme := ''https''\<rparr>, rq_Host := []\<rparr>"
  let ?w1 = "sample_world\<lparr>w_requests := [], w_handshakes := [Some ?e], w_clientConns := w_clientConns ?w + 1, w_time := 7\<rparr>"
  have w: "nt_open (w_net ?w) = [1]" "nt_next (w_net ?w) = 3" by (simp_all add: sample_world_def sample_net_def)
  have listen: "client_Listen read_request (accept_client sample_proxy 1 0) (?w\<lparr>w_clientConns := w_clientConns ?w + 1\<rparr>) =
      (Some ?r, None, ?w1)"
    using sample_connect_listen [where hs = "[Some ?e]" and n = "w_clientConns ?w + 1"] by simp
  have "rq_Method ?r = ''CONNECT''" by (simp add: sample_connect_def)
  moreover obtain w2 where "handleConnect sample_outside (px_Cert ?p) ?r (1, False) ?w1 = Some (Ret (None, Some ?e, w2))"
    using sample_connect_fails [where k = "[]" and e = ?e and n = "w_clientConns ?w + 1"] by auto
  ultimately show ?thesis
    using failed_CONNECT_leaks [of ?w "accept_client sample_proxy 1 0" 1 False ?r ?w1 sample_outside ?p ?e w2] listen w
    by simp
qed

subsection \<open>Idle clients\<close>

definition expired :: "(conn \<Rightarrow> handle ClientConnProps) \<Rightarrow> int \<Rightarrow> conn \<Rightarrow> bool" where
  "expired clients now c \<longleftrightarrow> cl_lastUsedTime (clients c) + cl_idleTimeout (clients c) < now"

lemma check_timeout_world:
  assumes "map_option fst (cl_Conn (clients c)) = Some c"
  shows "check_timeout clients now c w =
    (True, if expired clients now c then w\<lparr>w_net := (w_net w)\<lparr>nt_open := removeAll c (nt_open (w_net w))\<rparr>\<rparr> else w)"
  using assms
  by (auto simp: check_timeout_def expired_def Let_def client_Close_def close_handle_def conn_close_def
      split: prod.splits)

lemma timeout_loop:
  "(\<forall>c \<in> set cs. map_option fst (cl_Conn (clients c)) = Some c) \<Longrightarrow>
     range_loop (check_timeout clients now) cs w =
       w\<lparr>w_net := (w_net w)\<lparr>nt_open := filter (\<lambda>c. \<not> (c \<in> set cs \<and> expired clients now c)) (nt_open (w_net w))\<rparr>\<rparr>"
proof (induction cs arbitrary: w)
  case (Cons c cs)
  then have "map_option fst (cl_Conn (clients c)) = Some c" by simp
  note c = check_timeout_world [of clients c, OF this]
  show ?case
  proof (cases "expired clients now c")
    case True
    then have "filter (\<lambda>d. \<not> (d \<in> set cs \<and> expired clients now d)) (removeAll c os) =
        filter (\<lambda>d. \<not> (d \<in> set (c # cs) \<and> expired clients now d)) os" for os
      by (induction os) auto
    with Cons True show ?thesis by (simp add: c)
  next
    case False
    then have "filter (\<lambda>d. \<not> (d \<in> set cs \<and> expired clients now d)) os =
        filter (\<lambda>d. \<not> (d \<in> set (c # cs) \<and> expired clients now d)) os" for os
      by (induction os) auto
    with Cons False show ?thesis by (simp add: c)
  qed
qed simp

text \<open>A round of the timeout checker closes the connections of exactly those idle clients whose
  last response is longer ago than their timeout, and nothing else changes.  A client that is
  being answered, or that has never completed a request, is not in the set and is never timed
  out.\<close>

theorem timeout_round_exact:
  assumes "\<forall>c \<in> set (cs_m (px_idleConns p)). map_option fst (cl_Conn (clients c)) = Some c"
  shows "timeout_round clients now p w =
    w\<lparr>w_net := (w_net w)\<lparr>nt_open := filter (\<lambda>c. \<not> (cs_Contains (px_idleConns p) c \<and> expired clients now c))
        (nt_open (w_net w))\<rparr>\<rparr>"
  using timeout_loop [OF assms] by (simp add: timeout_round_def cs_Range_def cs_Contains_def)

theorem timeout_round_exact_witness:
  "nt_open (w_net (timeout_round (\<lambda>c. accept_client Proxy c (if c = 1 then 0 else 50 * second)) (120 * second)
      (sample_proxy\<lparr>px_idleConns := cs_Add (cs_Add new_connSet 1) 2\<rparr>)
      (sample_world\<lparr>w_net := sample_net\<lparr>nt_open := [1, 2, 5]\<rparr>\<rparr>))) = [2, 5]"
proof -
  let ?p = "sample_proxy\<lparr>px_idleConns := cs_Add (cs_Add new_connSet 1) 2\<rparr>"
  have "cs_m (px_idleConns ?p) = [1, 2]" by (simp add: cs_Add_def new_connSet_def cs_Contains_def)
  with timeout_round_exact [of ?p "\<lambda>c. accept_client Proxy c (if c = 1 then 0 else 50 * second)"]
  show ?thesis by (simp add: expired_def accept_client_def Proxy_def second_def cs_Contains_def)
qed

end
