(* ===== verification/Api.thy ===== *)
theory Api
  imports ProxyLoop RewriteLogic
begin

text \<open>
  \<open>main.go\<close>: the API that sets the rules of a client, and the function that \<open>main\<close> gives to the
  proxy (\<open>OnRequest\<close>): it applies the rules of the client to the request, sends it, and applies
  them to the response.

  \<open>json.Unmarshal\<close> into a \<open>Config\<close>, \<open>regexp.Compile\<close>, \<open>URL.String\<close>, \<open>url.Parse\<close>, the order in
  which a header is walked and the sizes of the buffers of \<open>ioutil.ReadAll\<close> are arguments.
  The log lines are left out.
\<close>

record api =
  ae_unmarshal :: "bytes \<Rightarrow> string + Config"
  ae_compile :: rx_compiler
  ae_urlString :: "url \<Rightarrow> string"
  ae_urlParse :: "string \<Rightarrow> string + url"
  ae_walk :: "header \<Rightarrow> string list"
  ae_sizes :: "nat \<Rightarrow> nat"
  ae_caBytes :: bytes
  ae_dec :: decoders
  ae_remote :: "conn \<Rightarrow> string"

definition nil_deref :: string where
  "nil_deref = ''invalid memory address or nil pointer dereference''"

definition regexBufferSize :: nat where
  "regexBufferSize = 4096 * 4"

subsection \<open>The API\<close>

definition setBodyString :: "rbody response \<Rightarrow> string \<Rightarrow> rbody response" where
  "setBodyString resp s =
     resp\<lparr>rs_ContentLength := int (length s), rs_Body := Some (rdr_of buffer_read s, NopClose)\<rparr>"

text \<open>\<open>ioutil.ReadAll\<close>: the bytes it returns are never a nil slice, and the end of the body is no
  error.  \<open>None\<close>: it does not return.\<close>

definition ReadAll :: "(nat \<Rightarrow> nat) \<Rightarrow> rdr \<Rightarrow> (bytes \<times> goerr option) option" where
  "ReadAll sizes ob =
     (case drain rdr_read sizes 0 [] ob of
        None \<Rightarrow> None
      | Some (bs, x, ob') \<Rightarrow> Some (bs, if x = EOF then None else Some x))"

definition handleProxyAPI ::
  "api \<Rightarrow> rbody request \<Rightarrow> sessions \<Rightarrow> (rbody response \<times> sessions) outcome option" where
  "handleProxyAPI ae req ss =
     (let clientIP = fst (SplitHostAndPort (rq_RemoteAddr req));
          resp = NewResponse req;
          errResp = setBodyString ((NewResponse req)\<lparr>rs_StatusCode := 404\<rparr>) []
      in if url_Path (rq_URL req) = ''/api/rules/set'' then
           (case rq_Body req of
              None \<Rightarrow> Some (Panic nil_deref)
            | Some b \<Rightarrow>
                (case ReadAll (ae_sizes ae) (fst b) of
                   None \<Rightarrow> None
                 | Some (newRulesBytes, Some err) \<Rightarrow> Some (Ret (setBodyString errResp (error_text err), ss))
                 | Some (newRulesBytes, None) \<Rightarrow>
                     (case ae_unmarshal ae newRulesBytes of
                        Inl err \<Rightarrow> Some (Ret (setBodyString errResp err, ss))
                      | Inr config \<Rightarrow>
                          let clientIP = (case cf_IP config of None \<Rightarrow> clientIP | Some ip \<Rightarrow> ip)
                          in case Compile (ae_compile ae) config of
                               Inl err \<Rightarrow> Some (Ret (setBodyString errResp err, ss))
                             | Inr newRewriteRules \<Rightarrow>
                                 Some (Ret ((setBodyString resp ''setting rules'')\<lparr>rs_StatusCode := 200\<rparr>,
                                            store_rules clientIP newRewriteRules ss)))))
         else if url_Path (rq_URL req) = ''/api/rules/clear'' then
           Some (Ret ((setBodyString resp ''clearing rules'')\<lparr>rs_StatusCode := 200\<rparr>, clear_rules clientIP ss))
         else if url_Path (rq_URL req) = ''/ca.pem'' then
           (let resp = resp\<lparr>rs_ContentLength := int (length (ae_caBytes ae)),
                            rs_Body := Some (rdr_of string_read (ae_caBytes ae), NopClose)\<rparr>;
                resp = resp\<lparr>rs_Header := hdr_Set (rs_Header resp) ''Content-Type'' ''application/x-pem-file''\<rparr>
            in Some (Ret (resp\<lparr>rs_StatusCode := 200\<rparr>, ss)))
         else Some (Ret (errResp, ss)))"

subsection \<open>Rules on a request\<close>

text \<open>A throttled body: its delays are the subject of \<open>Throttle\<close>, the object that is read is the same;
  closing it removes it from its controller first.\<close>

definition throttle_body ::
  "string \<Rightarrow> string \<Rightarrow> 64 word option \<Rightarrow> int \<Rightarrow> rbody \<times> sessions \<Rightarrow> rbody \<times> sessions" where
  "throttle_body ip key speed now s =
     (let (b, ss) = s
      in case speed of
           None \<Rightarrow> (b, ss)
         | Some rate \<Rightarrow>
             (let (i, ss) = find_controller ip key rate now ss
              in ((fst b, CloseBoth (CloseOf (RThrottle i)) (snd b)), add_reader i ss)))"

text \<open>\<open>AlterBody\<close> and the throttle on a body that may be nil.  \<open>http.ReadRequest\<close> and
  \<open>http.ReadResponse\<close> never deliver a nil body; a nil one would panic when it is first read,
  here it does so at once.\<close>

definition alter_message_body ::
  "Rule list \<Rightarrow> string \<Rightarrow> string \<Rightarrow> 64 word option \<Rightarrow> int \<Rightarrow> rbody option \<Rightarrow> sessions \<Rightarrow>
     (rbody option \<times> sessions) outcome" where
  "alter_message_body rules ip key speed now body ss =
     (if rules = [] \<and> speed = None then Ret (body, ss)
      else case body of
             None \<Rightarrow> Panic nil_deref
           | Some b \<Rightarrow>
               bind_outcome (AlterBody b regexBufferSize rules)
                 (\<lambda>b. let (b, ss) = throttle_body ip key speed now (b, ss) in Ret (Some b, ss)))"

text \<open>The rules of one entry.  No request left: a URL that does not parse after it was rewritten.
  \<open>AlterHeader\<close> returns no error.\<close>

definition request_entry ::
  "api \<Rightarrow> string \<Rightarrow> int \<Rightarrow> regexp \<Rightarrow> Entry \<Rightarrow> rbody request \<Rightarrow> sessions \<Rightarrow>
     (rbody request option \<times> sessions) outcome" where
  "request_entry ae ip now rx entry req ss =
     (let rules = wh_Request (en_Rewrite entry);
          (err, u) = AlterURL (ae_urlString ae) (ae_urlParse ae) (rq_URL req) (ty_URL rules)
      in if err \<noteq> None then Ret (None, ss)
         else
           let req = req\<lparr>rq_URL := u, rq_Header := AlterHeader (ae_walk ae (rq_Header req)) (rq_Header req) (ty_Header rules)\<rparr>;
               req = (if ty_Body rules \<noteq> [] then req\<lparr>rq_ContentLength := - 1\<rparr> else req)
           in bind_outcome
                (alter_message_body (ty_Body rules) ip (''rq'' @ [CHR 0x0A] @ rx_expr rx) (en_UploadSpeed entry) now
                   (rq_Body req) ss)
                (\<lambda>(body, ss). Ret (Some (req\<lparr>rq_Body := body\<rparr>), ss)))"

fun request_entries ::
  "api \<Rightarrow> string \<Rightarrow> int \<Rightarrow> string \<Rightarrow> Entry list \<Rightarrow> rbody request \<Rightarrow> sessions \<Rightarrow>
     (rbody request option \<times> sessions) outcome" where
  "request_entries ae ip now originalURL [] req ss = Ret (Some req, ss)"
| "request_entries ae ip now originalURL (entry # entries) req ss =
     (case en_URL entry of
        None \<Rightarrow> Panic nil_deref
      | Some rx \<Rightarrow>
          if \<not> MatchString rx originalURL then request_entries ae ip now originalURL entries req ss
          else
            (case request_entry ae ip now rx entry req ss of
               Panic m \<Rightarrow> Panic m
             | Ret (None, ss) \<Rightarrow> Ret (None, ss)
             | Ret (Some req, ss) \<Rightarrow> request_entries ae ip now originalURL entries req ss))"

subsection \<open>Rules on a response\<close>

definition response_head :: "api \<Rightarrow> Entry \<Rightarrow> rbody response \<times> 64 word \<Rightarrow> rbody response \<times> 64 word" where
  "response_head ae entry s =
     (let (resp, responseDelay) = s;
          rules = wh_Response (en_Rewrite entry);
          resp = resp\<lparr>rs_Header := AlterHeader (ae_walk ae (rs_Header resp)) (rs_Header resp) (ty_Header rules)\<rparr>;
          resp = AlterStatus resp (ty_Status rules);
          resp = (if ty_Body rules \<noteq> [] then resp\<lparr>rs_ContentLength := - 1\<rparr> else resp)
      in (resp, case en_ResponseDelay entry of
                  None \<Rightarrow> responseDelay
                | Some d \<Rightarrow> if responseDelay < d then d else responseDelay))"

definition response_entry ::
  "api \<Rightarrow> string \<Rightarrow> int \<Rightarrow> regexp \<Rightarrow> Entry \<Rightarrow> rbody response \<times> 64 word \<Rightarrow> sessions \<Rightarrow>
     ((rbody response \<times> 64 word) \<times> sessions) outcome" where
  "response_entry ae ip now rx entry s ss =
     (let (resp, responseDelay) = response_head ae entry s
      in bind_outcome
           (alter_message_body (ty_Body (wh_Response (en_Rewrite entry))) ip (rx_expr rx) (en_DownloadSpeed entry) now
              (rs_Body resp) ss)
           (\<lambda>(body, ss). Ret ((resp\<lparr>rs_Body := body\<rparr>, responseDelay), ss)))"

fun response_entries ::
  "api \<Rightarrow> string \<Rightarrow> int \<Rightarrow> string \<Rightarrow> Entry list \<Rightarrow> rbody response \<times> 64 word \<Rightarrow> sessions \<Rightarrow>
     ((rbody response \<times> 64 word) \<times> sessions) outcome" where
  "response_entries ae ip now originalURL [] s ss = Ret (s, ss)"
| "response_entries ae ip now originalURL (entry # entries) s ss =
     (case en_URL entry of
        None \<Rightarrow> Panic nil_deref
      | Some rx \<Rightarrow>
          if \<not> MatchString rx originalURL then response_entries ae ip now originalURL entries s ss
          else
            (case response_entry ae ip now rx entry s ss of
               Panic m \<Rightarrow> Panic m
             | Ret (s, ss) \<Rightarrow> response_entries ae ip now originalURL entries s ss))"

text \<open>The delay is given in microseconds; the product is a signed 64-bit number that can wrap, and a
  negative one does not wait.\<close>

definition delay_time :: "64 word \<Rightarrow> int" where
  "delay_time responseDelay = (if responseDelay \<noteq> 0 then max 0 (sint (responseDelay * 1000)) else 0)"

subsection \<open>The function given to the proxy\<close>

definition on_request :: "api \<Rightarrow> modify" where
  "on_request ae req client server w =
     (let ip = fst (SplitHostAndPort (rq_RemoteAddr req));
          ss = store_used ip (w_time w) (w_sessions w);
          host = fst (SplitHostAndPort (url_Host (rq_URL req)))
      in if host = ''a.proxi'' then
           (case handleProxyAPI ae req ss of
              None \<Rightarrow> None
            | Some (Panic m) \<Rightarrow> Some (Panic m)
            | Some (Ret (resp, ss)) \<Rightarrow> Some (Ret ((Some req, Some resp), server, w\<lparr>w_sessions := ss\<rparr>)))
         else
           let rewriteRulesForClient = rules_of ip ss;
               originalReqURL = ae_urlString ae (rq_URL req)
           in case request_entries ae ip (w_time w) originalReqURL rewriteRulesForClient req ss of
                Panic m \<Rightarrow> Some (Panic m)
              | Ret (None, ss) \<Rightarrow> Some (Ret ((None, None), server, w\<lparr>w_sessions := ss\<rparr>))
              | Ret (Some req, ss) \<Rightarrow>
                  (case round_trip (ae_dec ae) (ae_remote ae) server
                          (Some (req\<lparr>rq_Host := url_Host (rq_URL req)\<rparr>)) (w\<lparr>w_sessions := ss\<rparr>) of
                     None \<Rightarrow> None
                   | Some (Panic m) \<Rightarrow> Some (Panic m)
                   | Some (Ret ((None, err), req, server, w)) \<Rightarrow> Some (Ret ((req, None), server, w))
                   | Some (Ret ((Some resp, err), req, server, w)) \<Rightarrow>
                       (case response_entries ae ip (w_time w) originalReqURL rewriteRulesForClient (resp, 0)
                               (w_sessions w) of
                          Panic m \<Rightarrow> Some (Panic m)
                        | Ret ((resp, responseDelay), ss) \<Rightarrow>
                            Some (Ret ((req, Some resp), server,
                              w\<lparr>w_sessions := ss, w_time := w_time w + delay_time responseDelay\<rparr>)))))"


subsection \<open>What the proxy asks of it\<close>

locale modify_function =
  fixes m :: modify
  assumes m_keeps: "sc_inv base server (w_net w) \<Longrightarrow> m req client server w = Some (Ret (res, server', w')) \<Longrightarrow>
    sc_inv base server' (w_net w') \<and> same_outside w w'"
begin

lemma ok: "modify_ok m"
  using m_keeps unfolding modify_ok_def by blast

lemma installed: "proxy_ok (OnRequest p (Some m))"
  using ok by (simp add: proxy_ok_def OnRequest_def)

end

lemma same_outside_sessions [simp]:
  "same_outside w (w'\<lparr>w_sessions := ss\<rparr>) = same_outside w w'"
  "same_outside (w\<lparr>w_sessions := ss\<rparr>) w' = same_outside w w'"
  "same_outside w (w'\<lparr>w_sessions := ss, w_time := t\<rparr>) = same_outside w w'"
  by (simp_all add: same_outside_def)

text \<open>The ways a call ends.\<close>

lemma on_request_cases:
  assumes "on_request ae req client server w = Some (Ret (res, server', w'))"
  obtains (Api) resp ss where "fst (SplitHostAndPort (url_Host (rq_URL req))) = ''a.proxi''"
      "handleProxyAPI ae req (store_used (fst (SplitHostAndPort (rq_RemoteAddr req))) (w_time w) (w_sessions w)) =
         Some (Ret (resp, ss))"
      "res = (Some req, Some resp)" "server' = server" "w' = w\<lparr>w_sessions := ss\<rparr>"
    | (Dropped) ss where "res = (None, None)" "server' = server" "w' = w\<lparr>w_sessions := ss\<rparr>"
    | (Sent) req1 ss resp err req2 w1 ss2 t where
      "round_trip (ae_dec ae) (ae_remote ae) server (Some req1) (w\<lparr>w_sessions := ss\<rparr>) =
         Some (Ret ((resp, err), req2, server', w1))"
      "w' = w1\<lparr>w_sessions := ss2, w_time := t\<rparr>" "fst res = req2" "(snd res = None) = (resp = None)"
proof -
  let ?ip = "fst (SplitHostAndPort (rq_RemoteAddr req))"
  let ?ss = "store_used ?ip (w_time w) (w_sessions w)"
  let ?url = "ae_urlString ae (rq_URL req)"
  show thesis
  proof (cases "fst (SplitHostAndPort (url_Host (rq_URL req))) = ''a.proxi''")
    case True
    then have eq: "on_request ae req client server w = (case handleProxyAPI ae req ?ss of
        None \<Rightarrow> None | Some (Panic m) \<Rightarrow> Some (Panic m)
      | Some (Ret (resp, ss)) \<Rightarrow> Some (Ret ((Some req, Some resp), server, w\<lparr>w_sessions := ss\<rparr>)))"
      by (simp add: on_request_def Let_def)
    then obtain r where r: "handleProxyAPI ae req ?ss = Some (Ret r)"
      using assms by (cases "handleProxyAPI ae req ?ss") (auto split: outcome.splits)
    obtain resp ss where rs: "r = (resp, ss)" by (cases r)
    with eq assms r have "(res, server', w') = ((Some req, Some resp), server, w\<lparr>w_sessions := ss\<rparr>)" by simp
    with True Api r rs show thesis by simp
  next
    case False
    let ?re = "request_entries ae ?ip (w_time w) ?url (rules_of ?ip ?ss) req ?ss"
    have eq: "on_request ae req client server w =
      (case ?re of
         Panic m \<Rightarrow> Some (Panic m)
       | Ret (None, ss) \<Rightarrow> Some (Ret ((None, None), server, w\<lparr>w_sessions := ss\<rparr>))
       | Ret (Some req, ss) \<Rightarrow>
           (case round_trip (ae_dec ae) (ae_remote ae) server
                   (Some (req\<lparr>rq_Host := url_Host (rq_URL req)\<rparr>)) (w\<lparr>w_sessions := ss\<rparr>) of
              None \<Rightarrow> None
            | Some (Panic m) \<Rightarrow> Some (Panic m)
            | Some (Ret ((None, err), req, server, w)) \<Rightarrow> Some (Ret ((req, None), server, w))
            | Some (Ret ((Some resp, err), req, server, w)) \<Rightarrow>
                (case response_entries ae ?ip (w_time w) ?url (rules_of ?ip ?ss) (resp, 0) (w_sessions w) of
                   Panic m \<Rightarrow> Some (Panic m)
                 | Ret ((resp, responseDelay), ss) \<Rightarrow>
                     Some (Ret ((req, Some resp), server,
                       w\<lparr>w_sessions := ss, w_time := w_time w + delay_time responseDelay\<rparr>)))))"
      using False by (simp add: on_request_def Let_def)
    obtain r ss where re: "?re = Ret (r, ss)"
    proof (cases ?re)
      case (Ret a)
      then show thesis using that [of "fst a" "snd a"] by simp
    next
      case (Panic m)
      have "on_request ae req client server w = Some (Panic m)" unfolding eq Panic by simp
      with assms show thesis by simp
    qed
    show thesis
    proof (cases r)
      case None
      have "on_request ae req client server w = Some (Ret ((None, None), server, w\<lparr>w_sessions := ss\<rparr>))"
        unfolding eq re None by simp
      with assms Dropped [of ss] show thesis by simp
    next
      case (Some req1)
      let ?req = "req1\<lparr>rq_Host := url_Host (rq_URL req1)\<rparr>"
      let ?rt = "round_trip (ae_dec ae) (ae_remote ae) server (Some ?req) (w\<lparr>w_sessions := ss\<rparr>)"
      note eq1 = eq [unfolded re Some, simplified outcome.case prod.case option.case]
      obtain resp err req2 server2 w1 where rt: "?rt = Some (Ret ((resp, err), req2, server2, w1))"
      proof (cases ?rt)
        case None
        have "on_request ae req client server w = None" unfolding eq1 None by simp
        with assms show thesis by simp
      next
        case (Some a)
        show thesis
        proof (cases a)
          case (Panic m)
          have "on_request ae req client server w = Some (Panic m)" unfolding eq1 Some Panic by simp
          with assms show thesis by simp
        next
          case (Ret b)
          with Some that show thesis by (cases b) auto
        qed
      qed
      obtain res2 ss2 t where last: "on_request ae req client server w =
          Some (Ret ((req2, res2), server2, w1\<lparr>w_sessions := ss2, w_time := t\<rparr>))"
        and none: "(res2 = None) = (resp = None)"
      proof (cases resp)
        case None
        have "on_request ae req client server w = Some (Ret ((req2, None), server2, w1))"
          unfolding eq1 rt None by simp
        with None that [where ?ss2.0 = "w_sessions w1" and t = "w_time w1"] show thesis by simp
      next
        case (Some x)
        let ?rs = "response_entries ae ?ip (w_time w1) ?url (rules_of ?ip ?ss) (x, 0) (w_sessions w1)"
        show thesis
        proof (cases ?rs)
          case (Panic m)
          have "on_request ae req client server w = Some (Panic m)" unfolding eq1 rt Some using Panic by simp
          with assms show thesis by simp
        next
          case (Ret y)
          obtain resp2 d ss2 where y: "y = ((resp2, d), ss2)" by (cases y) auto
          show thesis
            by (rule that [where ?res2.0 = "Some resp2" and ?ss2.0 = ss2 and t = "w_time w1 + delay_time d"])
               (use Ret y Some in \<open>simp_all add: eq1 rt\<close>)
        qed
      qed
      from last assms have eqs: "res = (req2, res2)" "server' = server2" "w' = w1\<lparr>w_sessions := ss2, w_time := t\<rparr>"
        by simp_all
      show thesis
        by (rule Sent [OF rt [folded eqs(2)] eqs(3)]) (simp_all add: eqs(1) none)
    qed
  qed
qed

interpretation on_request: modify_function "on_request ae"
proof
  fix base server w req client res server' w'
  assume inv: "sc_inv base server (w_net w)" and "on_request ae req client server w = Some (Ret (res, server', w'))"
  then show "sc_inv base server' (w_net w') \<and> same_outside w w'"
  proof (cases rule: on_request_cases [OF \<open>on_request ae req client server w = _\<close>])
    case (3 req1 ss resp err req2 w1 ss2 t)
    from round_trip_keeps [OF 3(1)] inv 3(2) show ?thesis by simp
  qed (simp_all add: inv)
qed


subsection \<open>Clients without rules\<close>

lemma rules_of_used [simp]: "rules_of ip (store_used ip' now ss) = rules_of ip ss"
  by (simp add: rules_of_def store_used_def)

definition matches :: "string \<Rightarrow> Entry \<Rightarrow> bool" where
  "matches originalURL entry \<longleftrightarrow>
     (case en_URL entry of None \<Rightarrow> True | Some rx \<Rightarrow> MatchString rx originalURL)"

lemma request_entries_unmatched:
  "\<forall>entry \<in> set entries. \<not> matches originalURL entry \<Longrightarrow>
     request_entries ae ip now originalURL entries req ss = Ret (Some req, ss)"
  by (induction entries) (auto simp: matches_def split: option.splits)

lemma response_entries_unmatched:
  "\<forall>entry \<in> set entries. \<not> matches originalURL entry \<Longrightarrow>
     response_entries ae ip now originalURL entries s ss = Ret (s, ss)"
  by (induction entries) (auto simp: matches_def split: option.splits)

lemma delay_time_0 [simp]: "delay_time 0 = 0"
  by (simp add: delay_time_def)

text \<open>A request that no rule of its client matches is passed to the server as it is, and the
  response comes back as it is: the call is the exchange with the server, and all that is
  recorded is when the client was seen.\<close>

theorem on_request_unmatched:
  assumes "fst (SplitHostAndPort (url_Host (rq_URL req))) \<noteq> ''a.proxi''"
    and "\<forall>entry \<in> set (rules_of (fst (SplitHostAndPort (rq_RemoteAddr req))) (w_sessions w)).
      \<not> matches (ae_urlString ae (rq_URL req)) entry"
  shows "on_request ae req client server w =
    (case round_trip (ae_dec ae) (ae_remote ae) server (Some (req\<lparr>rq_Host := url_Host (rq_URL req)\<rparr>))
        (w\<lparr>w_sessions := store_used (fst (SplitHostAndPort (rq_RemoteAddr req))) (w_time w) (w_sessions w)\<rparr>) of
       None \<Rightarrow> None
     | Some (Panic m) \<Rightarrow> Some (Panic m)
     | Some (Ret ((resp, err), req', server', w')) \<Rightarrow> Some (Ret ((req', resp), server', w')))"
  using assms(1)
  by (simp add: on_request_def Let_def request_entries_unmatched [OF assms(2)]
      response_entries_unmatched [OF assms(2)] split: option.split outcome.split)

subsection \<open>The API\<close>

lemma ReadAll_body:
  assumes "reads_as ob bs x" and "\<And>i. 0 < sizes i"
  shows "ReadAll sizes ob = Some (bs, if x = EOF then None else Some x)"
  using reads_as_drain [where sz = sizes, OF assms] by (auto simp: ReadAll_def)

text \<open>A body that says how long it is.\<close>

definition measured :: "rbody response \<Rightarrow> bool" where
  "measured resp \<longleftrightarrow>
     (\<exists>b bs. rs_Body resp = Some b \<and> reads_as (fst b) bs EOF \<and> rs_ContentLength resp = int (length bs))"

lemma setBodyString_measured [simp]: "measured (setBodyString resp s)"
  unfolding measured_def setBodyString_def
  by (intro exI [of _ "(rdr_of buffer_read s, NopClose)"] exI [of _ s])
     (use bufr.rdr_of_reads_as [of s] in simp)

lemma measured_status [simp]: "measured (resp\<lparr>rs_StatusCode := c\<rparr>) = measured resp"
  "measured (resp\<lparr>rs_Header := h\<rparr>) = measured resp"
  by (simp_all add: measured_def)

lemma string_measured [simp]:
  "measured (resp\<lparr>rs_ContentLength := int (length s), rs_Body := Some (rdr_of string_read s, c)\<rparr>)"
  unfolding measured_def
  by (intro exI [of _ "(rdr_of string_read s, c)"] exI [of _ s]) (use strr.rdr_of_reads_as [of s] in simp)

lemma setBodyString_status [simp]: "rs_StatusCode (setBodyString resp s) = rs_StatusCode resp"
  by (simp add: setBodyString_def)

definition only_for :: "string \<Rightarrow> sessions \<Rightarrow> sessions \<Rightarrow> bool" where
  "only_for target ss ss' \<longleftrightarrow> ss_lastTimeUsed ss' = ss_lastTimeUsed ss \<and> ss_controllers ss' = ss_controllers ss \<and>
     (\<forall>ip. ip \<noteq> target \<longrightarrow> ss_rewriteRules ss' ip = ss_rewriteRules ss ip \<and>
       ss_throttledConnections ss' ip = ss_throttledConnections ss ip)"

lemma only_for_simps [simp]:
  "only_for ip ss ss" "only_for ip ss (store_rules ip rules ss)" "only_for ip ss (clear_rules ip ss)"
  by (simp_all add: only_for_def store_rules_def clear_rules_def Let_def)

lemma only_for_ex [simp]:
  "\<exists>target. only_for target ss ss" "\<exists>target. only_for target ss (store_rules ip rules ss)"
  "\<exists>target. only_for target ss (clear_rules ip ss)"
  using only_for_simps by blast+

lemma rules_of_store [simp]: "rules_of ip (store_rules ip rules ss) = rules"
  "rules_of ip (clear_rules ip ss) = []" "ss_throttledConnections (store_rules ip rules ss) ip = None"
  by (simp_all add: rules_of_def store_rules_def clear_rules_def Let_def)

lemma handleProxyAPI_sound:
  assumes "handleProxyAPI ae req ss = Some (Ret (resp, ss'))"
  shows "measured resp \<and> (rs_StatusCode resp = 200 \<or> rs_StatusCode resp = 404 \<and> ss' = ss) \<and>
    (\<exists>target. only_for target ss ss')"
  using assms unfolding handleProxyAPI_def Let_def
  by (auto split: if_splits option.splits sum.splits simp flip: response.simps)


text \<open>(C17) A request to \<open>a.proxi\<close> is answered by the proxy itself and reaches no server: no connection
  is opened or used.  The answer has a body that is as long as it says and the status 200, or
  404, and then nothing has changed but the time the client was seen; and it changes the rules
  and controllers of one address at most.\<close>

theorem api_request:
  assumes "fst (SplitHostAndPort (url_Host (rq_URL req))) = ''a.proxi''"
    and "on_request ae req client server w = Some (Ret ((req', resp), server', w'))"
  shows "req' = Some req \<and> server' = server \<and> w_net w' = w_net w \<and>
    (let ss = store_used (fst (SplitHostAndPort (rq_RemoteAddr req))) (w_time w) (w_sessions w)
     in (\<exists>r. resp = Some r \<and> measured r \<and>
           (rs_StatusCode r = 200 \<or> rs_StatusCode r = 404 \<and> w_sessions w' = ss)) \<and>
        (\<exists>target. only_for target ss (w_sessions w')))"
proof -
  let ?ss = "store_used (fst (SplitHostAndPort (rq_RemoteAddr req))) (w_time w) (w_sessions w)"
  have eq: "on_request ae req client server w = (case handleProxyAPI ae req ?ss of
      None \<Rightarrow> None | Some (Panic m) \<Rightarrow> Some (Panic m)
    | Some (Ret (resp, ss)) \<Rightarrow> Some (Ret ((Some req, Some resp), server, w\<lparr>w_sessions := ss\<rparr>)))"
    using assms(1) by (simp add: on_request_def Let_def)
  with assms(2) obtain r ss where h: "handleProxyAPI ae req ?ss = Some (Ret (r, ss))"
    by (cases "handleProxyAPI ae req ?ss") (auto split: outcome.splits)
  have "on_request ae req client server w = Some (Ret ((Some req, Some r), server, w\<lparr>w_sessions := ss\<rparr>))"
    unfolding eq h by simp
  with assms(2) handleProxyAPI_sound [OF h] show ?thesis by auto
qed

text \<open>(C18) Rules that are set are the rules in force: a configuration that \<open>Compile\<close> accepts becomes,
  as compiled, the rules of the address it names (or of the client that sent it), its old
  controllers are dropped, no other address is affected, and clearing leaves no rules.\<close>

theorem set_rules_effective:
  assumes "url_Path (rq_URL req) = ''/api/rules/set''" and "rq_Body req = Some b"
    and "reads_as (fst b) bs EOF" and "\<And>i. 0 < ae_sizes ae i"
    and "ae_unmarshal ae bs = Inr config" and "Compile (ae_compile ae) config = Inr rules"
  shows "\<exists>resp ss'. handleProxyAPI ae req ss = Some (Ret (resp, ss')) \<and> rs_StatusCode resp = 200 \<and>
    (let target = (case cf_IP config of None \<Rightarrow> fst (SplitHostAndPort (rq_RemoteAddr req)) | Some ip \<Rightarrow> ip)
     in only_for target ss ss' \<and> rules_of target ss' = rules \<and> ss_throttledConnections ss' target = None \<and>
        rules_of target (clear_rules target ss') = [])"
  using ReadAll_body [where sizes = "ae_sizes ae", OF assms(3,4)] assms(1,2,5,6)
  by (simp add: handleProxyAPI_def Let_def split: option.split)

lemma sint_word64: "sint (x :: 64 word) = (if uint x < 2 ^ 63 then uint x else uint x - 2 ^ 64)"
proof -
  have b: "0 \<le> uint x" "uint x < 2 ^ 64" using uint_ge_0 [of x] uint_lt2p [of x] by simp_all
  have "bit (uint x) 63 \<longleftrightarrow> 2 ^ 63 \<le> uint x"
  proof -
    have "uint x div 2 ^ 63 = (if uint x < 2 ^ 63 then 0 else 1)"
      using b by (simp add: div_pos_pos_trivial div_pos_geq)
    then show ?thesis by (simp add: bit_iff_odd)
  qed
  moreover have "sint x = signed_take_bit 63 (uint x)" by (simp add: sint_uint)
  ultimately show ?thesis
    using b by (simp add: signed_take_bit_eq_take_bit_minus take_bit_int_eq_self)
qed

text \<open>The delay of a response is the configured number of microseconds as long as it fits into a
  signed 64-bit number of nanoseconds; a larger number wraps, and for half of them there is no
  delay at all.\<close>

theorem delay_time_wraps:
  "delay_time d = (let x = uint d * 1000 mod 2 ^ 64 in if x < 2 ^ 63 then x else 0)"
proof (cases "d = 0")
  case False
  have u: "uint (d * 1000) = uint d * 1000 mod 2 ^ 64" by (simp add: uint_word_arith_bintrs(3) take_bit_eq_mod)
  note s = sint_word64 [of "d * 1000"]
  with False s u show ?thesis
    using uint_lt2p [of "d * 1000"] by (auto simp: delay_time_def Let_def)
qed (simp add: delay_time_def)

subsection \<open>A failed exchange\<close>

lemma on_request_failed:
  assumes "fst (SplitHostAndPort (url_Host (rq_URL req))) \<noteq> ''a.proxi''"
    and "ip = fst (SplitHostAndPort (rq_RemoteAddr req))"
    and "request_entries ae ip (w_time w) (ae_urlString ae (rq_URL req)) (rules_of ip (w_sessions w)) req
      (store_used ip (w_time w) (w_sessions w)) = Ret (Some req1, ss1)"
    and "round_trip (ae_dec ae) (ae_remote ae) server (Some (req1\<lparr>rq_Host := url_Host (rq_URL req1)\<rparr>))
      (w\<lparr>w_sessions := ss1\<rparr>) = Some (Ret ((None, err), req2, server1, w1))"
  shows "on_request ae req client server w = Some (Ret ((req2, None), server1, w1))"
  using assms(1,3,4) unfolding on_request_def assms(2) by (simp add: Let_def)

text \<open>(C37) When the exchange with the server yields no response, whatever the reason, the function given to
  \<open>OnRequest\<close> hands the request back without one, and the loop of the proxy sends it a second time
  itself: what the client is answered is then what this second exchange gives, as the server sent
  it, although rules for the response may match; if it fails as well there is no answer.  (In the
  model a request keeps its body; the body of a request that has been written once is used up.)\<close>

theorem failed_exchange_repeated:
  assumes "px_Modify (lc_px st) = Some (on_request ae)" and "w = lc_world st"
    and "fst (SplitHostAndPort (url_Host (rq_URL req))) \<noteq> ''a.proxi''"
    and "ip = fst (SplitHostAndPort (rq_RemoteAddr req))"
    and "request_entries ae ip (w_time w) (ae_urlString ae (rq_URL req)) (rules_of ip (w_sessions w)) req
      (store_used ip (w_time w) (w_sessions w)) = Ret (Some req1, ss1)"
    and "round_trip (ae_dec ae) (ae_remote ae) (lc_server st) (Some (req1\<lparr>rq_Host := url_Host (rq_URL req1)\<rparr>))
      (w\<lparr>w_sessions := ss1\<rparr>) = Some (Ret ((None, err), Some req2, server1, w1))"
  shows "respond ou st req =
    (case round_trip (ou_dec ou) (ou_remote ou) server1 (Some req2) w1 of
       None \<Rightarrow> None
     | Some (Panic m) \<Rightarrow> Some (Panic m)
     | Some (Ret ((resp, err'), req3, server2, w2)) \<Rightarrow>
         Some (Ret (resp, st\<lparr>lc_server := server2, lc_world := w2\<rparr>)))"
  using assms(1) on_request_failed [OF assms(3-6), of "lc_client st"]
  by (simp add: respond_def Let_def assms(2) split: option.split outcome.split)

end
