(* ===== verification/ApiRules.thy ===== *)
theory ApiRules
  imports Api ProxySafety
begin

text \<open>
  What the rules of a client do to a message as a whole: the body that arrives at the other end,
  and when a set of rules crashes the proxy.  Last, an example of a proxy with rules.
\<close>

subsection \<open>The body of a response\<close>

definition body_rules :: "string \<Rightarrow> Entry list \<Rightarrow> Rule list" where
  "body_rules originalURL entries =
     concat (map (\<lambda>entry. ty_Body (wh_Response (en_Rewrite entry))) (filter (matches originalURL) entries))"

text \<open>A body that reads as some bytes ended by an error, and closes at least some resources.\<close>

definition body_is :: "rbody option \<Rightarrow> bytes \<Rightarrow> goerr \<Rightarrow> res list \<Rightarrow> bool" where
  "body_is body bs x rs \<longleftrightarrow>
     (\<exists>b ts. body = Some b \<and> reads_as (fst b) bs x \<and> closes (snd b) = map RThrottle ts @ rs)"

lemma throttle_body_is:
  assumes "body_is (Some b) bs x rs" and "throttle_body ip key speed now (b, ss) = (b', ss')"
  shows "body_is (Some b') bs x rs"
proof (cases speed)
  case None
  with assms show ?thesis by (simp add: throttle_body_def)
next
  case (Some rate)
  obtain i s where "find_controller ip key rate now ss = (i, s)" by fastforce
  with assms Some have b': "b' = (fst b, CloseBoth (CloseOf (RThrottle i)) (snd b))"
    by (simp add: throttle_body_def)
  from assms(1) obtain ts where "reads_as (fst b) bs x" "closes (snd b) = map RThrottle ts @ rs"
    by (auto simp: body_is_def)
  then show ?thesis
    unfolding body_is_def b' by (intro exI [of _ "(fst b, CloseBoth (CloseOf (RThrottle i)) (snd b))"]
        exI [of _ "i # ts"]) simp
qed

definition last_error :: "Rule list \<Rightarrow> goerr \<Rightarrow> goerr" where
  "last_error rules x = (if \<exists>rule \<in> set rules. replaces_body rule then EOF else x)"

lemma last_error_append: "last_error (rules @ rules') x = last_error rules' (last_error rules x)"
  by (auto simp: last_error_def)

lemma last_error_Nil [simp]: "last_error [] x = x"
  by (simp add: last_error_def)

lemma alter_message_body_is:
  assumes "body_is body bs x rs" and "\<forall>rule \<in> set rules. streamable rule"
  shows "\<exists>body' ss'. alter_message_body rules ip key speed now body ss = Ret (body', ss') \<and>
    body_is body' (foldl applyRule bs rules) (last_error rules x) rs"
proof (cases "rules = [] \<and> speed = None")
  case True
  with assms(1) show ?thesis by (simp add: alter_message_body_def)
next
  case False
  from assms(1) obtain b ts where b: "body = Some b" "reads_as (fst b) bs x" "closes (snd b) = map RThrottle ts @ rs"
    by (auto simp: body_is_def)
  have "0 < regexBufferSize" by (simp add: regexBufferSize_def)
  from AlterBody_reads [OF b(2) this assms(2)] obtain ob where
    ob: "AlterBody b regexBufferSize rules = Ret (ob, snd b)"
    "reads_as ob (foldl applyRule bs rules) (last_error rules x)"
    by (auto simp: last_error_def)
  obtain b' ss' where t: "throttle_body ip key speed now ((ob, snd b), ss) = (b', ss')" by fastforce
  have "body_is (Some (ob, snd b)) (foldl applyRule bs rules) (last_error rules x) rs"
    using ob(2) b(3) by (auto simp: body_is_def)
  from throttle_body_is [OF this t] False b(1) ob(1) t show ?thesis
    by (auto simp: alter_message_body_def)
qed

lemma AlterStatus_keeps [simp]:
  "rs_Body (AlterStatus resp rules) = rs_Body resp"
  "rs_ContentLength (AlterStatus resp rules) = rs_ContentLength resp"
  "rs_Close (AlterStatus resp rules) = rs_Close resp"
  by (simp_all add: AlterStatus_def Let_def split: option.split)

lemma response_head_keeps [simp]:
  "rs_Body (fst (response_head ae entry (resp, d))) = rs_Body resp"
  "rs_ContentLength (fst (response_head ae entry (resp, d))) =
     (if ty_Body (wh_Response (en_Rewrite entry)) \<noteq> [] then - 1 else rs_ContentLength resp)"
  by (simp_all add: response_head_def Let_def)

lemma response_entry_body:
  "response_entry ae ip now rx entry (resp, d) ss =
     bind_outcome
       (alter_message_body (ty_Body (wh_Response (en_Rewrite entry))) ip (rx_expr rx) (en_DownloadSpeed entry) now
          (rs_Body resp) ss)
       (\<lambda>(body, ss). Ret (((fst (response_head ae entry (resp, d)))\<lparr>rs_Body := body\<rparr>,
          snd (response_head ae entry (resp, d))), ss))"
proof -
  obtain r t where "response_head ae entry (resp, d) = (r, t)" by fastforce
  moreover from this have "rs_Body r = rs_Body resp" by (metis response_head_keeps(1) fst_conv)
  ultimately show ?thesis by (simp add: response_entry_def)
qed

lemma response_entry_is:
  assumes "body_is (rs_Body resp) bs x rs" and "\<forall>rule \<in> set (ty_Body (wh_Response (en_Rewrite entry))). streamable rule"
  shows "\<exists>resp' d' ss'. response_entry ae ip now rx entry (resp, d) ss = Ret ((resp', d'), ss') \<and>
    body_is (rs_Body resp') (foldl applyRule bs (ty_Body (wh_Response (en_Rewrite entry))))
      (last_error (ty_Body (wh_Response (en_Rewrite entry))) x) rs \<and>
    rs_ContentLength resp' = (if ty_Body (wh_Response (en_Rewrite entry)) \<noteq> [] then - 1 else rs_ContentLength resp)"
proof -
  from alter_message_body_is [OF assms, of ip "rx_expr rx" "en_DownloadSpeed entry" now ss]
  obtain body' ss' where a: "alter_message_body (ty_Body (wh_Response (en_Rewrite entry))) ip (rx_expr rx)
      (en_DownloadSpeed entry) now (rs_Body resp) ss = Ret (body', ss')"
    "body_is body' (foldl applyRule bs (ty_Body (wh_Response (en_Rewrite entry))))
      (last_error (ty_Body (wh_Response (en_Rewrite entry))) x) rs" by blast
  then show ?thesis by (auto simp: response_entry_body)
qed

lemma response_entries_is:
  assumes "\<forall>entry \<in> set entries. en_URL entry \<noteq> None"
    and "\<forall>rule \<in> set (body_rules url entries). streamable rule" and "body_is (rs_Body resp) bs x rs"
  shows "\<exists>resp' d' ss'. response_entries ae ip now url entries (resp, d) ss = Ret ((resp', d'), ss') \<and>
    body_is (rs_Body resp') (foldl applyRule bs (body_rules url entries)) (last_error (body_rules url entries) x) rs \<and>
    rs_ContentLength resp' = (if body_rules url entries \<noteq> [] then - 1 else rs_ContentLength resp)"
  using assms
proof (induction entries arbitrary: resp d ss bs x)
  case (Cons entry entries)
  from Cons.prems(1) obtain rx where rx: "en_URL entry = Some rx" by auto
  show ?case
  proof (cases "MatchString rx url")
    case False
    then have "body_rules url (entry # entries) = body_rules url entries"
      by (simp add: body_rules_def matches_def rx)
    with Cons.IH [of resp bs x] Cons.prems False rx show ?thesis by simp
  next
    case True
    let ?rules = "ty_Body (wh_Response (en_Rewrite entry))"
    have br: "body_rules url (entry # entries) = ?rules @ body_rules url entries"
      using True by (simp add: body_rules_def matches_def rx)
    have "\<forall>rule \<in> set ?rules. streamable rule" using Cons.prems(2) by (auto simp: br)
    from response_entry_is [OF Cons.prems(3) this] obtain resp1 d1 ss1 where
      e: "response_entry ae ip now rx entry (resp, d) ss = Ret ((resp1, d1), ss1)"
      "body_is (rs_Body resp1) (foldl applyRule bs ?rules) (last_error ?rules x) rs"
      "rs_ContentLength resp1 = (if ?rules \<noteq> [] then - 1 else rs_ContentLength resp)" by blast
    have "\<forall>entry \<in> set entries. en_URL entry \<noteq> None" "\<forall>rule \<in> set (body_rules url entries). streamable rule"
      using Cons.prems(1,2) by (auto simp: br)
    from Cons.IH [OF this e(2), of d1 ss1] obtain resp' d' ss' where
      "response_entries ae ip now url entries (resp1, d1) ss1 = Ret ((resp', d'), ss')"
      "body_is (rs_Body resp') (foldl applyRule (foldl applyRule bs ?rules) (body_rules url entries))
        (last_error (body_rules url entries) (last_error ?rules x)) rs"
      "rs_ContentLength resp' = (if body_rules url entries \<noteq> [] then - 1 else rs_ContentLength resp1)" by blast
    with e(1,3) True rx show ?thesis by (simp add: br last_error_append)
  qed
qed (simp add: body_rules_def)


lemma finish_response_body:
  "rs_Body resp = Some b \<Longrightarrow> rs_Body (finish_response close resp) = Some b"
  "rs_ContentLength (finish_response close resp) = rs_ContentLength resp"
  by (simp_all add: finish_response_def Let_def)

text \<open>Framing a response keeps its body and its closers, unless the response says that its body is empty:
  then it is sent without one.\<close>

lemma framed_body:
  assumes "body_is (rs_Body resp) bs x rs"
  shows "let out = client_frame (finish_response close resp)
    in delimited (rs_ContentLength out) (rs_TransferEncoding out) (rs_Close out) \<and>
       (if rs_ContentLength resp = 0 then rs_Body out = None \<and> rs_ContentLength out = 0
        else \<exists>ob c. rs_Body out = Some (ob, c) \<and> set rs \<subseteq> set (closes c) \<and> reads_as ob bs x)"
proof (cases "rs_ContentLength resp = 0")
  case True
  then show ?thesis
    using client_frame_delimited [of "finish_response close resp"]
    by (simp add: Let_def) (simp add: client_frame_def client_measure_def finish_response_body Let_def)
next
  case False
  from assms obtain b ts where b: "rs_Body resp = Some b" "reads_as (fst b) bs x"
    "closes (snd b) = map RThrottle ts @ rs" by (auto simp: body_is_def)
  let ?f = "finish_response close resp"
  have "rs_ContentLength (client_strip ?f) \<noteq> 0" "rs_Body (client_strip ?f) = Some b"
    using False b(1) by (simp_all add: finish_response_body)
  then obtain b' where "rs_Body (client_measure (client_strip ?f)) = Some b'" "snd b' = snd b" "reads_as (fst b') bs x"
    using client_measure_body [of "client_strip ?f", OF _ _ b(2)] by blast
  then obtain ob where "rs_Body (client_frame ?f) = Some (ob, snd b)" "reads_as ob bs x"
    by (cases b') (simp add: client_frame_def)
  moreover have "set rs \<subseteq> set (closes (snd b))" using b(3) by simp
  ultimately show ?thesis using client_frame_delimited [of ?f] False unfolding Let_def by auto
qed

text \<open>(C3) What the client receives when all body rules of the entries that match can be streamed
  (\<open>streamable\<close>: they replace the whole body, prepend to it, or search and replace in a way that never
  makes the text longer and does not depend on where the text is cut; rules outside this class do
  other things, as \<open>RegexStream\<close> shows): the server's body after these rules, in their order, as if
  they had been applied to the body as one string, however it arrives; with an end the client can
  see, and a closer that closes what the server's body had to close.  A response that says that it
  is empty, and that no body rule matches, is sent without a body.\<close>

theorem rewritten_response_delivered:
  assumes "\<forall>entry \<in> set entries. en_URL entry \<noteq> None"
    and "\<forall>rule \<in> set (body_rules url entries). streamable rule"
    and "rs_Body resp = Some (rdr_of src_read s, c)" and "\<not> src_closed s"
  shows "\<exists>resp' d' ss'. response_entries ae ip now url entries (resp, d) ss = Ret ((resp', d'), ss') \<and>
    (let out = client_frame (finish_response close resp')
     in delimited (rs_ContentLength out) (rs_TransferEncoding out) (rs_Close out) \<and>
        (if rs_ContentLength resp = 0 \<and> body_rules url entries = []
         then rs_Body out = None \<and> rs_ContentLength out = 0
         else \<exists>ob c'. rs_Body out = Some (ob, c') \<and> set (closes c) \<subseteq> set (closes c') \<and>
           reads_as ob (foldl applyRule (src_rest s) (body_rules url entries))
             (last_error (body_rules url entries) (src_fin s))))"
proof -
  have "reads_as (rdr_of src_read s) (src_rest s) (src_fin s)"
    using src.rdr_of_reads_as assms(4) by (simp add: src_ok_def)
  then have "body_is (rs_Body resp) (src_rest s) (src_fin s) (closes c)"
    using assms(3) unfolding body_is_def
    by (intro exI [of _ "(rdr_of src_read s, c)"] exI [of _ "[]"]) simp
  from response_entries_is [OF assms(1,2) this, of ae ip now d ss] obtain resp' d' ss' where
    e: "response_entries ae ip now url entries (resp, d) ss = Ret ((resp', d'), ss')"
    "body_is (rs_Body resp') (foldl applyRule (src_rest s) (body_rules url entries))
      (last_error (body_rules url entries) (src_fin s)) (closes c)"
    "rs_ContentLength resp' = (if body_rules url entries \<noteq> [] then - 1 else rs_ContentLength resp)" by blast
  have "rs_ContentLength resp' = 0 \<longleftrightarrow> rs_ContentLength resp = 0 \<and> body_rules url entries = []" using e(3) by simp
  with framed_body [OF e(2), of close] e(1) show ?thesis unfolding Let_def by auto
qed

definition sample_entry :: Entry where
  "sample_entry =
     \<lparr>en_URL = Some (class_regexp ''h'' (\<lambda>d. d = CHR ''h'')), en_UploadSpeed = None, en_DownloadSpeed = Some 8000,
      en_ResponseDelay = Some 250,
      en_Rewrite =
        \<lparr>wh_Request = \<lparr>ty_URL = [], ty_Header = [], ty_Body = [], ty_Status = []\<rparr>,
         wh_Response = \<lparr>ty_URL = [], ty_Header = [], ty_Body = [empty_rule\<lparr>rule_Prepend := Some ''>>''\<rparr>], ty_Status = []\<rparr>\<rparr>\<rparr>"

lemma sample_matches: "matches ''http://a'' sample_entry"
  by (simp add: matches_def sample_entry_def MatchString_def class_find upt_rec)

lemma sample_body_rules: "body_rules ''http://a'' [sample_entry] = [empty_rule\<lparr>rule_Prepend := Some ''>>''\<rparr>]"
  using sample_matches by (simp add: body_rules_def) (simp add: sample_entry_def)

theorem rewritten_response_delivered_witness:
  "\<forall>ae ip now. \<exists>resp' d' ss' ob c'. response_entries ae ip now ''http://a'' [sample_entry]
      (zero_response\<lparr>rs_Body := Some (rdr_of src_read \<lparr>src_events = [(''abc'', Some EOF)], src_closed = False\<rparr>,
         CloseOf RBody)\<rparr>, 0) no_sessions = Ret ((resp', d'), ss') \<and>
    rs_Body (client_frame (finish_response False resp')) = Some (ob, c') \<and> reads_as ob ''>>abc'' EOF"
proof (intro allI)
  fix ae ip now
  let ?s = "\<lparr>src_events = [(''abc'', Some EOF)], src_closed = False\<rparr>"
  let ?resp = "zero_response\<lparr>rs_Body := Some (rdr_of src_read ?s, CloseOf RBody)\<rparr>"
  have "streamable (empty_rule\<lparr>rule_Prepend := Some ''>>''\<rparr>)"
    by (simp add: streamable_def wf_rule_def empty_rule_def)
  then have r: "\<forall>rule \<in> set (body_rules ''http://a'' [sample_entry]). streamable rule"
    by (simp add: sample_body_rules)
  have u: "\<forall>entry \<in> set [sample_entry]. en_URL entry \<noteq> None" by (simp add: sample_entry_def)
  have b: "rs_Body ?resp = Some (rdr_of src_read ?s, CloseOf RBody)" by simp
  have f: "foldl applyRule (src_rest ?s) (body_rules ''http://a'' [sample_entry]) = ''>>abc''"
    "last_error (body_rules ''http://a'' [sample_entry]) (src_fin ?s) = EOF"
    by (simp_all add: sample_body_rules applyRule_def empty_rule_def src_rest_def src_fin_def last_error_def
        replaces_body_def)
  from rewritten_response_delivered [OF u r b, of ae ip now 0 no_sessions False]
  show "\<exists>resp' d' ss' ob c'. response_entries ae ip now ''http://a'' [sample_entry] (?resp, 0) no_sessions =
      Ret ((resp', d'), ss') \<and>
    rs_Body (client_frame (finish_response False resp')) = Some (ob, c') \<and> reads_as ob ''>>abc'' EOF"
    unfolding f Let_def by (simp add: sample_body_rules) blast
qed


subsection \<open>Rules that crash the proxy\<close>

definition appends :: "Rule list \<Rightarrow> bool" where
  "appends rules \<longleftrightarrow> (\<exists>rule \<in> set rules. rule_Append rule \<noteq> None)"

lemma alter_message_body_panics:
  assumes "\<forall>rule \<in> set rules. wf_rule rule" and "body \<noteq> None"
  shows "(\<exists>m. alter_message_body rules ip key speed now body ss = Panic m) \<longleftrightarrow> appends rules"
    and "alter_message_body rules ip key speed now body ss = Ret (body', ss') \<Longrightarrow> body' \<noteq> None"
proof -
  from assms(2) obtain b where b: "body = Some b" by auto
  have p: "(\<exists>m. AlterBody b regexBufferSize rules = Panic m) \<longleftrightarrow> appends rules"
    unfolding AlterBody_panics appends_def by (rule applyStreamRules_panics [OF assms(1)])
  show "(\<exists>m. alter_message_body rules ip key speed now body ss = Panic m) \<longleftrightarrow> appends rules"
  proof (cases "rules = [] \<and> speed = None")
    case True
    then show ?thesis by (simp add: alter_message_body_def appends_def)
  next
    case False
    with p show ?thesis
      by (cases "AlterBody b regexBufferSize rules")
         (auto simp: alter_message_body_def b split: prod.splits)
  qed
  assume ret: "alter_message_body rules ip key speed now body ss = Ret (body', ss')"
  show "body' \<noteq> None"
  proof (cases "rules = [] \<and> speed = None")
    case True
    with ret b show ?thesis by (auto simp: alter_message_body_def)
  next
    case False
    with ret b obtain y where y: "AlterBody b regexBufferSize rules = Ret y"
      by (cases "AlterBody b regexBufferSize rules") (auto simp: alter_message_body_def)
    obtain b2 s2 where "throttle_body ip key speed now (y, ss) = (b2, s2)" by fastforce
    with ret b y False show ?thesis by (auto simp: alter_message_body_def)
  qed
qed

definition entry_ready :: "Entry \<Rightarrow> bool" where
  "entry_ready entry \<longleftrightarrow> en_URL entry \<noteq> None \<and>
     (\<forall>rule \<in> set (ty_Body (wh_Request (en_Rewrite entry))). wf_rule rule) \<and>
     (\<forall>rule \<in> set (ty_Body (wh_Response (en_Rewrite entry))). wf_rule rule)"

lemma response_entry_panics:
  assumes "entry_ready entry" and "rs_Body resp \<noteq> None"
  shows "(\<exists>m. response_entry ae ip now rx entry (resp, d) ss = Panic m) \<longleftrightarrow>
      appends (ty_Body (wh_Response (en_Rewrite entry)))"
    and "response_entry ae ip now rx entry (resp, d) ss = Ret ((resp', d'), ss') \<Longrightarrow> rs_Body resp' \<noteq> None"
proof -
  have wf: "\<forall>rule \<in> set (ty_Body (wh_Response (en_Rewrite entry))). wf_rule rule"
    using assms(1) by (simp add: entry_ready_def)
  note a = alter_message_body_panics [OF wf assms(2), of ip "rx_expr rx" "en_DownloadSpeed entry" now ss]
  let ?a = "alter_message_body (ty_Body (wh_Response (en_Rewrite entry))) ip (rx_expr rx) (en_DownloadSpeed entry) now
      (rs_Body resp) ss"
  show "(\<exists>m. response_entry ae ip now rx entry (resp, d) ss = Panic m) \<longleftrightarrow>
      appends (ty_Body (wh_Response (en_Rewrite entry)))"
    unfolding a(1) [symmetric] by (cases ?a) (auto simp: response_entry_body split: prod.splits)
  show "response_entry ae ip now rx entry (resp, d) ss = Ret ((resp', d'), ss') \<Longrightarrow> rs_Body resp' \<noteq> None"
    using a(2) by (auto simp: response_entry_body bind_outcome_Ret_iff)
qed

lemma response_entries_panics:
  assumes "\<forall>entry \<in> set entries. entry_ready entry" and "rs_Body resp \<noteq> None"
  shows "(\<exists>m. response_entries ae ip now url entries (resp, d) ss = Panic m) \<longleftrightarrow>
    (\<exists>entry \<in> set entries. matches url entry \<and> appends (ty_Body (wh_Response (en_Rewrite entry))))"
  using assms
proof (induction entries arbitrary: resp d ss)
  case (Cons entry entries)
  then obtain rx where rx: "en_URL entry = Some rx" by (auto simp: entry_ready_def)
  have ready: "entry_ready entry" using Cons.prems(1) by simp
  show ?case
  proof (cases "MatchString rx url")
    case False
    with Cons rx show ?thesis by (simp add: matches_def)
  next
    case True
    note p = response_entry_panics [OF ready Cons.prems(2), of ae ip now rx d ss]
    show ?thesis
    proof (cases "response_entry ae ip now rx entry (resp, d) ss")
      case (Panic m)
      with p(1) True rx show ?thesis by (auto simp: matches_def)
    next
      case (Ret y)
      obtain resp' d' ss' where y: "y = ((resp', d'), ss')" by (cases y) auto
      from p(2) [of resp' d' ss'] Ret y have "rs_Body resp' \<noteq> None" by simp
      from Cons.IH [OF _ this, of d' ss'] Cons.prems(1) p(1) Ret y True rx show ?thesis
        by (auto simp: matches_def)
    qed
  qed
qed simp

text \<open>(C14) Putting a set of rules that the API has accepted on a response (the loop of \<open>main.go\<close> that wraps
  the body, before any of it is read) crashes the proxy exactly when an entry that matches has an
  \<open>append\<close> rule for response bodies; no other rule, pattern, speed or delay does.  What happens later,
  when the body is read, is not part of this: there a rule that makes the text longer can crash too
  (\<open>regexReader_lengthening_panics\<close>).\<close>

theorem compiled_rules_crash:
  assumes "Compile rxc config = Inr entries" and "compiles rxc ''.*''" and "rs_Body resp \<noteq> None"
  shows "(\<exists>m. response_entries ae ip now url entries (resp, d) ss = Panic m) \<longleftrightarrow>
    (\<exists>(ej, entry) \<in> set (zip (cf_Rules config) entries).
       matches url entry \<and> (\<exists>j \<in> set (tj_Body (snd (entry_types ej))). rj_Append j \<noteq> None))"
proof -
  have means: "list_all2 (entry_means rxc) (cf_Rules config) entries"
    using assms(1) by (simp add: Compile_def compileEntries_iff)
  have wf: "\<forall>rule \<in> set rules. wf_rule rule" if "list_all2 (rule_means rxc) js rules" for js rules
    using that by (auto simp: list_all2_conv_all_nth rule_means_def in_set_conv_nth)
  have app: "appends rules \<longleftrightarrow> (\<exists>j \<in> set js. rj_Append j \<noteq> None)" if "list_all2 (rule_means rxc) js rules" for js rules
    using that unfolding appends_def by (induction rule: list_all2_induct) (auto simp: rule_means_def)
  have ready: "entry_ready e" if "entry_means rxc ej e" for ej e
    using that assms(2) wf
    by (auto simp: entry_ready_def entry_means_def types_mean_def compiles_def split: option.splits sum.splits)
  have iff: "appends (ty_Body (wh_Response (en_Rewrite e))) \<longleftrightarrow>
      (\<exists>j \<in> set (tj_Body (snd (entry_types ej))). rj_Append j \<noteq> None)" if "entry_means rxc ej e" for ej e
    using that by (intro app) (simp add: entry_means_def types_mean_def)
  have "\<forall>entry \<in> set entries. entry_ready entry"
    using means ready by (induction rule: list_all2_induct) auto
  from response_entries_panics [OF this assms(3)]
  have "(\<exists>m. response_entries ae ip now url entries (resp, d) ss = Panic m) \<longleftrightarrow>
      (\<exists>entry \<in> set entries. matches url entry \<and> appends (ty_Body (wh_Response (en_Rewrite entry))))" .
  also have "\<dots> \<longleftrightarrow> (\<exists>(ej, entry) \<in> set (zip (cf_Rules config) entries).
       matches url entry \<and> (\<exists>j \<in> set (tj_Body (snd (entry_types ej))). rj_Append j \<noteq> None))"
    using means by (induction rule: list_all2_induct) (auto simp: iff)
  finally show ?thesis .
qed


subsection \<open>An example\<close>

definition sample_json :: EntryJSON where
  "sample_json =
     \<lparr>ej_URL = Some ''h'', ej_UploadSpeed = None, ej_DownloadSpeed = None, ej_ResponseDelay = None,
      ej_Rewrite = Some \<lparr>wj_Request = None, wj_Response = Some (no_types\<lparr>tj_Body := [append_json ''!'']\<rparr>)\<rparr>\<rparr>"

definition sample_api :: api where
  "sample_api =
     \<lparr>ae_unmarshal = (\<lambda>bs. Inr \<lparr>cf_IP = Some bs, cf_Rules = [sample_json]\<rparr>),
      ae_compile = (\<lambda>p. Inr (class_regexp p (\<lambda>_. True))),
      ae_urlString = (\<lambda>u. url_Scheme u @ ''://'' @ url_Host u),
      ae_urlParse = (\<lambda>s. Inr (sample_url s)), ae_walk = (\<lambda>hdr. []), ae_sizes = (\<lambda>_. 512),
      ae_caBytes = ''cert'', ae_dec = sample_dec, ae_remote = (\<lambda>_. ''10.0.0.1:80'')\<rparr>"

lemma sample_world_sessions [simp]: "w_sessions sample_world = no_sessions" "rules_of ip no_sessions = []"
  by (simp_all add: sample_world_def no_sessions_def rules_of_def)

lemma sample_get_url: "rq_URL sample_get = sample_url ''a''"
  by (simp add: sample_get_def)

lemma sample_host: "fst (SplitHostAndPort (url_Host (sample_url ''a''))) = ''a''"
  by (simp add: sample_url_def SplitHostAndPort_def)

definition sample_caller :: "handle ClientConnProps" where
  "sample_caller = accept_client sample_proxy 1 0"

definition sample_server :: ServerConnProps where
  "sample_server = new_server 30"

theorem on_request_unmatched_witness:
  "on_request sample_api sample_get sample_caller sample_server sample_world =
    (case round_trip sample_dec (\<lambda>_. ''10.0.0.1:80'') sample_server (Some (sample_get\<lparr>rq_Host := ''a''\<rparr>))
        (sample_world\<lparr>w_sessions := store_used (fst (SplitHostAndPort (rq_RemoteAddr sample_get))) 0 no_sessions\<rparr>) of
       None \<Rightarrow> None
     | Some (Panic m) \<Rightarrow> Some (Panic m)
     | Some (Ret ((resp, err), req', server', w')) \<Rightarrow> Some (Ret ((req', resp), server', w')))"
proof -
  have "fst (SplitHostAndPort (url_Host (rq_URL sample_get))) \<noteq> ''a.proxi''"
    by (simp add: sample_get_url sample_host)
  from on_request_unmatched [OF this, of sample_world sample_api sample_caller sample_server]
  have "on_request sample_api sample_get sample_caller sample_server sample_world =
    (case round_trip (ae_dec sample_api) (ae_remote sample_api) sample_server
        (Some (sample_get\<lparr>rq_Host := url_Host (rq_URL sample_get)\<rparr>))
        (sample_world\<lparr>w_sessions := store_used (fst (SplitHostAndPort (rq_RemoteAddr sample_get)))
           (w_time sample_world) no_sessions\<rparr>) of
       None \<Rightarrow> None
     | Some (Panic m) \<Rightarrow> Some (Panic m)
     | Some (Ret ((resp, err), req', server', w')) \<Rightarrow> Some (Ret ((req', resp), server', w')))"
    by simp
  moreover have "ae_dec sample_api = sample_dec" "ae_remote sample_api = (\<lambda>_. ''10.0.0.1:80'')"
    "url_Host (rq_URL sample_get) = ''a''" "w_time sample_world = 0"
    by (simp_all add: sample_api_def sample_get_url sample_url_def sample_world_def)
  ultimately show ?thesis by simp
qed

definition sample_ca :: "rbody request" where
  "sample_ca = sample_get\<lparr>rq_URL := (sample_url ''a.proxi:443'')\<lparr>url_Path := ''/ca.pem''\<rparr>\<rparr>"

lemma sample_ca_host: "fst (SplitHostAndPort (url_Host (rq_URL sample_ca))) = ''a.proxi''"
  by (simp add: sample_ca_def sample_url_def SplitHostAndPort_def numeral_eq_Suc)

theorem api_request_witness:
  "\<exists>r w'. on_request sample_api sample_ca sample_caller sample_server sample_world = Some (Ret ((Some sample_ca, Some r), sample_server, w')) \<and>
    measured r \<and> w_net w' = sample_net"
proof -
  have "url_Path (rq_URL sample_ca) = ''/ca.pem''" by (simp add: sample_ca_def)
  then obtain r w' where o: "on_request sample_api sample_ca sample_caller sample_server sample_world =
      Some (Ret ((Some sample_ca, Some r), sample_server, w'))"
    using sample_ca_host by (simp add: on_request_def Let_def handleProxyAPI_def)
  from api_request [OF sample_ca_host o] o show ?thesis by (auto simp: Let_def sample_world_def)
qed

definition sample_set :: "rbody request" where
  "sample_set = sample_get
     \<lparr>rq_URL := (sample_url ''a.proxi:443'')\<lparr>url_Path := ''/api/rules/set''\<rparr>,
      rq_Body := Some (rdr_of src_read \<lparr>src_events = [(''10.0.0.7'', Some EOF)], src_closed = False\<rparr>, NopClose)\<rparr>"

theorem set_rules_effective_witness:
  "\<exists>resp ss' rules. handleProxyAPI sample_api sample_set no_sessions = Some (Ret (resp, ss')) \<and>
    Compile (ae_compile sample_api) \<lparr>cf_IP = Some ''10.0.0.7'', cf_Rules = [sample_json]\<rparr> = Inr rules \<and>
    rules \<noteq> [] \<and> rules_of ''10.0.0.7'' ss' = rules"
proof -
  let ?b = "(rdr_of src_read \<lparr>src_events = [(''10.0.0.7'', Some EOF)], src_closed = False\<rparr>, NopClose :: res closer)"
  let ?config = "\<lparr>cf_IP = Some ''10.0.0.7'', cf_Rules = [sample_json]\<rparr>"
  have "reads_as (fst ?b) ''10.0.0.7'' EOF"
    using src.rdr_of_reads_as [of "\<lparr>src_events = [(''10.0.0.7'', Some EOF)], src_closed = False\<rparr>"]
    by (simp add: src_ok_def src_rest_def src_fin_def)
  moreover obtain rules where r: "Compile (ae_compile sample_api) ?config = Inr rules" "rules \<noteq> []"
    by (simp add: Compile_def sample_api_def compileEntry_def sample_json_def no_types_def compileTypes_def
        append_json_def compileRule_def Let_def)
  moreover have "ae_unmarshal sample_api ''10.0.0.7'' = Inr ?config" "\<And>i. 0 < ae_sizes sample_api i"
    by (simp_all add: sample_api_def)
  moreover have "url_Path (rq_URL sample_set) = ''/api/rules/set''" "rq_Body sample_set = Some ?b"
    by (simp_all add: sample_set_def)
  ultimately show ?thesis
    using set_rules_effective [of sample_set ?b "''10.0.0.7''" sample_api ?config rules no_sessions]
    by (auto simp: Let_def)
qed


theorem compiled_rules_crash_witness:
  "\<exists>entries m. Compile (ae_compile sample_api) \<lparr>cf_IP = None, cf_Rules = [sample_json]\<rparr> = Inr entries \<and>
    response_entries sample_api ''10.0.0.9'' 7 ''http://a'' entries (sample_resp, 0) no_sessions = Panic m"
proof -
  let ?config = "\<lparr>cf_IP = None, cf_Rules = [sample_json]\<rparr>"
  obtain entry where e: "Compile (ae_compile sample_api) ?config = Inr [entry]"
    "en_URL entry = Some (class_regexp ''h'' (\<lambda>_. True))"
    by (simp add: Compile_def sample_api_def compileEntry_def sample_json_def no_types_def compileTypes_def
        append_json_def compileRule_def Let_def)
  have "compiles (ae_compile sample_api) ''.*''" by (simp add: compiles_def sample_api_def)
  moreover have "rs_Body sample_resp \<noteq> None" by (simp add: sample_resp_def)
  moreover have "matches ''http://a'' entry"
    by (simp add: matches_def e(2) MatchString_def class_find upt_rec)
  moreover have "\<exists>j \<in> set (tj_Body (snd (entry_types sample_json))). rj_Append j \<noteq> None"
    by (simp add: entry_types_def sample_json_def append_json_def)
  ultimately show ?thesis
    using compiled_rules_crash [OF e(1), of sample_resp sample_api "''10.0.0.9''" 7 "''http://a''" 0 no_sessions] e(1)
    by auto
qed

text \<open>A network without any server: every exchange fails.\<close>

lemma no_server_open:
  assumes "nt_dials nt = []" and "conns_of server = []" and "0 \<le> sc_MaxConns server"
  shows "\<exists>e server' nt'. sc_Open server req nt = (Some e, server', nt') \<and> nt_dials nt' = [] \<and>
    conns_of server' = [] \<and> 0 \<le> sc_MaxConns server'"
proof -
  have "conns_of (make_conns server) = []" "sc_MaxConns (make_conns server) = sc_MaxConns server"
    using assms(2) by (auto simp: make_conns_def conns_of_def)
  with assms show ?thesis
    by (auto simp: sc_Open_def make_room_def createConn_def dial_def Let_def)
qed

lemma no_server_RoundTrip:
  assumes "nt_dials nt = []" and "conns_of server = []" and "0 \<le> sc_MaxConns server"
  shows "\<exists>err r' server' nt'. sc_RoundTrip dec remote s1 s2 server (Some r) nt =
    Some (Ret ((None, err), Some r', server', nt'))"
proof -
  from no_server_open [OF assms, of "request_frame r"] obtain e server1 nt1 where
    o: "sc_Open server (request_frame r) nt = (Some e, server1, nt1)" "nt_dials nt1 = []" "conns_of server1 = []"
    "0 \<le> sc_MaxConns server1" by blast
  from no_server_open [OF o(2-4), of "request_frame r"] obtain e2 server2 nt2 where
    o2: "sc_Open server1 (request_frame r) nt1 = (Some e2, server2, nt2)" by blast
  from o(1) o2 show ?thesis by (simp add: sc_RoundTrip_def tryRoundTrip_def Let_def)
qed

definition sample_offline :: "octets lc" where
  "sample_offline =
     \<lparr>lc_px = sample_proxy\<lparr>px_Modify := Some (on_request sample_api)\<rparr>, lc_client = accept_client sample_proxy 1 0,
      lc_server = new_server 30, lc_world = sample_world\<lparr>w_net := sample_net\<lparr>nt_dials := []\<rparr>\<rparr>\<rparr>"

theorem failed_exchange_repeated_witness:
  "\<exists>req2 server1 w1. respond sample_outside sample_offline sample_get =
    (case round_trip sample_dec (\<lambda>_. ''10.0.0.1:80'') server1 (Some req2) w1 of
       None \<Rightarrow> None
     | Some (Panic m) \<Rightarrow> Some (Panic m)
     | Some (Ret ((resp, err), req3, server2, w2)) \<Rightarrow>
         Some (Ret (resp, sample_offline\<lparr>lc_server := server2, lc_world := w2\<rparr>)))"
proof -
  let ?w = "lc_world sample_offline" and ?server = "lc_server sample_offline"
  have w: "nt_dials (w_net ?w) = []" "conns_of ?server = []" "0 \<le> sc_MaxConns ?server" "w_sessions ?w = no_sessions"
    "w_scheds ?w = []"
    by (simp_all add: sample_offline_def new_server_def sample_world_def)
  let ?ip = "fst (SplitHostAndPort (rq_RemoteAddr sample_get))"
  let ?ss = "store_used ?ip (w_time ?w) (w_sessions ?w)"
  let ?req = "sample_get\<lparr>rq_Host := url_Host (rq_URL sample_get)\<rparr>"
  obtain err req2 server1 w1 where rt: "round_trip (ae_dec sample_api) (ae_remote sample_api) ?server (Some ?req)
      (?w\<lparr>w_sessions := ?ss\<rparr>) = Some (Ret ((None, err), Some req2, server1, w1))"
    using no_server_RoundTrip [OF w(1-3), of "ae_dec sample_api" "ae_remote sample_api" "[]" "[]" ?req] w(5)
    by (auto simp: round_trip_def)
  have "request_entries sample_api ?ip (w_time ?w) (ae_urlString sample_api (rq_URL sample_get))
      (rules_of ?ip (w_sessions ?w)) sample_get ?ss = Ret (Some sample_get, ?ss)"
    by (simp add: w(4))
  moreover have "px_Modify (lc_px sample_offline) = Some (on_request sample_api)" by (simp add: sample_offline_def)
  moreover have "fst (SplitHostAndPort (url_Host (rq_URL sample_get))) \<noteq> ''a.proxi''"
    by (simp add: sample_get_url sample_host)
  ultimately have "respond sample_outside sample_offline sample_get =
    (case round_trip (ou_dec sample_outside) (ou_remote sample_outside) server1 (Some req2) w1 of
       None \<Rightarrow> None
     | Some (Panic m) \<Rightarrow> Some (Panic m)
     | Some (Ret ((resp, err), req3, server2, w2)) \<Rightarrow>
         Some (Ret (resp, sample_offline\<lparr>lc_server := server2, lc_world := w2\<rparr>)))"
    using failed_exchange_repeated [OF _ refl _ refl _ rt, where ou = sample_outside] by blast
  then show ?thesis by (auto simp: sample_outside_def)
qed

end
