(* ===== verification/RequestLog.thy ===== *)
theory RequestLog
  imports HttpMsg "HOL-Library.Char_ord" "HOL-Library.List_Lexorder"
begin

text \<open>
  \<open>requestLogger.go\<close>: the log of the exchanges of a client, a JSON array in one file per address,
  and the lock that guards it.

  A file of the operating system is its bytes; an open one (\<open>*os.File\<close>, nil when it could not be
  opened) is its path and the offset of the next read or write.  Whether a directory can be made
  and a path can be opened is part of the state of the file system; an opened file can be written.
  A mutex that is held is a flag: a function that has to wait for it has no result (\<open>None\<close>).
  The body of the goroutine of \<open>logRequest\<close> holds the lock from its second statement to its
  end, so it is one step.  \<open>json.Marshal\<close>, \<open>json.Indent\<close> and \<open>URL.String\<close> are arguments.
\<close>

subsection \<open>Files\<close>

record file_system =
  fs_files :: "string \<Rightarrow> bytes option"
  fs_dirs :: "string \<Rightarrow> bool"
  fs_mayMake :: "string \<Rightarrow> bool"
  fs_mayOpen :: "string \<Rightarrow> bool"

type_synonym os_file = "(string \<times> nat) option"

definition invalid_argument :: goerr where
  "invalid_argument = Err ''invalid argument''"

definition file_Read :: "nat \<Rightarrow> os_file \<Rightarrow> file_system \<Rightarrow> bytes \<times> goerr option \<times> os_file" where
  "file_Read n f fs =
     (case f of
        None \<Rightarrow> ([], Some invalid_argument, f)
      | Some (path, off) \<Rightarrow>
          (let bs = take n (drop off (case fs_files fs path of None \<Rightarrow> [] | Some c \<Rightarrow> c))
           in (bs, if bs = [] \<and> 0 < n then Some EOF else None, Some (path, off + length bs))))"

definition file_Write :: "bytes \<Rightarrow> os_file \<Rightarrow> file_system \<Rightarrow> os_file \<times> file_system" where
  "file_Write bs f fs =
     (case f of
        None \<Rightarrow> (f, fs)
      | Some (path, off) \<Rightarrow>
          (let c = (case fs_files fs path of None \<Rightarrow> [] | Some c \<Rightarrow> c)
           in (Some (path, off + length bs),
               fs\<lparr>fs_files := (fs_files fs)(path \<mapsto> take off c @ replicate (off - length c) (CHR 0x00) @ bs @
                                 drop (off + length bs) c)\<rparr>)))"

text \<open>An offset before the start of the file is refused and leaves the file where it is.\<close>

definition file_Seek :: "int \<Rightarrow> nat \<Rightarrow> os_file \<Rightarrow> file_system \<Rightarrow> os_file" where
  "file_Seek offset whence f fs =
     (case f of
        None \<Rightarrow> f
      | Some (path, off) \<Rightarrow>
          (let base = (if whence = 0 then 0 else if whence = 1 then int off
                       else int (length (case fs_files fs path of None \<Rightarrow> [] | Some c \<Rightarrow> c)));
               to = base + offset
           in if to < 0 then f else Some (path, nat to)))"

definition file_Close :: "os_file \<Rightarrow> goerr option" where
  "file_Close f = (if f = None then Some invalid_argument else None)"

definition path_dir :: "string \<Rightarrow> string" where
  "path_dir path = (if CHR ''/'' \<in> set path then rev (drop 1 (dropWhile (\<lambda>c. c \<noteq> CHR ''/'') (rev path)))
                    else ''.'')"

definition getRequestLogFile :: "string \<Rightarrow> file_system \<Rightarrow> os_file \<times> file_system" where
  "getRequestLogFile path fs =
     (let dir = path_dir path;
          fs = (if \<not> fs_dirs fs dir \<and> fs_mayMake fs dir then fs\<lparr>fs_dirs := (fs_dirs fs)(dir := True)\<rparr> else fs)
      in if fs_dirs fs dir \<and> fs_mayOpen fs path then
           (Some (path, 0), if fs_files fs path = None then fs\<lparr>fs_files := (fs_files fs)(path \<mapsto> [])\<rparr> else fs)
         else (None, fs))"

definition log_path :: "string \<Rightarrow> string" where
  "log_path ip = ''logs/'' @ ip @ ''.log''"

subsection \<open>The lock and the switch of every address\<close>

record loggingProperties =
  lp_locked :: bool
  lp_recording :: bool

record logger =
  lg_logProps :: "string \<Rightarrow> loggingProperties option"
  lg_fs :: file_system

type_synonym 'a action = "'a outcome option"

fun and_then :: "'a action \<Rightarrow> ('a \<Rightarrow> 'b action) \<Rightarrow> 'b action" where
  "and_then None f = None"
| "and_then (Some (Panic m)) f = Some (Panic m)"
| "and_then (Some (Ret x)) f = f x"

definition ensure_props :: "string \<Rightarrow> logger \<Rightarrow> logger" where
  "ensure_props ip s =
     (if lg_logProps s ip = None
      then s\<lparr>lg_logProps := (lg_logProps s)(ip \<mapsto> \<lparr>lp_locked = False, lp_recording = False\<rparr>)\<rparr> else s)"

definition change_props :: "string \<Rightarrow> (loggingProperties \<Rightarrow> loggingProperties) \<Rightarrow> logger \<Rightarrow> logger outcome" where
  "change_props ip f s =
     (case lg_logProps s ip of
        None \<Rightarrow> Panic ''nil pointer dereference''
      | Some p \<Rightarrow> Ret (s\<lparr>lg_logProps := (lg_logProps s)(ip \<mapsto> f p)\<rparr>))"

definition lock :: "string \<Rightarrow> logger \<Rightarrow> logger action" where
  "lock ip s =
     (case lg_logProps s ip of
        None \<Rightarrow> Some (Panic ''nil pointer dereference'')
      | Some p \<Rightarrow> if lp_locked p then None else Some (change_props ip (lp_locked_update (\<lambda>_. True)) s))"

definition unlock :: "string \<Rightarrow> logger \<Rightarrow> logger outcome" where
  "unlock ip s =
     (case lg_logProps s ip of
        None \<Rightarrow> Panic ''nil pointer dereference''
      | Some p \<Rightarrow> if lp_locked p then change_props ip (lp_locked_update (\<lambda>_. False)) s
                 else Panic ''sync: unlock of unlocked mutex'')"

definition startLogging :: "string \<Rightarrow> logger \<Rightarrow> logger action" where
  "startLogging ip s =
     and_then (lock ip (ensure_props ip s))
       (\<lambda>s. and_then (Some (change_props ip (lp_recording_update (\<lambda>_. True)) s))
       (\<lambda>s. Some (unlock ip s)))"

definition stopLogging :: "string \<Rightarrow> logger \<Rightarrow> logger action" where
  "stopLogging ip s =
     and_then (lock ip (ensure_props ip s))
       (\<lambda>s. and_then (Some (change_props ip (lp_recording_update (\<lambda>_. False)) s))
       (\<lambda>s. Some (unlock ip s)))"

definition clearLogs :: "string \<Rightarrow> logger \<Rightarrow> logger action" where
  "clearLogs ip s =
     and_then (lock ip (ensure_props ip s))
       (\<lambda>s. let fs = lg_fs s;
                s = s\<lparr>lg_fs := fs\<lparr>fs_files := (fs_files fs)(log_path ip := None)\<rparr>\<rparr>
            in Some (unlock ip s))"

subsection \<open>Reading the log\<close>

text \<open>The log is handed out as a body that keeps the lock until it is closed.  \<open>readCloser\<close> is an
  interface: holding a nil \<open>*os.File\<close> it is not nil itself, so the test for nil in \<open>getLogs\<close> never
  succeeds and the body reads from the nil file.\<close>

record logResponseBody =
  lrc_ip :: string
  lrc_readCloser :: os_file

definition getLogs :: "string \<Rightarrow> logger \<Rightarrow> (logResponseBody \<times> logger) action" where
  "getLogs ip s =
     and_then (lock ip (ensure_props ip s))
       (\<lambda>s. let (fl, fs) = getRequestLogFile (log_path ip) (lg_fs s)
            in Some (Ret (\<lparr>lrc_ip = ip, lrc_readCloser = fl\<rparr>, s\<lparr>lg_fs := fs\<rparr>)))"

definition lrc_Read :: "nat \<Rightarrow> logResponseBody \<Rightarrow> logger \<Rightarrow> bytes \<times> goerr option \<times> logResponseBody" where
  "lrc_Read n lrc s =
     (let (bs, err, fl) = file_Read n (lrc_readCloser lrc) (lg_fs s)
      in (bs, err, lrc\<lparr>lrc_readCloser := fl\<rparr>))"

definition lrc_Close :: "logResponseBody \<Rightarrow> logger \<Rightarrow> (goerr option \<times> logger) outcome" where
  "lrc_Close lrc s =
     (let err = file_Close (lrc_readCloser lrc)
      in bind_outcome (unlock (lrc_ip lrc) s) (\<lambda>s. Ret (err, s)))"

subsection \<open>Writing an entry\<close>

record requestLog =
  rql_URL :: string
  rql_Headers :: string
  rql_Body :: string

record responseLog =
  rsl_Status :: string
  rsl_Headers :: string
  rsl_Body :: string

record roundTripLog =
  rtl_Req :: requestLog
  rtl_Resp :: responseLog

text \<open>\<open>Header.Write\<close>: the fields by name, line breaks in a value become spaces, and the value is trimmed.\<close>

definition wire_value :: "string \<Rightarrow> string" where
  "wire_value v =
     (let v = map (\<lambda>c. if c = CHR 0x0A \<or> c = CHR 0x0D then CHR '' '' else c) v;
          blank = (\<lambda>c. c = CHR '' '' \<or> c = CHR 0x09)
      in rev (dropWhile blank (rev (dropWhile blank v))))"

definition log_headerToString :: "string list \<Rightarrow> header \<Rightarrow> string" where
  "log_headerToString ks h =
     concat (map (\<lambda>k. concat (map (\<lambda>v. k @ '': '' @ wire_value v @ [CHR 0x0D, CHR 0x0A])
       (case h k of None \<Rightarrow> [] | Some vs \<Rightarrow> vs))) (sort ks))"

record json =
  js_marshal :: "roundTripLog \<Rightarrow> goerr + bytes"
  js_indent :: "bytes \<Rightarrow> goerr + bytes"
  js_urlString :: "url \<Rightarrow> string"
  js_walk :: "header \<Rightarrow> string list"

definition formatJSON :: "json \<Rightarrow> bytes \<Rightarrow> goerr + bytes" where
  "formatJSON js b = js_indent js b"

text \<open>What \<open>json.Compact\<close> has written comes back also when it fails; nothing calls this.\<close>

definition compactJSON :: "(bytes \<Rightarrow> bytes \<times> goerr option) \<Rightarrow> bytes \<Rightarrow> bytes \<times> goerr option" where
  "compactJSON compact b = (let (out, err) = compact b in (out, err))"

definition entry_of :: "json \<Rightarrow> 'b request \<Rightarrow> 'c response \<Rightarrow> roundTripLog" where
  "entry_of js req resp =
     \<lparr>rtl_Req = \<lparr>rql_URL = js_urlString js (rq_URL req),
        rql_Headers = log_headerToString (js_walk js (rq_Header req)) (rq_Header req),
        rql_Body = ''not supported yet''\<rparr>,
      rtl_Resp = \<lparr>rsl_Status = rs_Status resp,
        rsl_Headers = log_headerToString (js_walk js (rs_Header resp)) (rs_Header resp),
        rsl_Body = ''not supported yet''\<rparr>\<rparr>"

text \<open>The file is opened at the start of the array, made one when it is none, and the entry goes
  over its last byte.\<close>

definition open_array :: "os_file \<Rightarrow> file_system \<Rightarrow> os_file \<times> file_system" where
  "open_array fl fs =
     (let (bs, err, fl) = file_Read 1 fl fs;
          token = (if bs = [] then CHR 0x00 else bs ! 0);
          (fl, fs) = (if err \<noteq> None \<or> length bs \<noteq> 1 \<or> token \<noteq> CHR ''['' then
                          let (fl, fs) = file_Write ''[]'' fl fs in (file_Seek 1 0 fl fs, fs)
                        else (fl, fs));
          fl = file_Seek (- 2) 2 fl fs;
          (bs, err, fl) = file_Read 1 fl fs;
          token = (if bs = [] then token else bs ! 0)
      in if err = None \<and> length bs = 1 \<and> token = CHR ''}'' then file_Write '','' fl fs else (fl, fs))"

definition write_entry :: "json \<Rightarrow> roundTripLog \<Rightarrow> os_file \<Rightarrow> file_system \<Rightarrow> file_system" where
  "write_entry js log fl fs =
     (let (fl, fs) = open_array fl fs
      in case js_marshal js log of
           Inl err \<Rightarrow> fs
         | Inr bs \<Rightarrow>
             (case formatJSON js bs of
                Inl err \<Rightarrow> fs
              | Inr bs \<Rightarrow>
                  let (fl, fs) = file_Write bs fl fs;
                      (fl, fs) = file_Write '']'' fl fs
                  in fs))"

definition recording :: "string \<Rightarrow> logger \<Rightarrow> bool" where
  "recording ip s = (case lg_logProps s ip of None \<Rightarrow> False | Some p \<Rightarrow> lp_recording p)"

definition logRequest :: "json \<Rightarrow> string \<Rightarrow> 'b request \<Rightarrow> 'c response \<Rightarrow> logger \<Rightarrow> logger action" where
  "logRequest js ip req resp s =
     and_then (lock ip (ensure_props ip s))
       (\<lambda>s. if \<not> recording ip s then Some (unlock ip s)
            else let (fl, fs) = getRequestLogFile (log_path ip) (lg_fs s);
                     fs = write_entry js (entry_of js req resp) fl fs
                 in Some (unlock ip (s\<lparr>lg_fs := fs\<rparr>)))"

subsection \<open>The log of an address as a list of entries\<close>

text \<open>What a log file is meant to hold: nothing, or the entries as one JSON array.\<close>

definition log_text :: "string list \<Rightarrow> bytes" where
  "log_text es = CHR ''['' # join_on (CHR '','') es @ '']''"

definition log_content :: "string list \<Rightarrow> bytes" where
  "log_content es = (if es = [] then [] else log_text es)"

definition object_text :: "string \<Rightarrow> bool" where
  "object_text t \<longleftrightarrow> t \<noteq> [] \<and> last t = CHR ''}''"

lemma join_on_ends:
  "es \<noteq> [] \<Longrightarrow> list_all object_text es \<Longrightarrow>
     join_on c es \<noteq> [] \<and> last (join_on c es) = CHR ''}''"
  by (induction c es rule: join_on.induct) (auto simp: object_text_def)

lemma join_on_snoc: "es \<noteq> [] \<Longrightarrow> join_on c (es @ [t]) = join_on c es @ c # t"
  by (induction c es rule: join_on.induct) (auto simp: neq_Nil_conv)

lemma file_Write_end:
  assumes "fs_files fs path = Some c" and "off \<le> length c" and "length c \<le> off + length bs"
  shows "file_Write bs (Some (path, off)) fs =
    (Some (path, off + length bs), fs\<lparr>fs_files := (fs_files fs)(path \<mapsto> take off c @ bs)\<rparr>)"
  using assms by (simp add: file_Write_def Let_def)

lemma files_twice [simp]:
  "fs\<lparr>fs_files := m\<rparr>\<lparr>fs_files := m'\<rparr> = fs\<lparr>fs_files := m'\<rparr>"
  by simp

lemma open_array_empty:
  assumes "fs_files fs path = Some []"
  shows "open_array (Some (path, 0)) fs = (Some (path, 1), fs\<lparr>fs_files := (fs_files fs)(path \<mapsto> ''[]'')\<rparr>)"
  using assms by (simp add: open_array_def file_Read_def file_Write_def file_Seek_def Let_def)

lemma open_array_entries:
  assumes "fs_files fs path = Some (CHR ''['' # body @ '']'')" and "body \<noteq> []" and "last body = CHR ''}''"
  shows "open_array (Some (path, 0)) fs =
    (Some (path, length body + 2), fs\<lparr>fs_files := (fs_files fs)(path \<mapsto> CHR ''['' # body @ '','')\<rparr>)"
proof -
  obtain b where body: "body = b @ ''}''"
    using assms(2,3) by (metis append_butlast_last_id)
  show ?thesis
    using assms(1) by (simp add: open_array_def file_Read_def file_Write_def file_Seek_def Let_def body nat_add_distrib)
qed

text \<open>Writing an entry into the file of a log makes it the file of the log with that entry at its end.\<close>

lemma write_entry_appends:
  assumes "fs_files fs path = Some (log_content es)" and "list_all object_text es"
    and "js_marshal js log = Inr b" and "formatJSON js b = Inr t" and "object_text t"
  shows "write_entry js log (Some (path, 0)) fs =
    fs\<lparr>fs_files := (fs_files fs)(path \<mapsto> log_text (es @ [t]))\<rparr>"
proof (cases "es = []")
  case True
  have t: "Suc 0 \<le> length t"
    using assms(5) by (cases t) (auto simp: object_text_def)
  from True assms(1) have "fs_files fs path = Some []"
    by (simp add: log_content_def)
  then show ?thesis
    using assms(3,4) t True
    by (simp add: write_entry_def open_array_empty file_Write_end log_text_def)
next
  case False
  let ?j = "join_on (CHR '','') es"
  note ends = join_on_ends [OF False assms(2), of "CHR '',''"]
  from False assms(1) have "fs_files fs path = Some (CHR ''['' # ?j @ '']'')"
    by (simp add: log_content_def log_text_def)
  then show ?thesis
    using assms(3,4) ends False
    by (simp add: write_entry_def open_array_entries file_Write_end log_text_def join_on_snoc)
qed

subsection \<open>One operation at a time\<close>

definition free :: "string \<Rightarrow> logger \<Rightarrow> bool" where
  "free ip s \<longleftrightarrow> (case lg_logProps s ip of None \<Rightarrow> True | Some p \<Rightarrow> \<not> lp_locked p)"

definition put_props :: "string \<Rightarrow> bool \<Rightarrow> bool \<Rightarrow> logger \<Rightarrow> logger" where
  "put_props ip locked on s =
     s\<lparr>lg_logProps := (lg_logProps s)(ip \<mapsto> \<lparr>lp_locked = locked, lp_recording = on\<rparr>)\<rparr>"

lemma set_locked: "lp_locked_update (\<lambda>_. b) p = \<lparr>lp_locked = b, lp_recording = lp_recording p\<rparr>"
  by (cases p) simp

lemma lock_free: "free ip s \<Longrightarrow> lock ip (ensure_props ip s) = Some (Ret (put_props ip True (recording ip s) s))"
  by (auto simp: free_def lock_def ensure_props_def change_props_def put_props_def recording_def set_locked
      split: option.splits)

lemma lock_held: "\<not> free ip s \<Longrightarrow> lock ip (ensure_props ip s) = None"
  by (auto simp: free_def lock_def ensure_props_def split: option.splits)

lemma put_props_twice [simp]: "put_props ip l on (put_props ip l' on' s) = put_props ip l on s"
  by (simp add: put_props_def)

lemma put_props_fields [simp]:
  "lg_fs (put_props ip l on s) = lg_fs s"
  "recording ip' (put_props ip l on s) = (if ip' = ip then on else recording ip' s)"
  "free ip' (put_props ip l on s) \<longleftrightarrow> (if ip' = ip then \<not> l else free ip' s)"
  "put_props ip l on s\<lparr>lg_fs := fs\<rparr> = put_props ip l on (s\<lparr>lg_fs := fs\<rparr>)"
  by (auto simp: put_props_def recording_def free_def)

lemma fs_fields [simp]:
  "recording ip (s\<lparr>lg_fs := fs\<rparr>) = recording ip s"
  "free ip (s\<lparr>lg_fs := fs\<rparr>) = free ip s"
  by (auto simp: recording_def free_def)

lemma change_recording:
  "change_props ip (lp_recording_update (\<lambda>_. b)) (put_props ip l on s) = Ret (put_props ip l b s)"
  by (simp add: change_props_def put_props_def)

lemma unlock_held: "unlock ip (put_props ip True on s) = Ret (put_props ip False on s)"
  by (simp add: unlock_def change_props_def put_props_def)

lemma startLogging_free: "free ip s \<Longrightarrow> startLogging ip s = Some (Ret (put_props ip False True s))"
  by (simp add: startLogging_def lock_free change_recording unlock_held)

lemma stopLogging_free: "free ip s \<Longrightarrow> stopLogging ip s = Some (Ret (put_props ip False False s))"
  by (simp add: stopLogging_def lock_free change_recording unlock_held)

definition put_file :: "string \<Rightarrow> bytes option \<Rightarrow> logger \<Rightarrow> logger" where
  "put_file path c s = s\<lparr>lg_fs := (lg_fs s)\<lparr>fs_files := (fs_files (lg_fs s))(path := c)\<rparr>\<rparr>"

lemma clearLogs_free:
  "free ip s \<Longrightarrow> clearLogs ip s = Some (Ret (put_props ip False (recording ip s) (put_file (log_path ip) None s)))"
  by (simp add: clearLogs_def lock_free unlock_held put_file_def Let_def)

text \<open>While a log that was handed out is not closed, every operation for its address waits.\<close>

lemma held_blocks:
  assumes "\<not> free ip s"
  shows "startLogging ip s = None" "stopLogging ip s = None" "clearLogs ip s = None" "getLogs ip s = None"
    "logRequest js ip req resp s = None"
  using assms by (simp_all add: startLogging_def stopLogging_def clearLogs_def getLogs_def logRequest_def lock_held)

lemma getLogs_holds:
  assumes "free ip s" and "getLogs ip s = Some (Ret (lrc, s'))"
  shows "\<not> free ip s' \<and> lrc_ip lrc = ip"
  using assms by (auto simp: getLogs_def lock_free split: prod.splits)

text \<open>Closing the log a second time unlocks a mutex that is not held.\<close>

lemma closed_twice:
  assumes "lrc_Close lrc s = Ret (err, s')"
  shows "lrc_Close lrc s' = Panic ''sync: unlock of unlocked mutex''"
  using assms
  by (auto simp: lrc_Close_def Let_def unlock_def change_props_def split: option.splits if_splits)

text \<open>A log that cannot be opened: the body is meant to be empty, reading it fails.\<close>

lemma unreadable_log:
  assumes "free ip s" and "\<not> fs_mayOpen (lg_fs s) (log_path ip)"
  shows "\<exists>lrc s'. getLogs ip s = Some (Ret (lrc, s')) \<and> lrc_Read n lrc s' = ([], Some invalid_argument, lrc)"
  using assms
  by (simp add: getLogs_def lock_free getRequestLogFile_def Let_def lrc_Read_def file_Read_def)

text \<open>The file system lets the logs be opened; the addresses are those of \<open>RemoteAddr\<close>, without a slash.\<close>

definition plain_ip :: "string \<Rightarrow> bool" where
  "plain_ip ip \<longleftrightarrow> CHR ''/'' \<notin> set ip"

definition may_log :: "file_system \<Rightarrow> bool" where
  "may_log fs \<longleftrightarrow> (fs_dirs fs ''logs'' \<or> fs_mayMake fs ''logs'') \<and> (\<forall>ip. fs_mayOpen fs (log_path ip))"

definition make_logs :: "file_system \<Rightarrow> file_system" where
  "make_logs fs = fs\<lparr>fs_dirs := (fs_dirs fs)(''logs'' := True)\<rparr>"

definition content_at :: "file_system \<Rightarrow> string \<Rightarrow> bytes" where
  "content_at fs path = (case fs_files fs path of None \<Rightarrow> [] | Some c \<Rightarrow> c)"

lemma path_dir_log: "plain_ip ip \<Longrightarrow> path_dir (log_path ip) = ''logs''"
proof -
  assume ip: "plain_ip ip"
  have "\<forall>c \<in> set (rev (ip @ ''.log'')). c \<noteq> CHR ''/''"
    using ip by (auto simp: plain_ip_def)
  then have "dropWhile (\<lambda>c. c \<noteq> CHR ''/'') (rev (ip @ ''.log'') @ ''/sgol'') = ''/sgol''"
    by (simp add: dropWhile_append3)
  then show ?thesis
    by (simp add: path_dir_def log_path_def)
qed

lemma getRequestLogFile_log:
  assumes "may_log fs" and "plain_ip ip"
  shows "getRequestLogFile (log_path ip) fs =
    (Some (log_path ip, 0), (make_logs fs)\<lparr>fs_files := (fs_files fs)(log_path ip \<mapsto> content_at fs (log_path ip))\<rparr>)"
proof -
  have "fs = make_logs fs" if "fs_dirs fs ''logs''"
    using that by (simp add: make_logs_def fun_upd_idem)
  then show ?thesis
    using assms
    by (auto simp: getRequestLogFile_def path_dir_log may_log_def Let_def make_logs_def content_at_def
        fun_upd_idem split: option.splits)
qed

lemma log_path_inj [simp]: "log_path a = log_path b \<longleftrightarrow> a = b"
  by (simp add: log_path_def)

subsection \<open>Sequences of operations\<close>

text \<open>The operations on the logs in the order their locks are taken; \<open>LogGet\<close> fetches a log, reads up
  to \<open>n\<close> bytes of it and closes it.\<close>

datatype ('b, 'c) log_op =
  LogStart string | LogStop string | LogRequest string "'b request" "'c response"
  | LogGet string nat | LogClear string

definition no_output :: "logger action \<Rightarrow> (bytes \<times> logger) action" where
  "no_output a = and_then a (\<lambda>s. Some (Ret ([], s)))"

fun log_op_run :: "json \<Rightarrow> ('b, 'c) log_op \<Rightarrow> logger \<Rightarrow> (bytes \<times> logger) action" where
  "log_op_run js (LogStart ip) s = no_output (startLogging ip s)"
| "log_op_run js (LogStop ip) s = no_output (stopLogging ip s)"
| "log_op_run js (LogRequest ip req resp) s = no_output (logRequest js ip req resp s)"
| "log_op_run js (LogClear ip) s = no_output (clearLogs ip s)"
| "log_op_run js (LogGet ip n) s =
     and_then (getLogs ip s)
       (\<lambda>(lrc, s). let (bs, err, lrc) = lrc_Read n lrc s
                   in and_then (Some (lrc_Close lrc s)) (\<lambda>(err, s). Some (Ret (bs, s))))"

fun log_run :: "json \<Rightarrow> ('b, 'c) log_op list \<Rightarrow> logger \<Rightarrow> (bytes list \<times> logger) action" where
  "log_run js [] s = Some (Ret ([], s))"
| "log_run js (x # xs) s =
     and_then (log_op_run js x s)
       (\<lambda>(bs, s). and_then (log_run js xs s) (\<lambda>(bss, s). Some (Ret (bs # bss, s))))"

text \<open>What they are meant to do: a switch and a list of entries for every address.\<close>

record log_book =
  lb_on :: "string \<Rightarrow> bool"
  lb_entries :: "string \<Rightarrow> string list"

definition entry_text :: "json \<Rightarrow> roundTripLog \<Rightarrow> string" where
  "entry_text js log =
     (case js_marshal js log of
        Inl _ \<Rightarrow> []
      | Inr b \<Rightarrow> (case formatJSON js b of Inl _ \<Rightarrow> [] | Inr t \<Rightarrow> t))"

definition json_ok :: "json \<Rightarrow> bool" where
  "json_ok js \<longleftrightarrow> (\<forall>log. \<exists>b t. js_marshal js log = Inr b \<and> formatJSON js b = Inr t \<and> object_text t)"

fun log_op_spec :: "json \<Rightarrow> ('b, 'c) log_op \<Rightarrow> log_book \<Rightarrow> bytes \<times> log_book" where
  "log_op_spec js (LogStart ip) b = ([], b\<lparr>lb_on := (lb_on b)(ip := True)\<rparr>)"
| "log_op_spec js (LogStop ip) b = ([], b\<lparr>lb_on := (lb_on b)(ip := False)\<rparr>)"
| "log_op_spec js (LogRequest ip req resp) b =
     ([], if lb_on b ip
          then b\<lparr>lb_entries := (lb_entries b)(ip := lb_entries b ip @ [entry_text js (entry_of js req resp)])\<rparr>
          else b)"
| "log_op_spec js (LogClear ip) b = ([], b\<lparr>lb_entries := (lb_entries b)(ip := [])\<rparr>)"
| "log_op_spec js (LogGet ip n) b = (take n (log_content (lb_entries b ip)), b)"

fun log_spec :: "json \<Rightarrow> ('b, 'c) log_op list \<Rightarrow> log_book \<Rightarrow> bytes list \<times> log_book" where
  "log_spec js [] b = ([], b)"
| "log_spec js (x # xs) b =
     (let (bs, b) = log_op_spec js x b; (bss, b) = log_spec js xs b in (bs # bss, b))"

fun op_ip :: "('b, 'c) log_op \<Rightarrow> string" where
  "op_ip (LogStart ip) = ip"
| "op_ip (LogStop ip) = ip"
| "op_ip (LogRequest ip _ _) = ip"
| "op_ip (LogGet ip _) = ip"
| "op_ip (LogClear ip) = ip"

definition books :: "logger \<Rightarrow> log_book \<Rightarrow> bool" where
  "books s b \<longleftrightarrow> may_log (lg_fs s) \<and>
     (\<forall>ip. free ip s \<and> recording ip s = lb_on b ip \<and> list_all object_text (lb_entries b ip) \<and>
           content_at (lg_fs s) (log_path ip) = log_content (lb_entries b ip))"

lemma books_free: "books s b \<Longrightarrow> free ip s" "books s b \<Longrightarrow> recording ip s = lb_on b ip"
  by (auto simp: books_def)

lemma content_at_put:
  "content_at (fs\<lparr>fs_files := (fs_files fs')(path := c)\<rparr>) path' =
     (if path' = path then (case c of None \<Rightarrow> [] | Some t \<Rightarrow> t) else content_at fs' path')"
  by (simp add: content_at_def)

lemma may_log_put [simp]:
  "may_log (fs\<lparr>fs_files := m\<rparr>) \<longleftrightarrow> may_log fs"
  "may_log fs \<Longrightarrow> may_log (make_logs fs)"
  by (auto simp: may_log_def make_logs_def)

lemma make_logs_files [simp]: "fs_files (make_logs fs) = fs_files fs"
  by (simp add: make_logs_def)

lemma write_entry_text:
  assumes "json_ok js" and "fs_files fs path = Some (log_content es)" and "list_all object_text es"
  shows "write_entry js log (Some (path, 0)) fs =
    fs\<lparr>fs_files := (fs_files fs)(path \<mapsto> log_text (es @ [entry_text js log]))\<rparr> \<and> object_text (entry_text js log)"
proof -
  obtain b t where "js_marshal js log = Inr b" "formatJSON js b = Inr t" "object_text t"
    using assms(1) by (meson json_ok_def)
  then show ?thesis
    using write_entry_appends [OF assms(2,3), of js log b t] by (simp add: entry_text_def)
qed

lemma logRequest_books:
  assumes "json_ok js" and "books s b" and "plain_ip ip" and "lb_on b ip"
  shows "logRequest js ip req resp s = Some (Ret (put_props ip False True
    (s\<lparr>lg_fs := (make_logs (lg_fs s))\<lparr>fs_files := (fs_files (lg_fs s))(log_path ip \<mapsto>
        log_text (lb_entries b ip @ [entry_text js (entry_of js req resp)]))\<rparr>\<rparr>)))"
    "object_text (entry_text js (entry_of js req resp))"
proof -
  let ?fs = "(make_logs (lg_fs s))\<lparr>fs_files := (fs_files (lg_fs s))(log_path ip \<mapsto> content_at (lg_fs s) (log_path ip))\<rparr>"
  have "fs_files ?fs (log_path ip) = Some (log_content (lb_entries b ip))" "list_all object_text (lb_entries b ip)"
    using assms(2) by (auto simp: books_def)
  note w = write_entry_text [OF assms(1) this, of "entry_of js req resp"]
  have "may_log (lg_fs s)" using assms(2) by (simp add: books_def)
  note g = getRequestLogFile_log [OF this assms(3)]
  show "logRequest js ip req resp s = Some (Ret (put_props ip False True
    (s\<lparr>lg_fs := (make_logs (lg_fs s))\<lparr>fs_files := (fs_files (lg_fs s))(log_path ip \<mapsto>
        log_text (lb_entries b ip @ [entry_text js (entry_of js req resp)]))\<rparr>\<rparr>)))"
    using assms(4) w
    by (simp add: logRequest_def lock_free books_free [OF assms(2)] g unlock_held)
  show "object_text (entry_text js (entry_of js req resp))"
    using w by simp
qed

lemma log_content_snoc [simp]: "log_content (es @ [t]) = log_text (es @ [t])"
  by (simp add: log_content_def)

text \<open>Every operation does what it is meant to do.\<close>

lemma log_op_refines:
  assumes "json_ok js" and "books s b" and "plain_ip (op_ip x)"
  shows "\<exists>s'. log_op_run js x s = Some (Ret (fst (log_op_spec js x b), s')) \<and> books s' (snd (log_op_spec js x b))"
proof (cases x)
  case (LogStart ip)
  then show ?thesis
    using assms(2) by (simp add: no_output_def startLogging_free books_def)
next
  case (LogStop ip)
  then show ?thesis
    using assms(2) by (simp add: no_output_def stopLogging_free books_def)
next
  case (LogClear ip)
  then show ?thesis
    using assms(2)
    by (simp add: no_output_def clearLogs_free books_def put_file_def content_at_put log_content_def)
next
  case (LogRequest ip req resp)
  show ?thesis
  proof (cases "lb_on b ip")
    case True
    have "plain_ip ip" using assms(3) LogRequest by simp
    note w = logRequest_books [OF assms(1,2) this True, of req resp]
    show ?thesis
      unfolding LogRequest log_op_run.simps w(1)
      using assms(2) True w(2) by (simp add: no_output_def books_def content_at_put)
  next
    case False
    then have off: "\<not> recording ip s"
      by (simp add: books_free [OF assms(2)])
    then have "logRequest js ip req resp s = Some (Ret (put_props ip False False s))"
      by (simp add: logRequest_def lock_free books_free [OF assms(2)] unlock_held)
    moreover have "books (put_props ip False False s) b"
      using assms(2) off unfolding books_def by simp
    ultimately show ?thesis
      using False by (simp add: LogRequest no_output_def)
  qed
next
  case (LogGet ip n)
  let ?fs = "(make_logs (lg_fs s))\<lparr>fs_files := (fs_files (lg_fs s))(log_path ip \<mapsto> content_at (lg_fs s) (log_path ip))\<rparr>"
  have content: "content_at ?fs p = content_at (lg_fs s) p" for p
    by (simp add: content_at_put)
  have may: "may_log (lg_fs s)" and ip: "plain_ip ip"
    using assms LogGet by (simp_all add: books_def)
  have get: "getLogs ip s = Some (Ret (\<lparr>lrc_ip = ip, lrc_readCloser = Some (log_path ip, 0)\<rparr>,
      put_props ip True (lb_on b ip) (s\<lparr>lg_fs := ?fs\<rparr>)))"
    by (simp add: getLogs_def lock_free books_free [OF assms(2)] getRequestLogFile_log [OF may ip])
  have run: "log_op_run js x s = Some (Ret (take n (content_at ?fs (log_path ip)),
      put_props ip False (lb_on b ip) (s\<lparr>lg_fs := ?fs\<rparr>)))"
    unfolding LogGet log_op_run.simps get
    by (simp add: lrc_Read_def file_Read_def lrc_Close_def unlock_held Let_def content_at_def)
  have "books (put_props ip False (lb_on b ip) (s\<lparr>lg_fs := ?fs\<rparr>)) b"
    using assms(2) may unfolding books_def by (simp add: content_at_put)
  moreover have "content_at ?fs (log_path ip) = log_content (lb_entries b ip)"
    using assms(2) unfolding content books_def by blast
  ultimately show ?thesis
    unfolding run by (simp add: LogGet)
qed

lemma log_run_refines:
  assumes "json_ok js" and "books s b" and "list_all (\<lambda>x. plain_ip (op_ip x)) xs"
  shows "\<exists>s'. log_run js xs s = Some (Ret (fst (log_spec js xs b), s')) \<and> books s' (snd (log_spec js xs b))"
  using assms(2,3)
proof (induction xs arbitrary: s b)
  case Nil
  then show ?case by simp
next
  case (Cons x xs)
  then have "plain_ip (op_ip x)" by simp
  from log_op_refines [OF assms(1) Cons.prems(1) this]
  obtain s1 where s1: "log_op_run js x s = Some (Ret (fst (log_op_spec js x b), s1))"
    "books s1 (snd (log_op_spec js x b))" by blast
  from Cons.IH [OF s1(2)] Cons.prems(2)
  obtain s2 where s2: "log_run js xs s1 = Some (Ret (fst (log_spec js xs (snd (log_op_spec js x b))), s2))"
    "books s2 (snd (log_spec js xs (snd (log_op_spec js x b))))" by auto
  show ?case
    using s1 s2 by (simp add: case_prod_beta Let_def)
qed

definition new_logger :: "file_system \<Rightarrow> logger" where
  "new_logger fs = \<lparr>lg_logProps = Map.empty, lg_fs = fs\<rparr>"

definition empty_book :: log_book where
  "empty_book = \<lparr>lb_on = (\<lambda>_. False), lb_entries = (\<lambda>_. [])\<rparr>"

lemma books_new: "may_log fs \<Longrightarrow> \<forall>ip. fs_files fs (log_path ip) = None \<Longrightarrow> books (new_logger fs) empty_book"
  by (simp add: books_def new_logger_def empty_book_def free_def recording_def content_at_def log_content_def)

text \<open>(C38) The request log is the list of the exchanges since it was last cleared: for every sequence of
  starting, stopping, logging, fetching and clearing, by any number of clients, no operation blocks
  or crashes, every fetch delivers the bytes of the JSON array of exactly the exchanges of that
  address that were logged while its recording was on, in order, and so does the file in the end.
\<close>

theorem logs_refine:
  assumes "json_ok js" and "may_log fs" and "\<forall>ip. fs_files fs (log_path ip) = None"
    and "list_all (\<lambda>x. plain_ip (op_ip x)) xs"
  shows "\<exists>s'. log_run js xs (new_logger fs) = Some (Ret (fst (log_spec js xs empty_book), s')) \<and>
    (\<forall>ip. content_at (lg_fs s') (log_path ip) = log_content (lb_entries (snd (log_spec js xs empty_book)) ip))"
  using log_run_refines [OF assms(1) books_new [OF assms(2,3)] assms(4)] by (auto simp: books_def)

definition sample_json :: json where
  "sample_json = \<lparr>js_marshal = (\<lambda>log. Inr (''{'' @ rql_URL (rtl_Req log) @ ''}'')), js_indent = Inr,
     js_urlString = (\<lambda>u. url_Host u @ url_Path u), js_walk = (\<lambda>h. [])\<rparr>"

definition empty_files :: file_system where
  "empty_files = \<lparr>fs_files = (\<lambda>_. None), fs_dirs = (\<lambda>_. False), fs_mayMake = (\<lambda>_. True), fs_mayOpen = (\<lambda>_. True)\<rparr>"

definition sample_url :: "string \<Rightarrow> url" where
  "sample_url host = \<lparr>url_Scheme = ''http'', url_Opaque = [], url_User = None, url_Host = host, url_Path = [],
     url_RawPath = [], url_ForceQuery = False, url_RawQuery = [], url_Fragment = []\<rparr>"

definition get_of :: "string \<Rightarrow> bytes request" where
  "get_of host = \<lparr>rq_Method = ''GET'', rq_URL = sample_url host, rq_Proto = ''HTTP/1.1'', rq_ProtoMajor = 1,
     rq_ProtoMinor = 1, rq_Header = Map.empty, rq_Body = None, rq_ContentLength = 0, rq_TransferEncoding = [],
     rq_Close = False, rq_Host = host, rq_RemoteAddr = ''10.0.0.7:4000'', rq_RequestURI = []\<rparr>"

definition sample_log_ops :: "(bytes, bytes) log_op list" where
  "sample_log_ops =
     [LogRequest ''a'' (get_of ''x'') zero_response, LogStart ''a'',
      LogRequest ''a'' (get_of ''v'') zero_response, LogRequest ''b'' (get_of ''y'') zero_response,
      LogRequest ''a'' (get_of ''w'') zero_response, LogGet ''a'' 100,
      LogClear ''a'', LogRequest ''a'' (get_of ''c'') zero_response, LogGet ''a'' 2]"

lemma sample_json_ok: "json_ok sample_json"
  by (simp add: json_ok_def sample_json_def formatJSON_def object_text_def)

lemma sample_entry: "entry_text sample_json (entry_of sample_json (get_of h) (resp :: bytes response)) = ''{'' @ h @ ''}''"
  by (simp add: entry_text_def entry_of_def sample_json_def formatJSON_def get_of_def sample_url_def)

lemma sample_log_spec:
  "fst (log_spec sample_json sample_log_ops empty_book) =
     [[], [], [], [], [], ''[{v},{w}]'', [], [], ''[{'']"
  by (simp add: sample_log_ops_def empty_book_def sample_entry log_content_def log_text_def)

theorem logs_refine_witness:
  "\<exists>s'. log_run sample_json sample_log_ops (new_logger empty_files) =
     Some (Ret ([[], [], [], [], [], ''[{v},{w}]'', [], [], ''[{''], s'))"
proof -
  have "may_log empty_files" "\<forall>ip. fs_files empty_files (log_path ip) = None"
    by (simp_all add: may_log_def empty_files_def)
  moreover have "list_all (\<lambda>x. plain_ip (op_ip x)) sample_log_ops"
    by (simp add: sample_log_ops_def plain_ip_def)
  ultimately show ?thesis
    using logs_refine [OF sample_json_ok, of empty_files sample_log_ops] unfolding sample_log_spec by blast
qed

end
