(* ===== verification/Startup.thy ===== *)
theory Startup
  imports Api
begin

text \<open>
  The start of the program: \<open>main\<close> of \<open>main.go\<close> up to the three loops it starts, \<open>createPemFiles\<close>
  of \<open>certUtil.go\<close>, the handler of \<open>launchExposedAPI\<close> and \<open>contains\<close> of \<open>helpers.go\<close>.

  The disk is the content of the files, which paths can be opened, and what writing and closing an
  open file returns.  Random numbers, the clock, RSA, X.509 and PEM of the standard library are
  arguments; the command line is parsed as the \<open>flag\<close> package does.  The log lines are left out.
\<close>

subsection \<open>The certificate authority\<close>

record disk =
  dk_files :: "string \<Rightarrow> bytes option"
  dk_mayOpen :: "string \<Rightarrow> bool"
  dk_write :: "string \<Rightarrow> goerr option"
  dk_close :: "string \<Rightarrow> goerr option"

datatype usage = KeyUsageKeyEncipherment | KeyUsageDigitalSignature | KeyUsageCertSign
datatype ext_usage = ExtKeyUsageServerAuth

record ca_template =
  ct_SerialNumber :: int
  ct_Organization :: "string list"
  ct_CommonName :: string
  ct_NotBefore :: int
  ct_NotAfter :: int
  ct_KeyUsage :: "usage list"
  ct_ExtKeyUsage :: "ext_usage list"
  ct_BasicConstraintsValid :: bool
  ct_IsCA :: bool

record ('key, 'cert) pki =
  pk_randInt :: "int \<Rightarrow> goerr + int"
  pk_generateKey :: "nat \<Rightarrow> 'key option"
  pk_now :: int
  pk_addYears :: "int \<Rightarrow> nat \<Rightarrow> int"
  pk_createCertificate :: "ca_template \<Rightarrow> 'key \<Rightarrow> goerr + bytes"
  pk_pem :: "string \<Rightarrow> bytes \<Rightarrow> bytes"
  pk_pkcs1 :: "'key \<Rightarrow> bytes"
  pk_keyPair :: "bytes \<Rightarrow> bytes \<Rightarrow> goerr + 'cert"
  pk_Certificate :: "'cert \<Rightarrow> bytes list"

definition ca_for :: "int \<Rightarrow> int \<Rightarrow> int \<Rightarrow> ca_template" where
  "ca_for serialNumber notBefore notAfter =
     \<lparr>ct_SerialNumber = serialNumber,
      ct_Organization = [''Restful proxy''], ct_CommonName = ''Restful proxy'',
      ct_NotBefore = notBefore, ct_NotAfter = notAfter,
      ct_KeyUsage = [KeyUsageKeyEncipherment, KeyUsageDigitalSignature, KeyUsageCertSign],
      ct_ExtKeyUsage = [ExtKeyUsageServerAuth],
      ct_BasicConstraintsValid = True, ct_IsCA = True\<rparr>"

text \<open>Creating or truncating a file, writing it and closing it.  The error of opening it is ignored,
  but writing to the nil file fails.\<close>

definition write_pem :: "string \<Rightarrow> bytes \<Rightarrow> disk \<Rightarrow> goerr option \<times> disk" where
  "write_pem path bs dk =
     (if \<not> dk_mayOpen dk path then (Some (Err ''invalid argument''), dk)
      else let dk = dk\<lparr>dk_files := (dk_files dk)(path \<mapsto> [])\<rparr>
           in case dk_write dk path of
                Some err \<Rightarrow> (Some err, dk)
              | None \<Rightarrow> (dk_close dk path, dk\<lparr>dk_files := (dk_files dk)(path \<mapsto> bs)\<rparr>))"

definition createPemFiles :: "('key, 'cert) pki \<Rightarrow> disk \<Rightarrow> ((goerr + 'cert) \<times> disk) outcome" where
  "createPemFiles pk dk =
     (case pk_randInt pk (2 ^ 128) of
        Inl err \<Rightarrow> Ret (Inl err, dk)
      | Inr serialNumber \<Rightarrow>
          (case pk_generateKey pk 2048 of
             None \<Rightarrow> Panic nil_deref
           | Some priv \<Rightarrow>
               let ca = ca_for serialNumber (pk_now pk) (pk_addYears pk (pk_now pk) 20)
               in case pk_createCertificate pk ca priv of
                    Inl err \<Rightarrow> Ret (Inl err, dk)
                  | Inr caDerBytes \<Rightarrow>
                      let caPemBytes = pk_pem pk ''CERTIFICATE'' caDerBytes;
                          keyPemBytes = pk_pem pk ''RSA PRIVATE KEY'' (pk_pkcs1 pk priv);
                          (err, dk) = write_pem ''ca.pem'' caPemBytes dk
                      in case err of
                           Some err \<Rightarrow> Ret (Inl err, dk)
                         | None \<Rightarrow>
                             let (err, dk) = write_pem ''key.pem'' keyPemBytes dk
                             in case err of
                                  Some err \<Rightarrow> Ret (Inl err, dk)
                                | None \<Rightarrow> Ret (pk_keyPair pk caPemBytes keyPemBytes, dk)))"

definition read_file :: "string \<Rightarrow> disk \<Rightarrow> bytes option" where
  "read_file path dk = (if dk_mayOpen dk path then dk_files dk path else None)"

text \<open>\<open>tls.LoadX509KeyPair\<close>.\<close>

definition LoadX509KeyPair :: "('key, 'cert) pki \<Rightarrow> string \<Rightarrow> string \<Rightarrow> disk \<Rightarrow> goerr + 'cert" where
  "LoadX509KeyPair pk caPath keyPath dk =
     (case read_file caPath dk of
        None \<Rightarrow> Inl (Err ''open'')
      | Some ca \<Rightarrow>
          (case read_file keyPath dk of
             None \<Rightarrow> Inl (Err ''open'')
           | Some key \<Rightarrow> pk_keyPair pk ca key))"

text \<open>The certificate that signs and the bytes that are served at \<open>/ca.pem\<close>.  When no certificate
  could be made, \<open>cert.Certificate[0]\<close> is evaluated before \<open>cert\<close> is compared to nil.\<close>

definition load_or_create :: "('key, 'cert) pki \<Rightarrow> string \<Rightarrow> string \<Rightarrow> disk \<Rightarrow> (('cert \<times> bytes) \<times> disk) outcome" where
  "load_or_create pk caPath keyPath dk =
     (let caBytes = (case read_file caPath dk of None \<Rightarrow> [] | Some bs \<Rightarrow> bs)
      in case LoadX509KeyPair pk caPath keyPath dk of
           Inr cert \<Rightarrow> Ret ((cert, caBytes), dk)
         | Inl err \<Rightarrow>
             bind_outcome (createPemFiles pk dk)
               (\<lambda>(r, dk). case r of
                  Inl err \<Rightarrow> Panic nil_deref
                | Inr cert \<Rightarrow>
                    (case pk_Certificate pk cert of
                       [] \<Rightarrow> Panic ''index out of range''
                     | caBytes # _ \<Rightarrow> Ret ((cert, caBytes), dk))))"

subsection \<open>The command line\<close>

text \<open>A string flag: its name and the value after an equals sign, which may not come first.\<close>

definition flag_parts :: "string \<Rightarrow> string \<times> string option" where
  "flag_parts name =
     (let front = takeWhile (\<lambda>c. c \<noteq> CHR ''='') (drop 1 name)
      in if length front + 1 < length name then (take 1 name @ front, Some (drop (length front + 2) name))
         else (name, None))"

definition set_flag :: "string \<Rightarrow> string \<Rightarrow> string \<times> string \<Rightarrow> (string \<times> string) option" where
  "set_flag name v paths =
     (if name = ''pem'' then Some (v, snd paths)
      else if name = ''key'' then Some (fst paths, v)
      else None)"

text \<open>\<open>flag.Parse\<close> for the flags \<open>pem\<close> and \<open>key\<close>.  \<open>None\<close>: the usage is printed and the program exits.\<close>

fun parse_flags :: "string list \<Rightarrow> string \<times> string \<Rightarrow> (string \<times> string) option" where
  "parse_flags [] paths = Some paths"
| "parse_flags (s # args) paths =
     (if length s < 2 \<or> s ! 0 \<noteq> CHR ''-'' \<or> s = ''--'' then Some paths
      else let name = (if s ! 1 = CHR ''-'' then drop 2 s else drop 1 s)
           in if name ! 0 = CHR ''-'' \<or> name ! 0 = CHR ''='' then None
              else case flag_parts name of
                     (name, Some v) \<Rightarrow>
                       (case set_flag name v paths of None \<Rightarrow> None | Some paths \<Rightarrow> parse_flags args paths)
                   | (name, None) \<Rightarrow>
                       (case args of
                          [] \<Rightarrow> None
                        | v # args \<Rightarrow>
                            (case set_flag name v paths of None \<Rightarrow> None | Some paths \<Rightarrow> parse_flags args paths)))"

subsection \<open>The start\<close>

record 'cert service =
  sv_Cert :: 'cert
  sv_caBytes :: bytes
  sv_apiAddress :: string
  sv_proxyAddress :: string

datatype 'cert start = Usage | Serving "'cert service" disk

text \<open>\<open>os.Args\<close> keeps the flags: \<open>flag.Parse\<close> does not change it.\<close>

definition arg :: "string list \<Rightarrow> nat \<Rightarrow> string outcome" where
  "arg args i = (if i < length args then Ret (args ! i) else Panic ''index out of range'')"

definition main :: "('key, 'cert) pki \<Rightarrow> string list \<Rightarrow> disk \<Rightarrow> 'cert start outcome" where
  "main pk args dk =
     (case parse_flags (drop 1 args) (''ca.pem'', ''key.pem'') of
        None \<Rightarrow> Ret Usage
      | Some (caPath, keyPath) \<Rightarrow>
          bind_outcome (load_or_create pk caPath keyPath dk)
            (\<lambda>((cert, caBytes), dk).
               bind_outcome (arg args 1)
                 (\<lambda>apiPort. bind_outcome (arg args 2)
                    (\<lambda>proxyPort. Ret (Serving
                        \<lparr>sv_Cert = cert, sv_caBytes = caBytes,
                         sv_apiAddress = '':'' @ apiPort, sv_proxyAddress = '':'' @ proxyPort\<rparr> dk)))))"

subsection \<open>The API on its own port\<close>

text \<open>The handler of \<open>launchExposedAPI\<close>: status, header and body of the answer.  The header of the
  response of \<open>handleProxyAPI\<close> is not copied.  A panic ends this connection only.\<close>

definition exposed_handler ::
  "api \<Rightarrow> rbody request \<Rightarrow> sessions \<Rightarrow> ((int \<times> header \<times> bytes) \<times> sessions) outcome option" where
  "exposed_handler ae req ss =
     (case handleProxyAPI ae req ss of
        None \<Rightarrow> None
      | Some (Panic m) \<Rightarrow> Some (Panic m)
      | Some (Ret (resp, ss)) \<Rightarrow>
          (case rs_Body resp of
             None \<Rightarrow> Some (Panic nil_deref)
           | Some b \<Rightarrow>
               (case ReadAll (ae_sizes ae) (fst b) of
                  None \<Rightarrow> None
                | Some (bs, err) \<Rightarrow> Some (Ret ((rs_StatusCode resp, Map.empty, bs), ss)))))"

fun slice_contains :: "string list \<Rightarrow> string \<Rightarrow> bool" where
  "slice_contains [] element = False"
| "slice_contains (x # xs) element = (if x = element then True else slice_contains xs element)"

lemma slice_contains_helpers: "slice_contains = HostPort.contains"
proof (intro ext)
  show "slice_contains slice element = HostPort.contains slice element" for slice element
    by (induction slice) auto
qed

subsection \<open>What the start does\<close>

lemma write_pem_ok:
  assumes "write_pem path bs dk = (None, dk')"
  shows "dk_mayOpen dk path \<and> dk_close dk path = None \<and>
    dk' = dk\<lparr>dk_files := (dk_files dk)(path \<mapsto> bs)\<rparr>"
  using assms by (auto simp: write_pem_def Let_def split: if_splits option.splits)

text \<open>When the files are made, they hold the certificate and the key that are returned.\<close>

lemma createPemFiles_ok:
  assumes "createPemFiles pk dk = Ret (Inr cert, dk')"
  shows "\<exists>serialNumber priv der.
    pk_createCertificate pk (ca_for serialNumber (pk_now pk) (pk_addYears pk (pk_now pk) 20)) priv = Inr der \<and>
    read_file ''ca.pem'' dk' = Some (pk_pem pk ''CERTIFICATE'' der) \<and>
    read_file ''key.pem'' dk' = Some (pk_pem pk ''RSA PRIVATE KEY'' (pk_pkcs1 pk priv)) \<and>
    pk_keyPair pk (pk_pem pk ''CERTIFICATE'' der) (pk_pem pk ''RSA PRIVATE KEY'' (pk_pkcs1 pk priv)) = Inr cert"
proof -
  obtain serialNumber priv der dk1 where
    cert: "pk_createCertificate pk (ca_for serialNumber (pk_now pk) (pk_addYears pk (pk_now pk) 20)) priv = Inr der"
    and ca: "write_pem ''ca.pem'' (pk_pem pk ''CERTIFICATE'' der) dk = (None, dk1)"
    and key: "write_pem ''key.pem'' (pk_pem pk ''RSA PRIVATE KEY'' (pk_pkcs1 pk priv)) dk1 = (None, dk')"
    and pair: "pk_keyPair pk (pk_pem pk ''CERTIFICATE'' der) (pk_pem pk ''RSA PRIVATE KEY'' (pk_pkcs1 pk priv)) = Inr cert"
    using assms unfolding createPemFiles_def Let_def
    by (auto split: sum.splits option.splits prod.splits)
  have "read_file ''ca.pem'' dk' = Some (pk_pem pk ''CERTIFICATE'' der)"
    "read_file ''key.pem'' dk' = Some (pk_pem pk ''RSA PRIVATE KEY'' (pk_pkcs1 pk priv))"
    using write_pem_ok [OF ca] write_pem_ok [OF key] by (auto simp: read_file_def)
  with cert pair show ?thesis by blast
qed

lemma load_or_create_new:
  assumes "load_or_create pk caPath keyPath dk = Ret ((cert, ca), dk')"
    and "LoadX509KeyPair pk caPath keyPath dk = Inl err"
  shows "createPemFiles pk dk = Ret (Inr cert, dk') \<and> (\<exists>cs. pk_Certificate pk cert = ca # cs)"
  using assms
  by (cases "createPemFiles pk dk") (auto simp: load_or_create_def Let_def split: sum.splits list.splits)

lemma load_or_create_found:
  assumes "LoadX509KeyPair pk caPath keyPath dk = Inr cert" and "read_file caPath dk = Some ca"
  shows "load_or_create pk caPath keyPath dk = Ret ((cert, ca), dk)"
  using assms by (simp add: load_or_create_def)

lemma main_serving:
  assumes "parse_flags (drop 1 args) (''ca.pem'', ''key.pem'') = Some (caPath, keyPath)"
  shows "main pk args dk = Ret (Serving sv dk') \<longleftrightarrow>
    load_or_create pk caPath keyPath dk = Ret ((sv_Cert sv, sv_caBytes sv), dk') \<and>
    2 < length args \<and> sv_apiAddress sv = '':'' @ args ! 1 \<and> sv_proxyAddress sv = '':'' @ args ! 2"
  using assms by (cases sv) (auto simp: main_def bind_outcome_Ret_iff arg_def split: if_splits)

text \<open>(C39) A certificate authority that is made at the first start is the one of every later start: the
  files hold it, so the next start loads it and listens at the same addresses.  But the bytes served
  at \<open>/ca.pem\<close> differ: the first run serves the certificate itself (its DER encoding), every later
  run the PEM file.
\<close>

theorem restart_keeps_certificate:
  assumes "parse_flags (drop 1 args) (''ca.pem'', ''key.pem'') = Some (''ca.pem'', ''key.pem'')"
    and "LoadX509KeyPair pk ''ca.pem'' ''key.pem'' dk = Inl err"
    and "main pk args dk = Ret (Serving sv dk')"
  shows "\<exists>serialNumber priv der.
    pk_createCertificate pk (ca_for serialNumber (pk_now pk) (pk_addYears pk (pk_now pk) 20)) priv = Inr der \<and>
    sv_caBytes sv = pk_Certificate pk (sv_Cert sv) ! 0 \<and>
    main pk args dk' = Ret (Serving (sv\<lparr>sv_caBytes := pk_pem pk ''CERTIFICATE'' der\<rparr>) dk')"
proof -
  note serving = main_serving [OF assms(1), of pk]
  from assms(3) have first: "load_or_create pk ''ca.pem'' ''key.pem'' dk = Ret ((sv_Cert sv, sv_caBytes sv), dk')"
    by (simp add: serving)
  from load_or_create_new [OF first assms(2)]
  have made: "createPemFiles pk dk = Ret (Inr (sv_Cert sv), dk')"
    and bytes: "sv_caBytes sv = pk_Certificate pk (sv_Cert sv) ! 0" by auto
  from createPemFiles_ok [OF made] obtain serialNumber priv der where
    cert: "pk_createCertificate pk (ca_for serialNumber (pk_now pk) (pk_addYears pk (pk_now pk) 20)) priv = Inr der"
    and ca: "read_file ''ca.pem'' dk' = Some (pk_pem pk ''CERTIFICATE'' der)"
    and key: "read_file ''key.pem'' dk' = Some (pk_pem pk ''RSA PRIVATE KEY'' (pk_pkcs1 pk priv))"
    and pair: "pk_keyPair pk (pk_pem pk ''CERTIFICATE'' der) (pk_pem pk ''RSA PRIVATE KEY'' (pk_pkcs1 pk priv)) =
      Inr (sv_Cert sv)" by blast
  have "LoadX509KeyPair pk ''ca.pem'' ''key.pem'' dk' = Inr (sv_Cert sv)"
    using ca key pair by (simp add: LoadX509KeyPair_def)
  from load_or_create_found [OF this ca]
  have "main pk args dk' = Ret (Serving (sv\<lparr>sv_caBytes := pk_pem pk ''CERTIFICATE'' der\<rparr>) dk')"
    using assms(3) by (simp add: serving)
  with cert bytes show ?thesis by blast
qed

text \<open>The ports are the first two arguments as the process got them: without arguments, as
  \<open>restartScript.sh\<close> starts it, the program panics although it has its certificate; with a flag before
  the ports, the flag and its value are taken for the ports.
\<close>

theorem ports_are_first_arguments:
  assumes "load_or_create pk ''ca.pem'' ''key.pem'' dk = Ret ((cert, ca), dk1)"
    and "load_or_create pk path ''key.pem'' dk = Ret ((cert2, ca2), dk2)"
    and "take 1 api \<noteq> ''-''"
  shows "main pk [prog] dk = Panic ''index out of range'' \<and>
    main pk [prog, ''-pem'', path, api, prx] dk =
      Ret (Serving \<lparr>sv_Cert = cert2, sv_caBytes = ca2, sv_apiAddress = '':-pem'', sv_proxyAddress = '':'' @ path\<rparr> dk2)"
proof
  show "main pk [prog] dk = Panic ''index out of range''"
    using assms(1) by (simp add: main_def arg_def)
  have api: "length api < 2 \<or> api ! 0 \<noteq> CHR ''-''"
    using assms(3) by (cases api) auto
  then have "parse_flags [api, prx] (path, ''key.pem'') = Some (path, ''key.pem'')"
    by auto
  then have "parse_flags (drop 1 [prog, ''-pem'', path, api, prx]) (''ca.pem'', ''key.pem'') = Some (path, ''key.pem'')"
    by (simp add: flag_parts_def set_flag_def del: parse_flags.simps(2))
       (simp add: flag_parts_def set_flag_def)
  then show "main pk [prog, ''-pem'', path, api, prx] dk =
      Ret (Serving \<lparr>sv_Cert = cert2, sv_caBytes = ca2, sv_apiAddress = '':-pem'', sv_proxyAddress = '':'' @ path\<rparr> dk2)"
    using assms(2) by (simp add: main_serving)
qed

text \<open>Without a certificate and without a way to make one, the program does not report the failure: it panics.\<close>

lemma failed_creation_panics:
  assumes "LoadX509KeyPair pk caPath keyPath dk = Inl err" and "createPemFiles pk dk = Ret (Inl err', dk')"
  shows "load_or_create pk caPath keyPath dk = Panic nil_deref"
  using assms by (simp add: load_or_create_def)

text \<open>On its own port the API does what it does through the proxy, but its header is lost.\<close>

lemma exposed_handler_answer:
  assumes "handleProxyAPI ae req ss = Some (Ret (resp, ss'))" and "rs_Body resp = Some b"
    and "ReadAll (ae_sizes ae) (fst b) = Some (bs, err)"
  shows "exposed_handler ae req ss = Some (Ret ((rs_StatusCode resp, Map.empty, bs), ss'))"
  using assms by (simp add: exposed_handler_def)

definition sample_pki :: "(string, string) pki" where
  "sample_pki = \<lparr>pk_randInt = (\<lambda>n. Inr 5), pk_generateKey = (\<lambda>n. Some ''K''), pk_now = 0,
     pk_addYears = (\<lambda>t n. t + int n), pk_createCertificate = (\<lambda>t k. Inr ''D''), pk_pem = (\<lambda>l b. ''-'' @ b),
     pk_pkcs1 = (\<lambda>k. k), pk_keyPair = (\<lambda>ca key. Inr (drop 1 ca)), pk_Certificate = (\<lambda>c. [c])\<rparr>"

definition empty_disk :: disk where
  "empty_disk = \<lparr>dk_files = (\<lambda>_. None), dk_mayOpen = (\<lambda>_. True), dk_write = (\<lambda>_. None), dk_close = (\<lambda>_. None)\<rparr>"

definition sample_disk :: disk where
  "sample_disk = empty_disk\<lparr>dk_files := [''ca.pem'' \<mapsto> ''-D'', ''key.pem'' \<mapsto> ''-K'']\<rparr>"

definition sample_service :: "string service" where
  "sample_service = \<lparr>sv_Cert = ''D'', sv_caBytes = ''D'', sv_apiAddress = '':1'', sv_proxyAddress = '':2''\<rparr>"

lemma sample_created: "load_or_create sample_pki ''ca.pem'' ''key.pem'' empty_disk = Ret ((''D'', ''D''), sample_disk)"
  by (simp add: load_or_create_def LoadX509KeyPair_def read_file_def empty_disk_def createPemFiles_def
      sample_pki_def write_pem_def sample_disk_def Let_def fun_upd_twist)

lemma sample_loaded:
  "load_or_create sample_pki ''ca.pem'' ''key.pem'' sample_disk = Ret ((''D'', ''-D''), sample_disk)"
  by (simp add: load_or_create_def LoadX509KeyPair_def read_file_def empty_disk_def sample_pki_def sample_disk_def)

theorem restart_keeps_certificate_witness:
  "main sample_pki [''p'', ''1'', ''2''] empty_disk = Ret (Serving sample_service sample_disk) \<and>
   main sample_pki [''p'', ''1'', ''2''] sample_disk =
     Ret (Serving (sample_service\<lparr>sv_caBytes := ''-D''\<rparr>) sample_disk)"
proof -
  have flags: "parse_flags (drop 1 [''p'', ''1'', ''2'']) (''ca.pem'', ''key.pem'') = Some (''ca.pem'', ''key.pem'')"
    by simp
  have missing: "LoadX509KeyPair sample_pki ''ca.pem'' ''key.pem'' empty_disk = Inl (Err ''open'')"
    by (simp add: LoadX509KeyPair_def read_file_def empty_disk_def)
  have first: "main sample_pki [''p'', ''1'', ''2''] empty_disk = Ret (Serving sample_service sample_disk)"
    using sample_created by (simp add: main_serving [OF flags] sample_service_def)
  have "pk_pem sample_pki ''CERTIFICATE'' der = ''-'' @ der" "pk_createCertificate sample_pki ca key = Inr ''D''"
    for der ca key by (simp_all add: sample_pki_def)
  with restart_keeps_certificate [OF flags missing first] first show ?thesis by simp
qed

theorem ports_are_first_arguments_witness:
  "main sample_pki [''p''] empty_disk = Panic ''index out of range'' \<and>
   main sample_pki [''p'', ''-pem'', ''ca.pem'', ''1'', ''2''] empty_disk =
     Ret (Serving (sample_service\<lparr>sv_apiAddress := '':-pem'', sv_proxyAddress := '':ca.pem''\<rparr>) sample_disk)"
  using ports_are_first_arguments [OF sample_created sample_created, of "''1''" "''p''" "''2''"]
  by (simp add: sample_service_def)

end
