(* ===== verification/AcceptLoop.thy ===== *)
theory AcceptLoop
  imports ProxyLoop
begin

text \<open>
  The accept loop of \<open>Listen\<close> in \<open>proxy/proxy.go\<close> with all of its clients at once: a client is
  accepted, with the flag that its connection closes after a request when the proxy is full; its
  goroutine starts and adds it to \<open>conns\<close>; it is removed when it is done; and the goroutines that
  bring the counter of \<open>conns\<close> up to date run at any time.  What a client does in between is
  \<open>listenConn\<close> of \<open>ProxyLoop\<close>.
\<close>

record 'k accept_state =
  as_px :: "'k proxy"
  as_accepted :: "(conn \<times> handle ClientConnProps) list"
  as_serving :: "(conn \<times> handle ClientConnProps) list"

datatype accept_event = Accept conn int | Start conn | Finish conn | Counted "conn cs_event"

definition new_listener :: "'k proxy \<Rightarrow> 'k accept_state" where
  "new_listener p = \<lparr>as_px = p\<lparr>px_conns := new_connSet\<rparr>, as_accepted = [], as_serving = []\<rparr>"

text \<open>A connection that is accepted is a new one.\<close>

definition known :: "'k accept_state \<Rightarrow> conn set" where
  "known s = fst ` set (as_accepted s) \<union> fst ` set (as_serving s)"

fun accept_exec :: "accept_event \<Rightarrow> 'k accept_state \<Rightarrow> 'k accept_state option" where
  "accept_exec (Accept c now) s =
     (if c \<in> known s then None
      else Some (s\<lparr>as_accepted := as_accepted s @ [(c, accept_client (as_px s) c now)]\<rparr>))"
| "accept_exec (Start c) s =
     (case map_of (as_accepted s) c of
        None \<Rightarrow> None
      | Some client \<Rightarrow>
          Some (s\<lparr>as_accepted := filter (\<lambda>x. fst x \<noteq> c) (as_accepted s),
                  as_serving := as_serving s @ [(c, client)],
                  as_px := (as_px s)\<lparr>px_conns := cs_Add (px_conns (as_px s)) c\<rparr>\<rparr>))"
| "accept_exec (Finish c) s =
     (case map_of (as_serving s) c of
        None \<Rightarrow> None
      | Some client \<Rightarrow>
          Some (s\<lparr>as_serving := filter (\<lambda>x. fst x \<noteq> c) (as_serving s),
                  as_px := (as_px s)\<lparr>px_conns := cs_Remove (px_conns (as_px s)) c\<rparr>\<rparr>))"
| "accept_exec (Counted e) s =
     (if e \<noteq> Incremented \<and> e \<noteq> Decremented then None
      else case cs_exec e (px_conns (as_px s)) of
             None \<Rightarrow> None
           | Some cs \<Rightarrow> Some (s\<lparr>as_px := (as_px s)\<lparr>px_conns := cs\<rparr>\<rparr>))"

text \<open>All work on the accepted clients and on the counter is done.\<close>

definition settled :: "'k accept_state \<Rightarrow> bool" where
  "settled s \<longleftrightarrow> as_accepted s = [] \<and> cs_incs (px_conns (as_px s)) = 0 \<and> cs_decs (px_conns (as_px s)) = 0"

fun prompt :: "accept_event \<Rightarrow> 'k accept_state \<Rightarrow> bool" where
  "prompt (Accept c now) s = settled s"
| "prompt _ s = True"

text \<open>Histories; the first argument is a condition on every event and the state it happens in.\<close>

inductive accept_reach ::
  "(accept_event \<Rightarrow> 'k accept_state \<Rightarrow> bool) \<Rightarrow> 'k proxy \<Rightarrow> accept_event list \<Rightarrow> 'k accept_state \<Rightarrow> bool"
  for ok :: "accept_event \<Rightarrow> 'k accept_state \<Rightarrow> bool" and p :: "'k proxy" where
  start: "accept_reach ok p [] (new_listener p)"
| step: "accept_reach ok p es s \<Longrightarrow> ok e s \<Longrightarrow> accept_exec e s = Some s' \<Longrightarrow> accept_reach ok p (es @ [e]) s'"

inductive_cases accept_reach_stepE: "accept_reach ok p (es @ [e]) s"

definition kept_alive :: "'k accept_state \<Rightarrow> nat" where
  "kept_alive s = length (filter (\<lambda>x. \<not> cl_closeConnAfterRequest (snd x)) (as_accepted s @ as_serving s))"

subsection \<open>The set is the clients being served\<close>

definition accept_inv :: "nat \<Rightarrow> 'k accept_state \<Rightarrow> bool" where
  "accept_inv n s \<longleftrightarrow> cs_inv (px_conns (as_px s)) \<and> distinct (map fst (as_accepted s @ as_serving s)) \<and>
     set (cs_m (px_conns (as_px s))) = fst ` set (as_serving s) \<and> length (as_serving s) \<le> n"

lemma fst_filter_neq: "fst ` set (filter (\<lambda>x. fst x \<noteq> c) xs) = fst ` set xs - {c}"
  by auto

lemma length_filter_twice: "length (filter P (filter Q xs)) \<le> length (filter P xs)"
  by (induction xs) auto

lemma cs_Add_set [simp]: "set (cs_m (cs_Add cs c)) = insert c (set (cs_m cs))"
  by (auto simp: cs_Add_def cs_Contains_def)

lemma cs_Remove_set [simp]: "set (cs_m (cs_Remove cs c)) = set (cs_m cs) - {c}"
  by (auto simp: cs_Remove_def cs_Contains_def)

lemma accept_inv_step:
  assumes "accept_inv n s" and "accept_exec e s = Some s'"
  shows "accept_inv (Suc n) s'"
proof (cases e)
  case (Accept c now)
  then show ?thesis
    using assms by (clarsimp simp: accept_inv_def known_def simp del: Un_iff image_iff split: if_splits)
next
  case (Start c)
  then obtain client where client: "map_of (as_accepted s) c = Some client"
    using assms(2) by (auto split: option.splits)
  have "c \<notin> fst ` set (as_serving s)"
    using assms(1) map_of_SomeD [OF client] by (force simp: accept_inv_def)
  then show ?thesis
    using assms client Start
    by (clarsimp simp: accept_inv_def cs_inv_Add distinct_map_filter fst_filter_neq simp del: set_filter image_iff)
       blast
next
  case (Finish c)
  then obtain client where client: "map_of (as_serving s) c = Some client"
    using assms(2) by (auto split: option.splits)
  let ?rest = "filter (\<lambda>x. fst x \<noteq> c) (as_serving s)"
  have s': "s' = s\<lparr>as_serving := ?rest,
      as_px := (as_px s)\<lparr>px_conns := cs_Remove (px_conns (as_px s)) c\<rparr>\<rparr>"
    using assms(2) Finish client by simp
  have short: "length ?rest \<le> Suc n"
    using le_trans [OF length_filter_le, of "as_serving s" "Suc n"] assms(1) by (simp add: accept_inv_def)
  have conns: "set (cs_m (cs_Remove (px_conns (as_px s)) c)) = fst ` set ?rest"
    using assms(1) unfolding accept_inv_def fst_filter_neq cs_Remove_set by simp
  have ids: "distinct (map fst (as_accepted s @ ?rest))"
    using assms(1) unfolding accept_inv_def map_append distinct_append set_map fst_filter_neq
    by (auto simp: distinct_map_filter simp del: image_iff)
  show ?thesis
    using short conns ids assms(1) unfolding s' accept_inv_def by (simp add: cs_inv_Remove)
next
  case (Counted ev)
  then obtain cs where cs: "cs_exec ev (px_conns (as_px s)) = Some cs"
    and ev: "ev = Incremented \<or> ev = Decremented" and s': "s' = s\<lparr>as_px := (as_px s)\<lparr>px_conns := cs\<rparr>\<rparr>"
    using assms(2) by (auto split: if_splits option.splits)
  have "cs_inv (px_conns (as_px s))"
    using assms(1) by (simp add: accept_inv_def)
  then have "cs_inv cs"
    using cs ev cs_inv_goroutine by blast
  moreover have "cs_m cs = cs_m (px_conns (as_px s))"
    using cs ev by (auto split: if_splits)
  ultimately show ?thesis
    using assms(1) unfolding s' accept_inv_def by simp
qed

lemma accept_reach_inv: "accept_reach ok p es s \<Longrightarrow> accept_inv (length es) s"
proof (induction rule: accept_reach.induct)
  case start
  then show ?case by (simp add: accept_inv_def new_listener_def cs_inv_new) (simp add: new_connSet_def)
next
  case (step es s e s')
  then show ?case using accept_inv_step [of "length es" s e s'] by simp
qed

lemma sint_small: "n < 2 ^ 63 \<Longrightarrow> sint (of_nat n :: 64 word) = int n"
  by (simp add: sint_uint uint_nat unat_of_nat take_bit_nat_eq_self signed_take_bit_int_eq_self)

lemma reach_max: "accept_reach ok p es s \<Longrightarrow> px_MaxConnsKeptAlive (as_px s) = px_MaxConnsKeptAlive p"
proof (induction rule: accept_reach.induct)
  case start
  then show ?case by (simp add: new_listener_def)
next
  case (step es s e s')
  then show ?case by (cases e) (auto split: if_splits option.splits)
qed

lemma kept_alive_simps:
  "kept_alive s = length (filter (\<lambda>x. \<not> cl_closeConnAfterRequest (snd x)) (as_accepted s)) +
     length (filter (\<lambda>x. \<not> cl_closeConnAfterRequest (snd x)) (as_serving s))"
  by (simp add: kept_alive_def)

text \<open>When everything has settled the counter is the number of the clients that are served.\<close>

lemma settled_Len:
  assumes "accept_inv n s" and "settled s" and "n < 2 ^ 63"
  shows "sint (cs_Len (px_conns (as_px s))) = int (length (as_serving s))"
proof -
  have "cs_Len (px_conns (as_px s)) = of_nat (length (cs_m (px_conns (as_px s))))"
    using assms(1,2) by (simp add: accept_inv_def settled_def cs_inv_def cs_Len_def)
  moreover have "length (cs_m (px_conns (as_px s))) = length (as_serving s)"
    using assms(1) unfolding accept_inv_def cs_inv_def
    by (metis distinct_append distinct_card length_map list.set_map map_append)
  ultimately show ?thesis
    using assms by (simp add: sint_small accept_inv_def)
qed

lemma kept_alive_step:
  assumes "accept_inv n s" and "n < 2 ^ 63" and "accept_exec e s = Some s'" and "prompt e s"
    and "int (kept_alive s) \<le> px_MaxConnsKeptAlive (as_px s)"
  shows "int (kept_alive s') \<le> px_MaxConnsKeptAlive (as_px s)"
proof (cases e)
  case (Accept c now)
  let ?client = "accept_client (as_px s) c now"
  have s': "s' = s\<lparr>as_accepted := [(c, ?client)]\<rparr>" and settled: "settled s"
    using assms(3,4) Accept by (auto simp: settled_def split: if_splits)
  have served: "kept_alive s \<le> length (as_serving s)"
    using settled by (simp add: kept_alive_simps settled_def)
  show ?thesis
  proof (cases "cl_closeConnAfterRequest ?client")
    case True
    then show ?thesis
      using assms(5) settled by (simp add: s' kept_alive_simps settled_def)
  next
    case False
    then have "int (length (as_serving s)) < px_MaxConnsKeptAlive (as_px s)"
      using settled_Len [OF assms(1) settled assms(2)] by (simp add: accept_client_def)
    moreover have "kept_alive s' \<le> Suc (length (as_serving s))"
      by (simp add: s' kept_alive_simps le_SucI)
    ultimately show ?thesis by linarith
  qed
next
  case (Start c)
  then obtain client where client: "map_of (as_accepted s) c = Some client"
    using assms(3) by (auto split: option.splits)
  obtain as bs where split: "as_accepted s = as @ (c, client) # bs"
    using map_of_SomeD [OF client] by (meson split_list)
  have "c \<notin> fst ` set as" "c \<notin> fst ` set bs"
    using assms(1) by (auto simp: accept_inv_def split)
  then have "filter (\<lambda>x. fst x \<noteq> c) as = as" "filter (\<lambda>x. fst x \<noteq> c) bs = bs"
    by (auto simp: filter_id_conv)
  then have "kept_alive s' = kept_alive s"
    using assms(3) Start client by (auto simp: kept_alive_simps split)
  then show ?thesis using assms(5) by simp
next
  case (Finish c)
  then obtain client where "map_of (as_serving s) c = Some client"
    using assms(3) by (auto split: option.splits)
  then have "kept_alive s' \<le> kept_alive s"
    using assms(3) Finish
    by (auto simp: kept_alive_simps length_filter_twice simp del: filter_filter)
  then show ?thesis using assms(5) by simp
next
  case (Counted ev)
  then show ?thesis
    using assms(3,5) by (auto simp: kept_alive_simps split: if_splits option.splits)
qed

lemma kept_alive_reach:
  "accept_reach prompt p es s \<Longrightarrow> 0 \<le> px_MaxConnsKeptAlive p \<Longrightarrow> length es < 2 ^ 63 \<Longrightarrow>
    int (kept_alive s) \<le> px_MaxConnsKeptAlive p"
proof (induction rule: accept_reach.induct)
  case start
  then show ?case by (simp add: kept_alive_simps new_listener_def)
next
  case (step es s e s')
  then have "int (kept_alive s) \<le> px_MaxConnsKeptAlive (as_px s)" "length es < 2 ^ 63"
    using reach_max [OF step.hyps(1)] by simp_all
  from kept_alive_step [OF accept_reach_inv [OF step.hyps(1)] this(2) step.hyps(3,2) this(1)]
  show ?case using reach_max [OF step.hyps(1)] by simp
qed

text \<open>(C40) The limit on kept connections holds when every client is accepted only after the goroutines of
  the earlier ones have registered them and the counter is up to date: then at most
  \<open>MaxConnsKeptAlive\<close> connections are kept alive, in every history of clients that come and go.\<close>

theorem kept_alive_limit:
  assumes "accept_reach prompt p es s" and "0 \<le> px_MaxConnsKeptAlive p" and "length es < 2 ^ 63"
  shows "int (kept_alive s) \<le> px_MaxConnsKeptAlive p"
  by (rule kept_alive_reach [OF assms])

subsection \<open>A burst of clients\<close>

definition burst :: "nat \<Rightarrow> nat \<Rightarrow> nat \<Rightarrow> 'k accept_state \<Rightarrow> bool" where
  "burst n counted incs s \<longleftrightarrow> as_accepted s = [] \<and> map fst (as_serving s) = [0..<n] \<and>
     list_all (\<lambda>x. \<not> cl_closeConnAfterRequest (snd x)) (as_serving s) \<and> cs_m (px_conns (as_px s)) = [0..<n] \<and>
     cs_n (px_conns (as_px s)) = of_nat counted \<and> cs_incs (px_conns (as_px s)) = incs \<and>
     cs_decs (px_conns (as_px s)) = 0"

lemma burst_one:
  assumes "burst n 0 n s" and "0 < px_MaxConnsKeptAlive (as_px s)"
  shows "\<exists>s1 s2. accept_exec (Accept n 0) s = Some s1 \<and> accept_exec (Start n) s1 = Some s2 \<and> burst (Suc n) 0 (Suc n) s2"
proof -
  have "fst ` set (as_serving s) = {0..<n}"
    using assms(1) unfolding burst_def by (metis list.set_map set_upt)
  then have "n \<notin> known s"
    using assms(1) by (simp add: known_def burst_def)
  moreover have "\<not> cl_closeConnAfterRequest (accept_client (as_px s) n 0)"
    using assms by (simp add: accept_client_def burst_def cs_Len_def)
  ultimately show ?thesis
    using assms(1) by (simp add: burst_def cs_Add_def cs_Contains_def)
qed

lemma burst_reach:
  assumes "0 < px_MaxConnsKeptAlive p"
  shows "\<exists>es s. accept_reach (\<lambda>_ _. True) p es s \<and> burst n 0 n s"
proof (induction n)
  case 0
  have "burst 0 0 0 (new_listener p)"
    by (simp add: burst_def new_listener_def new_connSet_def)
  then show ?case using accept_reach.start by blast
next
  case (Suc n)
  then obtain es s where s: "accept_reach (\<lambda>_ _. True) p es s" "burst n 0 n s" by blast
  from burst_one [OF s(2)] reach_max [OF s(1)] assms obtain s1 s2 where
    "accept_exec (Accept n 0) s = Some s1" "accept_exec (Start n) s1 = Some s2" "burst (Suc n) 0 (Suc n) s2" by auto
  then show ?case
    using accept_reach.step [OF accept_reach.step [OF s(1) TrueI] TrueI] by blast
qed

lemma burst_counted:
  "accept_reach (\<lambda>_ _. True) p es s \<Longrightarrow> burst n counted incs s \<Longrightarrow>
    \<exists>es' s'. accept_reach (\<lambda>_ _. True) p es' s' \<and> burst n (counted + incs) 0 s'"
proof (induction incs arbitrary: counted es s)
  case 0
  then show ?case by auto
next
  case (Suc incs)
  let ?cs = "px_conns (as_px s)"
  let ?s = "s\<lparr>as_px := (as_px s)\<lparr>px_conns := ?cs\<lparr>cs_n := cs_n ?cs + 1, cs_incs := incs\<rparr>\<rparr>\<rparr>"
  have "accept_exec (Counted Incremented) s = Some ?s"
    using Suc.prems(2) by (simp add: burst_def)
  note reach = accept_reach.step [OF Suc.prems(1) TrueI this]
  have "burst n (Suc counted) incs ?s"
    using Suc.prems(2) by (simp add: burst_def)
  from Suc.IH [OF reach this] show ?case by simp
qed

text \<open>Nothing makes the loop wait, though: for every number there is a history with that many clients
  kept alive, all of them being served, the counter up to date and the limit as low as one: they were
  accepted before the first of them was counted.\<close>

theorem burst_exceeds_limit:
  assumes "0 < px_MaxConnsKeptAlive p"
  shows "\<exists>es s. accept_reach (\<lambda>_ _. True) p es s \<and> settled s \<and> kept_alive s = n \<and> length (as_serving s) = n"
proof -
  obtain es s where "accept_reach (\<lambda>_ _. True) p es s" "burst n 0 n s"
    using burst_reach [OF assms] by blast
  from burst_counted [OF this] obtain es' s' where
    s': "accept_reach (\<lambda>_ _. True) p es' s'" "burst n n 0 s'" by auto
  have "length (as_serving s') = n"
    using s'(2) unfolding burst_def by (metis length_map length_upt diff_zero)
  moreover have "filter (\<lambda>x. \<not> cl_closeConnAfterRequest (snd x)) (as_serving s') = as_serving s'"
    using s'(2) by (simp add: burst_def filter_id_conv list_all_iff)
  ultimately have "settled s' \<and> kept_alive s' = n \<and> length (as_serving s') = n"
    using s'(2) by (simp add: kept_alive_simps settled_def burst_def)
  with s'(1) show ?thesis by blast
qed

definition small_proxy :: "nat proxy" where
  "small_proxy = Proxy\<lparr>px_MaxConnsKeptAlive := 1\<rparr>"

lemma prompt_step:
  "accept_reach prompt p es s \<Longrightarrow> prompt e s \<and> accept_exec e s = Some s' \<Longrightarrow> accept_reach prompt p (es @ [e]) s'"
  by (rule accept_reach.step) auto

text \<open>Two clients of a proxy that keeps one connection: the second one will be closed.\<close>

theorem kept_alive_limit_witness:
  "\<exists>s. accept_reach prompt small_proxy [Accept 4 0, Start 4, Counted Incremented, Accept 5 1] s \<and>
    length (as_accepted s @ as_serving s) = 2 \<and> int (kept_alive s) \<le> 1"
proof -
  have max: "px_MaxConnsKeptAlive small_proxy = 1" by (simp add: small_proxy_def)
  have base: "accept_reach prompt small_proxy [] (new_listener small_proxy)" by (rule accept_reach.start)
  have first: "prompt (Accept 4 0) (new_listener small_proxy)"
    by (simp add: settled_def new_listener_def new_connSet_def)
  define a where "a = the (accept_exec (Accept 4 0) (new_listener small_proxy))"
  define b where "b = the (accept_exec (Start 4) a)"
  define c where "c = the (accept_exec (Counted Incremented) b)"
  define d where "d = the (accept_exec (Accept 5 1) c)"
  have a: "accept_exec (Accept 4 0) (new_listener small_proxy) = Some a"
    by (simp add: a_def known_def new_listener_def)
  have b: "accept_exec (Start 4) a = Some b"
    by (simp add: b_def a_def known_def new_listener_def)
  have c: "accept_exec (Counted Incremented) b = Some c"
    by (simp add: c_def b_def a_def known_def new_listener_def new_connSet_def cs_Add_def cs_Contains_def)
  have settled: "settled c" and shape: "as_accepted c = [] \<and> map fst (as_serving c) = [4]"
    by (simp_all add: settled_def c_def b_def a_def known_def new_listener_def new_connSet_def cs_Add_def cs_Contains_def)
  then have "fst ` set (as_serving c) = {4}" by (metis list.set_map list.simps(15) empty_set)
  then have d: "accept_exec (Accept 5 1) c = Some d"
    using shape by (simp add: d_def known_def)
  have reach: "accept_reach prompt small_proxy [Accept 4 0, Start 4, Counted Incremented, Accept 5 1] d"
    using prompt_step [OF prompt_step [OF prompt_step [OF prompt_step [OF base, of "Accept 4 0" a], of "Start 4" b],
      of "Counted Incremented" c], of "Accept 5 1" d] first a b c d settled by simp
  have "length (as_accepted d) = 1" "as_serving d = as_serving c"
    using d shape by (auto split: if_splits)
  moreover have "length (as_serving c) = 1"
    using shape by (metis length_map length_Cons list.size(3) One_nat_def)
  ultimately have "length (as_accepted d @ as_serving d) = 2" by simp
  moreover have "int (kept_alive d) \<le> 1"
    using kept_alive_limit [OF reach] by (simp add: max)
  ultimately show ?thesis using reach by blast
qed

theorem burst_exceeds_limit_witness:
  "\<exists>es s. accept_reach (\<lambda>_ _. True) small_proxy es s \<and> settled s \<and> kept_alive s = 1000 \<and> length (as_serving s) = 1000"
  by (rule burst_exceeds_limit) (simp add: small_proxy_def)

end
