(* ===== verification/BodyCopies.thy ===== *)
theory BodyCopies
  imports HttpMsg GoIo
begin

text \<open>
  \<open>CloneReadCloser\<close>, \<open>CustomReadCloser\<close>, \<open>copyRequest\<close> and \<open>copyResponse\<close> of \<open>requestLogger.go\<close>: a body
  and its copy, the reading end of a pipe into which the body writes all it reads.

  A pipe has no buffer: a read of the body that got bytes returns when the copy was read that far.
  The two ends are used by different goroutines, so a read of the body is two events, its call and
  its return; an event that has to wait has no result (\<open>None\<close>).
\<close>

text \<open>\<open>TeeEnd\<close> is what the message keeps, \<open>DupEnd\<close> the body of the copy.\<close>

datatype copy_end = TeeEnd | DupEnd

text \<open>\<open>in_flight\<close>: what the pending read of the body got, and what of it the copy has not read.\<close>

record 's clone =
  cn_source :: "'s option"
  cn_in_flight :: "(bytes \<times> goerr option \<times> bytes) option"

definition CloneReadCloser :: "'s option \<Rightarrow> copy_end \<times> copy_end \<times> 's clone" where
  "CloneReadCloser rc = (TeeEnd, DupEnd, \<lparr>cn_source = rc, cn_in_flight = None\<rparr>)"

definition tee_call :: "'s read_fn \<Rightarrow> nat \<Rightarrow> 's clone \<Rightarrow> 's clone outcome option" where
  "tee_call rd n c =
     (case cn_in_flight c of
        Some _ \<Rightarrow> None
      | None \<Rightarrow>
          (case cn_source c of
             None \<Rightarrow> Some (Panic ''nil pointer dereference'')
           | Some s \<Rightarrow>
               let (bs, err, s) = rd s n
               in Some (Ret \<lparr>cn_source = Some s, cn_in_flight = Some (bs, err, bs)\<rparr>)))"

definition tee_return :: "'s clone \<Rightarrow> ((bytes \<times> goerr option) \<times> 's clone) option" where
  "tee_return c =
     (case cn_in_flight c of
        Some (bs, err, []) \<Rightarrow> Some ((bs, err), c\<lparr>cn_in_flight := None\<rparr>)
      | _ \<Rightarrow> None)"

definition dup_Read :: "nat \<Rightarrow> 's clone \<Rightarrow> ((bytes \<times> goerr option) \<times> 's clone) option" where
  "dup_Read n c =
     (case cn_in_flight c of
        None \<Rightarrow> None
      | Some (bs, err, left) \<Rightarrow>
          if left = [] then None
          else Some ((take n left, None), c\<lparr>cn_in_flight := Some (bs, err, drop n left)\<rparr>))"

text \<open>\<open>Close\<close> closes the original body; the copy has no closer, and nobody closes the pipe.\<close>

definition crc_Close :: "'s close_fn \<Rightarrow> copy_end \<Rightarrow> 's clone \<Rightarrow> goerr option \<times> 's clone" where
  "crc_Close cl e c =
     (case (e, cn_source c) of
        (TeeEnd, Some s) \<Rightarrow> (let (err, s) = cl s in (err, c\<lparr>cn_source := Some s\<rparr>))
      | _ \<Rightarrow> (None, c))"

text \<open>A struct assignment copies every field.  The message and its copy have an end of the body each;
  the request a response belongs to is shared by both and keeps its own body (\<open>Inl\<close>).\<close>

definition request_with :: "('b option \<Rightarrow> 'c option) \<Rightarrow> 'b request \<Rightarrow> 'c request" where
  "request_with f req =
     \<lparr>rq_Method = rq_Method req, rq_URL = rq_URL req, rq_Proto = rq_Proto req,
      rq_ProtoMajor = rq_ProtoMajor req, rq_ProtoMinor = rq_ProtoMinor req, rq_Header = rq_Header req,
      rq_Body = f (rq_Body req), rq_ContentLength = rq_ContentLength req,
      rq_TransferEncoding = rq_TransferEncoding req, rq_Close = rq_Close req, rq_Host = rq_Host req,
      rq_RemoteAddr = rq_RemoteAddr req, rq_RequestURI = rq_RequestURI req\<rparr>"

definition response_with :: "copy_end \<Rightarrow> 's response \<Rightarrow> ('s + copy_end) response" where
  "response_with e resp =
     \<lparr>rs_Status = rs_Status resp, rs_StatusCode = rs_StatusCode resp, rs_ProtoMajor = rs_ProtoMajor resp,
      rs_ProtoMinor = rs_ProtoMinor resp, rs_Header = rs_Header resp, rs_Body = Some (Inr e),
      rs_ContentLength = rs_ContentLength resp, rs_TransferEncoding = rs_TransferEncoding resp,
      rs_Close = rs_Close resp, rs_Request = map_option (request_with (map_option Inl)) (rs_Request resp)\<rparr>"

text \<open>The message (first) and its copy.\<close>

definition copyRequest :: "'s request \<Rightarrow> copy_end request \<times> copy_end request \<times> 's clone" where
  "copyRequest req =
     (let (tee, dup, c) = CloneReadCloser (rq_Body req)
      in (request_with (\<lambda>_. Some tee) req, request_with (\<lambda>_. Some dup) req, c))"

definition copyResponse :: "'s response \<Rightarrow> ('s + copy_end) response \<times> ('s + copy_end) response \<times> 's clone" where
  "copyResponse resp =
     (let (tee, dup, c) = CloneReadCloser (rs_Body resp)
      in (response_with tee resp, response_with dup resp, c))"

subsection \<open>What the copy delivers\<close>

datatype clone_event = TeeCall nat | TeeReturn | DupRead nat

text \<open>An event with what the two ends have delivered so far.\<close>

fun clone_exec :: "'s read_fn \<Rightarrow> clone_event \<Rightarrow> bytes \<times> bytes \<times> 's clone \<Rightarrow> (bytes \<times> bytes \<times> 's clone) option" where
  "clone_exec rd (TeeCall n) (out, dup, c) =
     (case tee_call rd n c of Some (Ret c) \<Rightarrow> Some (out, dup, c) | _ \<Rightarrow> None)"
| "clone_exec rd TeeReturn (out, dup, c) =
     (case tee_return c of Some ((bs, err), c) \<Rightarrow> Some (out @ bs, dup, c) | None \<Rightarrow> None)"
| "clone_exec rd (DupRead n) (out, dup, c) =
     (case dup_Read n c of Some ((bs, err), c) \<Rightarrow> Some (out, dup @ bs, c) | None \<Rightarrow> None)"

fun clone_run :: "'s read_fn \<Rightarrow> clone_event list \<Rightarrow> bytes \<times> bytes \<times> 's clone \<Rightarrow> (bytes \<times> bytes \<times> 's clone) option" where
  "clone_run rd [] st = Some st"
| "clone_run rd (e # es) st = (case clone_exec rd e st of None \<Rightarrow> None | Some st \<Rightarrow> clone_run rd es st)"

definition clone_inv :: "bytes \<times> bytes \<times> 's clone \<Rightarrow> bool" where
  "clone_inv st \<longleftrightarrow>
     (case st of (out, dup, c) \<Rightarrow>
        (case cn_in_flight c of
           None \<Rightarrow> dup = out
         | Some (bs, err, left) \<Rightarrow> dup @ left = out @ bs))"

lemma clone_inv_step: "clone_exec rd e st = Some st' \<Longrightarrow> clone_inv st \<Longrightarrow> clone_inv st'"
  by (induction rd e st rule: clone_exec.induct)
     (auto simp: clone_inv_def tee_call_def tee_return_def dup_Read_def Let_def
        split: option.splits outcome.splits prod.splits if_splits list.splits)

text \<open>In every interleaving both ends have delivered the same bytes whenever no read is pending, and
  the copy is never told that the body ended: a read of it waits for ever then.\<close>

lemma clone_same:
  assumes "clone_run rd es (out, dup, c) = Some (out', dup', c')" and "clone_inv (out, dup, c)"
    and "cn_in_flight c' = None"
  shows "dup' = out' \<and> dup_Read n c' = None"
proof -
  have "clone_inv (out', dup', c')"
    using assms(1,2)
  proof (induction es arbitrary: out dup c)
    case (Cons e es)
    then obtain out1 dup1 c1 where "clone_exec rd e (out, dup, c) = Some (out1, dup1, c1)"
      by (auto split: option.splits)
    with Cons show ?case using clone_inv_step by fastforce
  qed simp
  with assms(3) show ?thesis by (simp add: clone_inv_def dup_Read_def)
qed

lemma dup_never_ends: "dup_Read n c = Some ((bs, err), c') \<Longrightarrow> err = None \<and> (0 < n \<longrightarrow> bs \<noteq> [])"
  by (auto simp: dup_Read_def split: option.splits if_splits)

end
