(* ===== verification/Wire.thy ===== *)
theory Wire
  imports ClientConn
begin

text \<open>
  How requests are cut out of the bytes of a connection: \<open>Listen\<close> of \<open>proxy/clientConnProps.go\<close>
  makes a new \<open>bufio.Reader\<close> for every request, reads the head of the request through it, and
  the body is read through it later.  What the reader has buffered then goes with it.

  \<open>ProxyLoop\<close> takes the requests of a client as a script; here it is shown for which clients
  that is right, and what happens to the others.  The wire is the segments a connection still
  delivers, one of them or a part of it with each read, and the error that ends it.
\<close>

record wire =
  wi_segments :: "bytes list"
  wi_end :: goerr

definition wire_read :: "wire read_fn" where
  "wire_read w n =
     (case wi_segments w of
        [] \<Rightarrow> ([], Some (wi_end w), w)
      | s # ss \<Rightarrow> if length s \<le> n then (s, None, w\<lparr>wi_segments := ss\<rparr>)
                  else (take n s, None, w\<lparr>wi_segments := drop n s # ss\<rparr>))"

definition wire_ok :: "wire \<Rightarrow> bool" where
  "wire_ok w \<longleftrightarrow> [] \<notin> set (wi_segments w)"

definition wire_rest :: "wire \<Rightarrow> bytes" where
  "wire_rest w = concat (wi_segments w)"

interpretation wire: io_reader wire_read wire_ok wire_rest wi_end "\<lambda>w. length (wire_rest w)"
  by unfold_locales (auto simp: wire_read_def wire_ok_def wire_rest_def split: list.splits if_splits)

subsection \<open>bufio.Reader\<close>

record bufio =
  bf_buf :: bytes
  bf_wire :: wire

definition buffer_size :: nat where
  "buffer_size = 4096"

definition NewReader :: "wire \<Rightarrow> bufio" where
  "NewReader w = \<lparr>bf_buf = [], bf_wire = w\<rparr>"

text \<open>\<open>ReadLine\<close> up to the line feed, over as many pieces as it takes.\<close>

partial_function (option) read_line :: "bytes \<Rightarrow> bufio \<Rightarrow> (bytes \<times> goerr option \<times> bufio) option" where
  "read_line acc b =
     (let buf = bf_buf b; line = takeWhile (\<lambda>c. c \<noteq> CHR 0x0A) buf
      in if length line < length buf then
           Some (acc @ line, None, b\<lparr>bf_buf := drop (Suc (length line)) buf\<rparr>)
         else if buffer_size \<le> length buf then read_line (acc @ buf) (b\<lparr>bf_buf := []\<rparr>)
         else
           (let (bs, e, w) = wire_read (bf_wire b) (buffer_size - length buf);
                b = \<lparr>bf_buf = buf @ bs, bf_wire = w\<rparr>
            in case e of None \<Rightarrow> read_line acc b | Some x \<Rightarrow> Some (acc @ buf, Some x, b)))"

definition chop :: "bytes \<Rightarrow> bytes" where
  "chop l = (if l \<noteq> [] \<and> last l = CHR 0x0D then butlast l else l)"

text \<open>The head of a request: its lines up to an empty one, which is a head without lines when it comes
  first.\<close>

partial_function (option) read_head :: "bytes list \<Rightarrow> bufio \<Rightarrow> (bytes list \<times> goerr option \<times> bufio) option" where
  "read_head ls b =
     (case read_line [] b of
        None \<Rightarrow> None
      | Some (l, Some x, b) \<Rightarrow> Some (ls, Some x, b)
      | Some (l, None, b) \<Rightarrow>
          if chop l = [] then Some (ls, None, b) else read_head (ls @ [chop l]) b)"

definition bf_Read :: "bufio read_fn" where
  "bf_Read b n =
     (if n = 0 then ([], None, b)
      else if bf_buf b \<noteq> [] then (take n (bf_buf b), None, b\<lparr>bf_buf := drop n (bf_buf b)\<rparr>)
      else if buffer_size \<le> n then
        (let (bs, e, w) = wire_read (bf_wire b) n in (bs, e, b\<lparr>bf_wire := w\<rparr>))
      else
        (let (bs, e, w) = wire_read (bf_wire b) buffer_size
         in (take n bs, e, \<lparr>bf_buf = drop n bs, bf_wire = w\<rparr>)))"

definition bf_ok :: "bufio \<Rightarrow> bool" where
  "bf_ok b \<longleftrightarrow> wire_ok (bf_wire b)"

definition bf_rest :: "bufio \<Rightarrow> bytes" where
  "bf_rest b = bf_buf b @ wire_rest (bf_wire b)"

definition bf_fin :: "bufio \<Rightarrow> goerr" where
  "bf_fin b = wi_end (bf_wire b)"

text \<open>The buffer changes neither the bytes nor their end.\<close>

lemma bf_step:
  assumes "bf_ok b" and "bf_Read b n = (bs, e, b')"
  shows "length bs \<le> n \<and> bf_ok b' \<and> bf_rest b = bs @ bf_rest b' \<and> bf_fin b' = bf_fin b \<and>
    (e = None \<longrightarrow> 0 < n \<longrightarrow> bs \<noteq> []) \<and> (\<forall>x. e = Some x \<longrightarrow> x = bf_fin b \<and> bs = [] \<and> bf_rest b' = [])"
proof (cases "n = 0 \<or> bf_buf b \<noteq> []")
  case True
  with assms show ?thesis by (auto simp: bf_Read_def bf_ok_def bf_rest_def bf_fin_def split: if_splits)
next
  case False
  let ?n = "if buffer_size \<le> n then n else buffer_size"
  obtain cs d w where r: "wire_read (bf_wire b) ?n = (cs, d, w)" by (cases "wire_read (bf_wire b) ?n") auto
  have ok: "wire_ok (bf_wire b)" using assms(1) by (simp add: bf_ok_def)
  have pos: "0 < ?n" by (simp add: buffer_size_def)
  have prog: "d = None \<longrightarrow> cs \<noteq> []" "\<forall>x. d = Some x \<longrightarrow> cs = []"
    using r ok pos by (auto simp: wire_read_def wire_ok_def split: list.splits if_splits)
  from wire.rd_step [OF ok r] prog False assms(2) r show ?thesis
    by (auto simp: bf_Read_def bf_ok_def bf_rest_def bf_fin_def split: if_splits)
qed

interpretation buffered_wire: io_reader bf_Read bf_ok bf_rest bf_fin "\<lambda>b. length (bf_rest b)"
proof (unfold_locales, goal_cases)
  case (5 s n bs s')
  from bf_step [OF 5(1,2)] 5(3) show ?case by auto
next
  case (6 s n bs x s')
  from bf_step [OF 6(1,2)] show ?case by auto
qed (use bf_step in blast)+

subsection \<open>The body of a request\<close>

text \<open>A body whose length is known: a \<open>LimitedReader\<close> over the buffered connection, which reports the
  end with its last bytes, and a connection that ends too early as an error.\<close>

record length_body =
  lb_bufio :: bufio
  lb_left :: nat

definition unexpected_EOF :: goerr where
  "unexpected_EOF = Err ''unexpected EOF''"

definition lb_Read :: "length_body read_fn" where
  "lb_Read r n =
     (if lb_left r = 0 then ([], Some EOF, r)
      else
        (let (bs, e, b) = bf_Read (lb_bufio r) (min n (lb_left r));
             left = lb_left r - length bs;
             e = (case e of
                    None \<Rightarrow> if left = 0 then Some EOF else None
                  | Some x \<Rightarrow> Some (if x = EOF then unexpected_EOF else x))
         in (bs, e, \<lparr>lb_bufio = b, lb_left = left\<rparr>)))"

definition lb_rest :: "length_body \<Rightarrow> bytes" where
  "lb_rest r = take (lb_left r) (bf_rest (lb_bufio r))"

definition lb_fin :: "length_body \<Rightarrow> goerr" where
  "lb_fin r =
     (if lb_left r \<le> length (bf_rest (lb_bufio r)) then EOF
      else if bf_fin (lb_bufio r) = EOF then unexpected_EOF else bf_fin (lb_bufio r))"

lemma lb_step:
  assumes "bf_ok (lb_bufio r)" and "lb_Read r n = (bs, e, r')"
  shows "length bs \<le> n \<and> bf_ok (lb_bufio r') \<and> lb_rest r = bs @ lb_rest r' \<and> lb_fin r' = lb_fin r \<and>
    (e = None \<longrightarrow> 0 < n \<longrightarrow> lb_left r' < lb_left r) \<and> (\<forall>x. e = Some x \<longrightarrow> x = lb_fin r \<and> lb_rest r' = [])"
proof (cases "lb_left r = 0")
  case True
  with assms show ?thesis by (auto simp: lb_Read_def lb_rest_def lb_fin_def)
next
  case False
  obtain cs d b where r: "bf_Read (lb_bufio r) (min n (lb_left r)) = (cs, d, b)"
    by (cases "bf_Read (lb_bufio r) (min n (lb_left r))") auto
  note step = bf_step [OF assms(1) r]
  have r': "bs = cs" "r' = \<lparr>lb_bufio = b, lb_left = lb_left r - length cs\<rparr>"
    "e = (case d of None \<Rightarrow> if lb_left r - length cs = 0 then Some EOF else None
          | Some x \<Rightarrow> Some (if x = EOF then unexpected_EOF else x))"
    using assms(2) False r by (auto simp: lb_Read_def Let_def split: prod.splits)
  have le: "length cs \<le> lb_left r" using step by simp
  have rest: "lb_rest r = bs @ lb_rest r'"
    using step le by (simp add: lb_rest_def r')
  have fin: "lb_fin r' = lb_fin r"
  proof -
    have "bf_rest (lb_bufio r) = cs @ bf_rest b" "bf_fin b = bf_fin (lb_bufio r)" using step by simp_all
    then have "(lb_left r - length cs \<le> length (bf_rest b)) = (lb_left r \<le> length (bf_rest (lb_bufio r)))"
      "bf_fin b = bf_fin (lb_bufio r)" using le by auto
    then show ?thesis by (simp add: lb_fin_def r')
  qed
  have ended: "x = lb_fin r \<and> lb_rest r' = []" if "e = Some x" for x
  proof (cases d)
    case None
    with that le have "length cs = lb_left r" "x = EOF" by (auto simp: r' split: if_splits)
    with step show ?thesis by (simp add: lb_fin_def lb_rest_def r')
  next
    case (Some y)
    with step have "cs = []" "bf_rest b = []" "y = bf_fin (lb_bufio r)" by auto
    with step that Some False show ?thesis by (auto simp: lb_fin_def lb_rest_def r')
  qed
  have progress: "lb_left r' < lb_left r" if "e = None" "0 < n"
    using that step le False by (auto simp: r' split: option.splits if_splits)
  show ?thesis
    using step rest fin ended progress by (simp add: r')
qed

interpretation length_body: io_reader lb_Read "\<lambda>r. bf_ok (lb_bufio r)" lb_rest lb_fin lb_left
proof (unfold_locales, goal_cases)
  case (5 s n bs s')
  from lb_step [OF 5(1,2)] 5(3) show ?case by auto
next
  case (6 s n bs x s')
  from lb_step [OF 6(1,2)] show ?case by auto
qed (use lb_step in blast)+

subsection \<open>One request after the other\<close>

text \<open>
  A turn of the loop as far as the bytes go: the head is read through a new buffer, \<open>parse\<close> (the
  rest of \<open>http.ReadRequest\<close>) gives the length of the body or refuses the head, and who answers
  the request reads the body (\<open>reads\<close>) or does not.  Only the connection is left for the next turn.
  An empty line in place of a request is refused.  Requests with a chunked body are left out.
\<close>

type_synonym message = "bytes list \<times> bytes"

definition malformed_request :: goerr where
  "malformed_request = Err ''malformed HTTP request''"

definition wire_turn ::
  "(bytes list \<Rightarrow> goerr + nat) \<Rightarrow> (bytes list \<Rightarrow> bool) \<Rightarrow> (nat \<Rightarrow> nat) \<Rightarrow> wire \<Rightarrow> ((goerr + message) \<times> wire) option" where
  "wire_turn parse reads sizes w =
     (case read_head [] (NewReader w) of
        None \<Rightarrow> None
      | Some (ls, Some x, b) \<Rightarrow> Some (Inl x, bf_wire b)
      | Some (ls, None, b) \<Rightarrow>
          (case (if ls = [] then Inl malformed_request else parse ls) of
             Inl x \<Rightarrow> Some (Inl x, bf_wire b)
           | Inr n \<Rightarrow>
               if \<not> reads ls then Some (Inr (ls, []), bf_wire b)
               else (case drain lb_Read sizes 0 [] \<lparr>lb_bufio = b, lb_left = n\<rparr> of
                       None \<Rightarrow> None
                     | Some (body, x, r) \<Rightarrow> Some (Inr (ls, body), bf_wire (lb_bufio r)))))"

fun wire_turns ::
  "(bytes list \<Rightarrow> goerr + nat) \<Rightarrow> (bytes list \<Rightarrow> bool) \<Rightarrow> (nat \<Rightarrow> nat) \<Rightarrow> nat \<Rightarrow> wire \<Rightarrow> (message list \<times> wire) option" where
  "wire_turns parse reads sizes 0 w = Some ([], w)"
| "wire_turns parse reads sizes (Suc n) w =
     (case wire_turn parse reads sizes w of
        None \<Rightarrow> None
      | Some (Inl x, w) \<Rightarrow> Some ([], w)
      | Some (Inr m, w) \<Rightarrow> map_option (\<lambda>(ms, w). (m # ms, w)) (wire_turns parse reads sizes n w))"

text \<open>What a client sends for a message.\<close>

definition crlf :: bytes where
  "crlf = [CHR 0x0D, CHR 0x0A]"

definition encode_head :: "bytes list \<Rightarrow> bytes" where
  "encode_head ls = concat (map (\<lambda>l. l @ crlf) ls) @ crlf"

definition encode :: "message \<Rightarrow> bytes" where
  "encode m = encode_head (fst m) @ snd m"

definition plain_line :: "bytes \<Rightarrow> bool" where
  "plain_line l \<longleftrightarrow> l \<noteq> [] \<and> CHR 0x0A \<notin> set l \<and> last l \<noteq> CHR 0x0D"

definition message_ok :: "(bytes list \<Rightarrow> goerr + nat) \<Rightarrow> message \<Rightarrow> bool" where
  "message_ok parse m \<longleftrightarrow> fst m \<noteq> [] \<and> list_all plain_line (fst m) \<and> parse (fst m) = Inr (length (snd m))"

lemma chop_line: "chop (l @ [CHR 0x0D]) = l"
  by (simp add: chop_def)

subsection \<open>A message that comes in segments of its own\<close>

text \<open>The next bytes are \<open>R\<close>, in the buffer and in segments of their own; then come the others.\<close>

definition within :: "bytes list \<Rightarrow> goerr \<Rightarrow> bytes \<Rightarrow> bufio \<Rightarrow> bool" where
  "within others x R b \<longleftrightarrow> wi_end (bf_wire b) = x \<and>
     (\<exists>own. wi_segments (bf_wire b) = own @ others \<and> [] \<notin> set own \<and> bf_buf b @ concat own = R)"

lemma within_done: "within others x [] b \<Longrightarrow> b = NewReader \<lparr>wi_segments = others, wi_end = x\<rparr>"
  by (cases b; cases "bf_wire b") (auto simp: within_def NewReader_def, metis list.set_intros(1) neq_Nil_conv)

text \<open>A read of the connection while the message is not complete gets more of it.\<close>

lemma wire_read_within:
  assumes "within others x R b" and "length (bf_buf b) < length R" and "0 < n"
    and "wire_read (bf_wire b) n = (bs, e, w)"
  shows "e = None \<and> bs \<noteq> [] \<and> length bs \<le> n \<and> within others x R \<lparr>bf_buf = bf_buf b @ bs, bf_wire = w\<rparr> \<and>
    length (bf_buf b) + length bs \<le> length R"
proof -
  obtain own where own: "wi_segments (bf_wire b) = own @ others" "[] \<notin> set own" "bf_buf b @ concat own = R"
    "wi_end (bf_wire b) = x" using assms(1) by (auto simp: within_def)
  with assms(2) obtain s ss where s: "own = s # ss" by (cases own) auto
  show ?thesis
  proof (cases "length s \<le> n")
    case True
    with own s assms(4) have "bs = s" "e = None" "w = (bf_wire b)\<lparr>wi_segments := ss @ others\<rparr>"
      by (auto simp: wire_read_def)
    with own s True show ?thesis by (auto simp: within_def)
  next
    case False
    with own s assms(4) have "bs = take n s" "e = None" "w = (bf_wire b)\<lparr>wi_segments := (drop n s # ss) @ others\<rparr>"
      by (auto simp: wire_read_def)
    moreover have "drop n s # ss = drop n s # ss \<and> [] \<notin> set (drop n s # ss) \<and>
      (bf_buf b @ take n s) @ concat (drop n s # ss) = R"
      using own s False by auto
    ultimately show ?thesis using own(4) False assms(3) by (auto simp: within_def intro!: exI [of _ "drop n s # ss"])
  qed
qed

lemma takeWhile_line: "CHR 0x0A \<notin> set l \<Longrightarrow> takeWhile (\<lambda>c. c \<noteq> CHR 0x0A) (l @ CHR 0x0A # r) = l"
  by (induction l) auto

lemma prefix_line:
  assumes "buf @ ys = line @ CHR 0x0A # R" and "CHR 0x0A \<notin> set line"
  shows "takeWhile (\<lambda>c. c \<noteq> CHR 0x0A) buf = (if length line < length buf then line else buf)"
    and "length line < length buf \<Longrightarrow> drop (Suc (length line)) buf @ ys = R"
    and "\<not> length line < length buf \<Longrightarrow> \<exists>l. line = buf @ l \<and> ys = l @ CHR 0x0A # R"
proof -
  from assms(1) have pre: "buf = take (length buf) (line @ CHR 0x0A # R)"
    by (metis append_eq_conv_conj)
  show tw: "takeWhile (\<lambda>c. c \<noteq> CHR 0x0A) buf = (if length line < length buf then line else buf)"
  proof (cases "length line < length buf")
    case True
    then have "buf = line @ CHR 0x0A # take (length buf - Suc (length line)) R"
      using pre by (simp add: take_Cons')
    then show ?thesis using True takeWhile_line [OF assms(2)] by metis
  next
    case False
    then have "buf = take (length buf) line" using pre by simp
    then have "CHR 0x0A \<notin> set buf" using assms(2) by (metis in_set_takeD)
    then show ?thesis using False by (auto simp: takeWhile_eq_all_conv)
  qed
  show "drop (Suc (length line)) buf @ ys = R" if "length line < length buf"
    using arg_cong [OF assms(1), of "drop (Suc (length line))"] that by simp
  show "\<exists>l. line = buf @ l \<and> ys = l @ CHR 0x0A # R" if "\<not> length line < length buf"
    using assms(1) that by (auto simp: append_eq_append_conv2 append_eq_Cons_conv Cons_eq_append_conv)
qed

lemma read_line_within:
  assumes "within others x (line @ CHR 0x0A # R) b" and "CHR 0x0A \<notin> set line"
  shows "\<exists>b'. read_line acc b = Some (acc @ line, None, b') \<and> within others x R b'"
  using assms
proof (induction "2 * length line + 1 - length (bf_buf b)" arbitrary: acc line b rule: less_induct)
  case less
  let ?buf = "bf_buf b" and ?b = "\<lambda>bs w. \<lparr>bf_buf = bf_buf b @ bs, bf_wire = w\<rparr>"
  obtain own where own: "wi_segments (bf_wire b) = own @ others" "[] \<notin> set own" "wi_end (bf_wire b) = x"
    and bytes: "?buf @ concat own = line @ CHR 0x0A # R" using less.prems(1) by (auto simp: within_def)
  note line = prefix_line [OF bytes less.prems(2)]
  show ?case
  proof (cases "length line < length ?buf")
    case True
    with line(1,2) own show ?thesis
      by (auto simp: read_line.simps [of acc b] Let_def within_def intro!: exI [of _ own])
  next
    case False
    then have tw: "takeWhile (\<lambda>c. c \<noteq> CHR 0x0A) ?buf = ?buf" using line(1) by simp
    from False obtain l where l: "line = ?buf @ l" "concat own = l @ CHR 0x0A # R" using line(3) by blast
    show ?thesis
    proof (cases "buffer_size \<le> length ?buf")
      case True
      let ?b' = "b\<lparr>bf_buf := []\<rparr>"
      have "within others x (l @ CHR 0x0A # R) ?b'" using own l by (auto simp: within_def)
      moreover have "2 * length l + 1 - length (bf_buf ?b') < 2 * length line + 1 - length ?buf"
        using True l(1) by (cases ?buf) (simp_all add: buffer_size_def)
      ultimately have "\<exists>b'. read_line (acc @ ?buf) ?b' = Some ((acc @ ?buf) @ l, None, b') \<and> within others x R b'"
        using less.hyps [of l ?b' "acc @ ?buf"] less.prems(2) l(1) by auto
      then show ?thesis
        unfolding read_line.simps [of acc b] Let_def tw using True l(1) by simp
    next
      case small: False
      obtain bs e w where r: "wire_read (bf_wire b) (buffer_size - length ?buf) = (bs, e, w)"
        by (cases "wire_read (bf_wire b) (buffer_size - length ?buf)") auto
      have "length ?buf < length (line @ CHR 0x0A # R)" using False by simp
      from wire_read_within [OF less.prems(1) this _ r] small
      have w: "e = None" "bs \<noteq> []" "within others x (line @ CHR 0x0A # R) (?b bs w)" by auto
      have "2 * length line + 1 - length (bf_buf (?b bs w)) < 2 * length line + 1 - length ?buf"
        using w(2) False by (cases bs) auto
      from less.hyps [OF this w(3) less.prems(2)] show ?thesis
        unfolding read_line.simps [of acc b] Let_def tw using small r w(1) by simp
    qed
  qed
qed

lemma encode_head_Cons: "encode_head (l # ls) @ R = (l @ [CHR 0x0D]) @ CHR 0x0A # (encode_head ls @ R)"
  by (simp add: encode_head_def crlf_def)

lemma read_head_within:
  assumes "list_all plain_line ls" and "within others x (encode_head ls @ R) b" and "ls0 @ ls \<noteq> []"
  shows "\<exists>b'. read_head ls0 b = Some (ls0 @ ls, None, b') \<and> within others x R b'"
  using assms
proof (induction ls arbitrary: ls0 b)
  case Nil
  then have "within others x ([CHR 0x0D] @ CHR 0x0A # R) b" by (simp add: encode_head_def crlf_def)
  from read_line_within [OF this, of "[]"] obtain b' where
    "read_line [] b = Some ([CHR 0x0D], None, b')" "within others x R b'" by auto
  with Nil show ?case by (auto simp: read_head.simps [of ls0 b] chop_def)
next
  case (Cons l ls)
  have "within others x ((l @ [CHR 0x0D]) @ CHR 0x0A # (encode_head ls @ R)) b"
    using Cons.prems(2) by (simp only: encode_head_Cons)
  moreover have l: "CHR 0x0A \<notin> set (l @ [CHR 0x0D])" "l \<noteq> []"
    using Cons.prems(1) by (auto simp: plain_line_def)
  ultimately obtain b1 where b1: "read_line [] b = Some (l @ [CHR 0x0D], None, b1)"
    "within others x (encode_head ls @ R) b1"
    using read_line_within [of others x "l @ [CHR 0x0D]" "encode_head ls @ R" b "[]"] by auto
  from Cons.IH [OF _ b1(2), of "ls0 @ [l]"] Cons.prems(1) obtain b' where
    "read_head (ls0 @ [l]) b1 = Some (ls0 @ l # ls, None, b')" "within others x R b'" by auto
  with b1(1) l(2) show ?case by (auto simp: read_head.simps [of ls0 b] chop_line)
qed

lemma bf_Read_within:
  assumes "within others x R b" and "R \<noteq> []" and "0 < n" and "bf_Read b n = (bs, e, b')"
  shows "e = None \<and> bs \<noteq> [] \<and> length bs \<le> n \<and> (\<exists>R'. R = bs @ R' \<and> within others x R' b')"
proof (cases "bf_buf b = []")
  case False
  with assms have "bs = take n (bf_buf b)" "e = None" "b' = b\<lparr>bf_buf := drop n (bf_buf b)\<rparr>"
    by (auto simp: bf_Read_def)
  with assms(1,3) False show ?thesis by (auto simp: within_def)
next
  case True
  let ?n = "if buffer_size \<le> n then n else buffer_size"
  obtain cs d w where r: "wire_read (bf_wire b) ?n = (cs, d, w)" by (cases "wire_read (bf_wire b) ?n") auto
  have "length (bf_buf b) < length R" "0 < ?n" using True assms(2) by (auto simp: buffer_size_def)
  from wire_read_within [OF assms(1) this r] True have
    w: "d = None" "cs \<noteq> []" "length cs \<le> ?n" "within others x R \<lparr>bf_buf = cs, bf_wire = w\<rparr>" by auto
  then obtain own where own: "wi_segments w = own @ others" "[] \<notin> set own" "cs @ concat own = R" "wi_end w = x"
    by (auto simp: within_def)
  have "bs = take n cs \<and> e = None \<and> b' = \<lparr>bf_buf = drop n cs, bf_wire = w\<rparr>"
    using assms(3,4) True r w(1,3) by (cases b) (auto simp: bf_Read_def split: if_splits)
  with own w(2) assms(3) show ?thesis by (auto simp: within_def)
qed

text \<open>Reading the whole body takes its bytes and nothing after them.\<close>

lemma drain_within:
  assumes "within others x body (lb_bufio r)" and "lb_left r = length body" and "\<And>i. 0 < sizes i"
  shows "\<exists>r'. drain lb_Read sizes i acc r = Some (acc @ body, EOF, r') \<and> within others x [] (lb_bufio r')"
  using assms(1,2)
proof (induction "length body" arbitrary: body r i acc rule: less_induct)
  case less
  show ?case
  proof (cases "body = []")
    case True
    with less.prems show ?thesis by (simp add: drain.simps [of lb_Read sizes i] lb_Read_def)
  next
    case False
    obtain bs e b where r: "bf_Read (lb_bufio r) (min (sizes i) (lb_left r)) = (bs, e, b)"
      by (cases "bf_Read (lb_bufio r) (min (sizes i) (lb_left r))") auto
    have "0 < min (sizes i) (lb_left r)" using assms(3) False less.prems(2) by simp
    from bf_Read_within [OF less.prems(1) False this r] obtain R' where
      bs: "e = None" "bs \<noteq> []" "body = bs @ R'" "within others x R' b" by auto
    have read: "lb_Read r (sizes i) = (bs, if R' = [] then Some EOF else None, \<lparr>lb_bufio = b, lb_left = length R'\<rparr>)"
      using less.prems(2) False r bs by (simp add: lb_Read_def)
    show ?thesis
    proof (cases "R' = []")
      case True
      with read bs show ?thesis by (simp add: drain.simps [of lb_Read sizes i])
    next
      case R': False
      have "length R' < length body" using bs by simp
      from less.hyps [OF this, of "\<lparr>lb_bufio = b, lb_left = length R'\<rparr>" "Suc i" "acc @ bs"] bs
      obtain r' where "drain lb_Read sizes (Suc i) (acc @ bs) \<lparr>lb_bufio = b, lb_left = length R'\<rparr> =
          Some ((acc @ bs) @ R', EOF, r')" "within others x [] (lb_bufio r')" by auto
      with read R' bs(3) show ?thesis by (simp add: drain.simps [of lb_Read sizes i])
    qed
  qed
qed

lemma wire_turn_own:
  assumes "message_ok parse m" and "concat own = encode m" and "[] \<notin> set own"
    and "reads (fst m) \<or> snd m = []" and "\<And>i. 0 < sizes i"
  shows "wire_turn parse reads sizes \<lparr>wi_segments = own @ others, wi_end = x\<rparr> =
    Some (Inr m, \<lparr>wi_segments = others, wi_end = x\<rparr>)"
proof -
  obtain ls body where m: "m = (ls, body)" by (cases m)
  let ?b = "NewReader \<lparr>wi_segments = own @ others, wi_end = x\<rparr>"
  have ok: "ls \<noteq> []" "list_all plain_line ls" "parse ls = Inr (length body)"
    using assms(1) by (simp_all add: message_ok_def m)
  have "within others x (encode_head ls @ body) ?b"
    using assms(2,3) by (auto simp: within_def NewReader_def encode_def m)
  from read_head_within [OF ok(2) this, of "[]"] ok(1) obtain b where
    b: "read_head [] ?b = Some (ls, None, b)" "within others x body b" by auto
  have gone: "bf_wire b' = \<lparr>wi_segments = others, wi_end = x\<rparr>" if "within others x [] b'" for b'
    using within_done [OF that] by (simp add: NewReader_def)
  show ?thesis
  proof (cases "reads ls")
    case True
    from drain_within [of others x body "\<lparr>lb_bufio = b, lb_left = length body\<rparr>" sizes 0 "[]"] b(2) assms(5)
    obtain r' where "drain lb_Read sizes 0 [] \<lparr>lb_bufio = b, lb_left = length body\<rparr> = Some (body, EOF, r')"
      "within others x [] (lb_bufio r')" by auto
    with b(1) ok(1,3) True gone show ?thesis by (simp add: wire_turn_def m)
  next
    case False
    with assms(4) b gone ok(1,3) show ?thesis by (simp add: wire_turn_def m)
  qed
qed

text \<open>(C21) The script of requests that the loop of the proxy is given is what a client on the wire
  gives it, if the client sends a request only after the answer to the one before, its bodies have
  a \<open>Content-Length\<close>, and every body that is not empty is read while the request is answered:
  however the bytes of each message are cut into segments, and whatever the sizes of the reads,
  the turns get exactly the messages that were sent, and nothing is left over.\<close>

theorem lockstep_requests:
  assumes "list_all (message_ok parse) ms"
    and "list_all2 (\<lambda>m own. concat own = encode m \<and> [] \<notin> set own) ms segments"
    and "list_all (\<lambda>m. reads (fst m) \<or> snd m = []) ms" and "\<And>i. 0 < sizes i"
  shows "wire_turns parse reads sizes (length ms) \<lparr>wi_segments = concat segments, wi_end = x\<rparr> =
    Some (ms, \<lparr>wi_segments = [], wi_end = x\<rparr>)"
  using assms(2,1,3)
proof (induction rule: list_all2_induct)
  case Nil
  then show ?case by simp
next
  case (Cons m ms own segments)
  then have "wire_turn parse reads sizes \<lparr>wi_segments = own @ concat segments, wi_end = x\<rparr> =
      Some (Inr m, \<lparr>wi_segments = concat segments, wi_end = x\<rparr>)"
    using assms(4) by (intro wire_turn_own) auto
  with Cons show ?case by simp
qed

subsection \<open>Messages that share a segment\<close>

text \<open>With everything in the buffer the connection is not read.\<close>

lemma read_line_buffered:
  assumes "CHR 0x0A \<notin> set line"
  shows "read_line acc \<lparr>bf_buf = line @ CHR 0x0A # R, bf_wire = w\<rparr> =
    Some (acc @ line, None, \<lparr>bf_buf = R, bf_wire = w\<rparr>)"
  by (simp add: read_line.simps [of acc] takeWhile_line [OF assms])

lemma read_head_buffered:
  assumes "list_all plain_line ls" and "ls0 @ ls \<noteq> []"
  shows "read_head ls0 \<lparr>bf_buf = encode_head ls @ R, bf_wire = w\<rparr> =
    Some (ls0 @ ls, None, \<lparr>bf_buf = R, bf_wire = w\<rparr>)"
  using assms
proof (induction ls arbitrary: ls0)
  case Nil
  then show ?case
    using read_line_buffered [of "[CHR 0x0D]" "[]" R w]
    by (simp add: read_head.simps [of ls0] encode_head_def crlf_def chop_def)
next
  case (Cons l ls)
  then have "CHR 0x0A \<notin> set (l @ [CHR 0x0D])" "l \<noteq> []" by (auto simp: plain_line_def)
  with Cons read_line_buffered [of "l @ [CHR 0x0D]" "[]" "encode_head ls @ R" w] show ?case
    by (simp add: read_head.simps [of ls0] encode_head_Cons chop_line)
qed

lemma drain_buffered:
  assumes "\<And>i. 0 < sizes i"
  shows "\<exists>r'. drain lb_Read sizes i acc \<lparr>lb_bufio = \<lparr>bf_buf = body @ R, bf_wire = w\<rparr>, lb_left = length body\<rparr> =
    Some (acc @ body, EOF, r') \<and> bf_wire (lb_bufio r') = w"
proof (induction "length body" arbitrary: body i acc rule: less_induct)
  case less
  let ?r = "\<lparr>lb_bufio = \<lparr>bf_buf = body @ R, bf_wire = w\<rparr>, lb_left = length body\<rparr>"
  show ?case
  proof (cases "body = []")
    case True
    then show ?thesis by (simp add: drain.simps [of lb_Read sizes i] lb_Read_def)
  next
    case False
    let ?k = "min (sizes i) (length body)"
    have k: "0 < ?k" using assms False by simp
    have read: "lb_Read ?r (sizes i) = (take ?k body, if length body \<le> ?k then Some EOF else None,
        \<lparr>lb_bufio = \<lparr>bf_buf = drop ?k body @ R, bf_wire = w\<rparr>, lb_left = length (drop ?k body)\<rparr>)"
      using False k by (auto simp: lb_Read_def bf_Read_def min_def)
    show ?thesis
    proof (cases "length body \<le> ?k")
      case True
      with read show ?thesis by (simp add: drain.simps [of lb_Read sizes i])
    next
      case more: False
      have "length (drop ?k body) < length body" using k False by simp
      from less.hyps [OF this, of "Suc i" "acc @ take ?k body"] read more show ?thesis
        by (simp add: drain.simps [of lb_Read sizes i])
    qed
  qed
qed

text \<open>The first read puts a segment that is short enough into the buffer.\<close>

lemma read_head_fill:
  assumes "s \<noteq> []" and "length s \<le> buffer_size"
  shows "read_head ls (NewReader \<lparr>wi_segments = s # rest, wi_end = x\<rparr>) =
    read_head ls \<lparr>bf_buf = s, bf_wire = \<lparr>wi_segments = rest, wi_end = x\<rparr>\<rparr>"
proof -
  have "read_line [] (NewReader \<lparr>wi_segments = s # rest, wi_end = x\<rparr>) =
      read_line [] \<lparr>bf_buf = s, bf_wire = \<lparr>wi_segments = rest, wi_end = x\<rparr>\<rparr>"
    using assms by (subst read_line.simps) (simp add: NewReader_def wire_read_def buffer_size_def)
  then show ?thesis by (simp add: read_head.simps [of ls])
qed

text \<open>(C22) Requests that are pipelined get lost: when a segment holds a message and bytes \<open>y\<close> of the
  next ones, the turn gets the message, but \<open>y\<close> is in the buffer of its reader and is dropped
  with it; the next turn starts with the segment after it.\<close>

theorem pipelined_bytes_lost:
  assumes "message_ok parse m" and "reads (fst m) \<or> snd m = []" and "\<And>i. 0 < sizes i"
    and "length (encode m @ y) \<le> buffer_size"
  shows "wire_turn parse reads sizes \<lparr>wi_segments = (encode m @ y) # rest, wi_end = x\<rparr> =
    Some (Inr m, \<lparr>wi_segments = rest, wi_end = x\<rparr>)"
proof -
  obtain ls body where m: "m = (ls, body)" by (cases m)
  let ?w = "\<lparr>wi_segments = rest, wi_end = x\<rparr>"
  have ok: "ls \<noteq> []" "list_all plain_line ls" "parse ls = Inr (length body)"
    using assms(1) by (simp_all add: message_ok_def m)
  have "encode m @ y \<noteq> []" by (simp add: encode_def encode_head_def crlf_def)
  from read_head_fill [OF this assms(4)] read_head_buffered [OF ok(2), of "[]" "body @ y" ?w] ok(1)
  have head: "read_head [] (NewReader \<lparr>wi_segments = (encode m @ y) # rest, wi_end = x\<rparr>) =
      Some (ls, None, \<lparr>bf_buf = body @ y, bf_wire = ?w\<rparr>)" by (simp add: encode_def m)
  show ?thesis
  proof (cases "reads ls")
    case True
    from drain_buffered [of sizes 0 "[]" body y ?w] assms(3) obtain r' where
      "drain lb_Read sizes 0 [] \<lparr>lb_bufio = \<lparr>bf_buf = body @ y, bf_wire = ?w\<rparr>, lb_left = length body\<rparr> =
        Some (body, EOF, r')" "bf_wire (lb_bufio r') = ?w" by auto
    with head True ok(1,3) show ?thesis by (simp add: wire_turn_def m)
  next
    case False
    with assms(2) head ok(1,3) show ?thesis by (simp add: wire_turn_def m)
  qed
qed

text \<open>(C23) A body that is not read becomes a request: when the answer to a request does not need its body
  (clearing rules, \<open>/ca.pem\<close> and unknown paths of \<open>handleProxyAPI\<close>) and the body comes in a segment
  of its own, the next turn parses the body; if it is the text of a request, that request is served.\<close>

theorem unread_body_is_request:
  assumes "message_ok parse (ls, encode m)" and "\<not> reads ls" and "message_ok parse m"
    and "reads (fst m) \<or> snd m = []" and "\<And>i. 0 < sizes i"
  shows "wire_turns parse reads sizes 2 \<lparr>wi_segments = [encode_head ls, encode m], wi_end = x\<rparr> =
    Some ([(ls, []), m], \<lparr>wi_segments = [], wi_end = x\<rparr>)"
proof -
  have ok: "ls \<noteq> []" "list_all plain_line ls" "parse ls = Inr (length (encode m))"
    using assms(1) by (simp_all add: message_ok_def)
  let ?w = "\<lparr>wi_segments = [encode_head ls, encode m], wi_end = x\<rparr>"
  have pos: "encode_head ls \<noteq> []" "encode m \<noteq> []" by (simp_all add: encode_def encode_head_def crlf_def)
  have "within [encode m] x (encode_head ls @ []) (NewReader ?w)"
    using pos by (auto simp: within_def NewReader_def intro!: exI [of _ "[encode_head ls]"])
  from read_head_within [OF ok(2) this, of "[]"] ok(1) obtain b where
    "read_head [] (NewReader ?w) = Some (ls, None, b)" "within [encode m] x [] b" by auto
  with within_done have "read_head [] (NewReader ?w) =
      Some (ls, None, NewReader \<lparr>wi_segments = [encode m], wi_end = x\<rparr>)" by blast
  with ok(1,3) assms(2) have one: "wire_turn parse reads sizes ?w =
      Some (Inr (ls, []), \<lparr>wi_segments = [encode m], wi_end = x\<rparr>)"
    by (simp add: wire_turn_def NewReader_def)
  have "wire_turn parse reads sizes \<lparr>wi_segments = [encode m] @ [], wi_end = x\<rparr> =
      Some (Inr m, \<lparr>wi_segments = [], wi_end = x\<rparr>)"
    using assms(3-5) pos by (intro wire_turn_own) auto
  with one show ?thesis by (simp add: numeral_2_eq_2)
qed

subsection \<open>Witnesses\<close>

definition content_length :: "bytes list \<Rightarrow> goerr + nat" where
  "content_length ls =
     (case find (\<lambda>l. take 16 l = ''Content-Length: '') ls of
        None \<Rightarrow> Inr 0
      | Some l \<Rightarrow> (case Atoi (drop 16 l) of None \<Rightarrow> Inl (Err ''bad Content-Length'') | Some n \<Rightarrow> Inr (nat n)))"

definition sample_post :: message where
  "sample_post = ([''POST / HTTP/1.1'', ''Content-Length: 2''], ''hi'')"

definition sample_get :: message where
  "sample_get = ([''GET / HTTP/1.0''], [])"

definition sample_clear :: "bytes list" where
  "sample_clear = [''POST /api/rules/clear HTTP/1.1'', ''Content-Length: 18'']"

lemma sample_messages:
  "message_ok content_length sample_post" "message_ok content_length sample_get"
  "message_ok content_length (sample_clear, encode sample_get)"
  by (simp_all add: message_ok_def sample_post_def sample_get_def sample_clear_def plain_line_def content_length_def
      Atoi_def digit_val_def encode_def encode_head_def crlf_def)

theorem lockstep_requests_witness:
  "wire_turns content_length (\<lambda>_. True) (\<lambda>_. 512) 2
     \<lparr>wi_segments = [encode_head (fst sample_post), ''h'', ''i'', encode sample_get], wi_end = EOF\<rparr> =
   Some ([sample_post, sample_get], \<lparr>wi_segments = [], wi_end = EOF\<rparr>)"
proof -
  have "encode sample_post = encode_head (fst sample_post) @ ''hi''" by (simp add: encode_def sample_post_def)
  moreover have "[] \<noteq> encode m" "[] \<noteq> encode_head ls" for m ls
    by (simp_all add: encode_def encode_head_def crlf_def)
  ultimately have "list_all2 (\<lambda>m own. concat own = encode m \<and> [] \<notin> set own) [sample_post, sample_get]
      [[encode_head (fst sample_post), ''h'', ''i''], [encode sample_get]]" by simp
  from lockstep_requests [OF _ this, of content_length "\<lambda>_. True" "\<lambda>_. 512" EOF] sample_messages
  show ?thesis by (simp add: numeral_2_eq_2)
qed

theorem pipelined_bytes_lost_witness:
  "wire_turn content_length (\<lambda>_. True) (\<lambda>_. 512)
     \<lparr>wi_segments = [encode sample_get @ encode sample_post], wi_end = EOF\<rparr> =
   Some (Inr sample_get, \<lparr>wi_segments = [], wi_end = EOF\<rparr>)"
  by (rule pipelined_bytes_lost)
     (simp_all add: sample_messages, simp add: sample_get_def sample_post_def encode_def encode_head_def crlf_def
       buffer_size_def)

theorem unread_body_is_request_witness:
  "wire_turns content_length (\<lambda>ls. ls \<noteq> sample_clear) (\<lambda>_. 512) 2
     \<lparr>wi_segments = [encode_head sample_clear, encode sample_get], wi_end = EOF\<rparr> =
   Some ([(sample_clear, []), sample_get], \<lparr>wi_segments = [], wi_end = EOF\<rparr>)"
proof (rule unread_body_is_request)
  show "fst sample_get \<noteq> sample_clear \<or> snd sample_get = []" by (simp add: sample_get_def)
qed (simp_all add: sample_messages)

end
