(* ===== verification/Isolation.thy ===== *)
theory Isolation
  imports Sessions
begin

text \<open>
  The sessions of \<open>main.go\<close> under the events of many clients, in any order: what a client can see
  of them (when it was last seen, its rules, and its controllers by their names) depends on the
  events that name its address, and on the cleaner, alone.  Controllers are shared objects
  in one store, so this needs that no two names ever refer to the same one.
\<close>

subsection \<open>Events\<close>

datatype session_event =
  Seen string int
| SetRules string RewriteRules
| ClearRules string
| Attach string string "64 word" int
| Consume string string int int
| Clean int int "string list"

text \<open>A body that is throttled attaches to its controller, and consumes bytes of it later, at the
  time \<open>now\<close>; \<open>unrep\<close> as in \<open>Throttle\<close>.  A body whose controller has been dropped since goes on
  with the dropped object, which no name refers to any more: no event, by \<open>dropped_reads\<close> below.\<close>

definition attach :: "string \<Rightarrow> string \<Rightarrow> 64 word \<Rightarrow> int \<Rightarrow> sessions \<Rightarrow> sessions" where
  "attach ip key rate now ss = (let (i, ss) = find_controller ip key rate now ss in add_reader i ss)"

definition controller_of :: "string \<Rightarrow> string \<Rightarrow> sessions \<Rightarrow> nat option" where
  "controller_of ip key ss = (case ss_throttledConnections ss ip of None \<Rightarrow> None | Some c \<Rightarrow> c key)"

definition consume :: "int \<Rightarrow> string \<Rightarrow> string \<Rightarrow> int \<Rightarrow> int \<Rightarrow> sessions \<Rightarrow> sessions" where
  "consume unrep ip key bytes now ss =
     (case controller_of ip key ss of
        None \<Rightarrow> ss
      | Some i \<Rightarrow>
          ss\<lparr>ss_controllers := (ss_controllers ss)[i := fst (ConsumeBytes unrep bytes (ss_controllers ss ! i, now))]\<rparr>)"

fun session_exec :: "int \<Rightarrow> session_event \<Rightarrow> sessions \<Rightarrow> sessions" where
  "session_exec unrep (Seen ip now) ss = store_used ip now ss"
| "session_exec unrep (SetRules ip rules) ss = store_rules ip rules ss"
| "session_exec unrep (ClearRules ip) ss = clear_rules ip ss"
| "session_exec unrep (Attach ip key rate now) ss = attach ip key rate now ss"
| "session_exec unrep (Consume ip key bytes now) ss = consume unrep ip key bytes now ss"
| "session_exec unrep (Clean expiration now keys) ss = clean_round expiration now keys ss"

definition session_run :: "int \<Rightarrow> session_event list \<Rightarrow> sessions \<Rightarrow> sessions" where
  "session_run unrep es ss = foldl (\<lambda>ss e. session_exec unrep e ss) ss es"

fun concerns :: "string \<Rightarrow> session_event \<Rightarrow> bool" where
  "concerns ip (Seen ip' _) = (ip' = ip)"
| "concerns ip (SetRules ip' _) = (ip' = ip)"
| "concerns ip (ClearRules ip') = (ip' = ip)"
| "concerns ip (Attach ip' _ _ _) = (ip' = ip)"
| "concerns ip (Consume ip' _ _ _) = (ip' = ip)"
| "concerns ip (Clean _ _ _) = True"

fun clean_distinct :: "session_event \<Rightarrow> bool" where
  "clean_distinct (Clean _ _ keys) = distinct keys"
| "clean_distinct _ = True"

subsection \<open>What a client sees\<close>

record view =
  vw_used :: "int option"
  vw_rules :: "RewriteRules option"
  vw_throttled :: bool
  vw_controllers :: "string \<Rightarrow> ThrottleController option"

definition view_of :: "string \<Rightarrow> sessions \<Rightarrow> view" where
  "view_of ip ss =
     \<lparr>vw_used = ss_lastTimeUsed ss ip, vw_rules = ss_rewriteRules ss ip,
      vw_throttled = (ss_throttledConnections ss ip \<noteq> None),
      vw_controllers = (\<lambda>key. map_option (nth (ss_controllers ss)) (controller_of ip key ss))\<rparr>"

text \<open>Every name refers to a controller of its own in the store.\<close>

definition own_controllers :: "sessions \<Rightarrow> bool" where
  "own_controllers ss \<longleftrightarrow> sessions_ok ss \<and>
     (\<forall>ip ip' key key' i. controller_of ip key ss = Some i \<longrightarrow> controller_of ip' key' ss = Some i \<longrightarrow>
        ip = ip' \<and> key = key')"

lemma sessions_ok_iff:
  "sessions_ok ss \<longleftrightarrow> (\<forall>ip key i. controller_of ip key ss = Some i \<longrightarrow> i < length (ss_controllers ss))"
  by (fastforce simp: sessions_ok_def controller_of_def split: option.splits)

lemma own_range: "own_controllers ss \<Longrightarrow> controller_of ip key ss = Some i \<Longrightarrow> i < length (ss_controllers ss)"
  by (auto simp: own_controllers_def sessions_ok_iff)

lemma own_unique:
  "own_controllers ss \<Longrightarrow> controller_of ip key ss = Some i \<Longrightarrow> controller_of ip' key' ss = Some i \<Longrightarrow>
     ip = ip' \<and> key = key'"
  by (auto simp: own_controllers_def)

lemma own_no [simp]: "own_controllers no_sessions"
  by (simp add: own_controllers_def controller_of_def no_sessions_def) (simp add: sessions_ok_def)

text \<open>Dropping names, or changing what they refer to, keeps this.\<close>

lemma own_drop:
  assumes "own_controllers ss" and "\<And>ip key i. controller_of ip key ss' = Some i \<Longrightarrow> controller_of ip key ss = Some i"
    and "length (ss_controllers ss') = length (ss_controllers ss)"
  shows "own_controllers ss'"
proof -
  have "i < length (ss_controllers ss')" if "controller_of ip key ss' = Some i" for ip key i
    using own_range [OF assms(1) assms(2) [OF that]] assms(3) by simp
  then have "sessions_ok ss'"
    by (simp add: sessions_ok_iff)
  then show ?thesis
    using assms(1,2) unfolding own_controllers_def by blast
qed

text \<open>What the events are meant to do, for one client: a state machine of its own.\<close>

definition view_stale :: "int \<Rightarrow> int \<Rightarrow> view \<Rightarrow> bool" where
  "view_stale expiration now v = (case vw_used v of None \<Rightarrow> False | Some used \<Rightarrow> used + expiration < now)"

fun view_exec :: "int \<Rightarrow> string \<Rightarrow> session_event \<Rightarrow> view \<Rightarrow> view" where
  "view_exec unrep ip (Seen _ now) v = v\<lparr>vw_used := Some now\<rparr>"
| "view_exec unrep ip (SetRules _ rules) v =
     v\<lparr>vw_rules := (if rules = [] then None else Some rules), vw_throttled := False, vw_controllers := Map.empty\<rparr>"
| "view_exec unrep ip (ClearRules _) v =
     v\<lparr>vw_rules := None, vw_throttled := False, vw_controllers := Map.empty\<rparr>"
| "view_exec unrep ip (Attach _ key rate now) v =
     v\<lparr>vw_throttled := True,
       vw_controllers := (vw_controllers v)(key \<mapsto>
         tc_Add (case vw_controllers v key of None \<Rightarrow> NewThrottleController rate now | Some tc \<Rightarrow> tc))\<rparr>"
| "view_exec unrep ip (Consume _ key bytes now) v =
     v\<lparr>vw_controllers := (\<lambda>k. if k = key
         then map_option (\<lambda>tc. fst (ConsumeBytes unrep bytes (tc, now))) (vw_controllers v k) else vw_controllers v k)\<rparr>"
| "view_exec unrep ip (Clean expiration now keys) v =
     (if ip \<in> set keys \<and> view_stale expiration now v
      then \<lparr>vw_used = None, vw_rules = None, vw_throttled = False, vw_controllers = Map.empty\<rparr> else v)"

definition view_run :: "int \<Rightarrow> string \<Rightarrow> session_event list \<Rightarrow> view \<Rightarrow> view" where
  "view_run unrep ip es v = foldl (\<lambda>v e. view_exec unrep ip e v) v es"

definition step_ok :: "int \<Rightarrow> session_event \<Rightarrow> sessions \<Rightarrow> bool" where
  "step_ok unrep e ss \<longleftrightarrow> own_controllers (session_exec unrep e ss) \<and>
     (\<forall>ip. view_of ip (session_exec unrep e ss) =
        (if concerns ip e then view_exec unrep ip e (view_of ip ss) else view_of ip ss))"

lemma step_Seen: "own_controllers ss \<Longrightarrow> step_ok unrep (Seen ip now) ss"
  unfolding step_ok_def
  by (intro conjI allI)
     (erule own_drop, simp_all add: store_used_def controller_of_def view_of_def)

lemma step_SetRules: "own_controllers ss \<Longrightarrow> step_ok unrep (SetRules ip rules) ss"
  unfolding step_ok_def
  by (intro conjI allI)
     (erule own_drop, auto simp: store_rules_def controller_of_def view_of_def split: if_splits)

lemma step_ClearRules: "own_controllers ss \<Longrightarrow> step_ok unrep (ClearRules ip) ss"
  unfolding step_ok_def
  by (intro conjI allI)
     (erule own_drop, auto simp: clear_rules_def controller_of_def view_of_def split: if_splits)

lemma step_Clean:
  assumes "own_controllers ss" and "distinct keys"
  shows "step_ok unrep (Clean expiration now keys) ss"
proof -
  let ?ss = "clean_round expiration now keys ss"
  note maps = clean_round_maps [OF assms(2), of expiration now ss]
  have "own_controllers ?ss"
    by (rule own_drop [OF assms(1)]) (auto simp: maps controller_of_def split: if_splits)
  moreover have "view_of ip ?ss = view_exec unrep ip (Clean expiration now keys) (view_of ip ss)" for ip
    by (auto simp: maps view_of_def controller_of_def view_stale_def stale_def)
  ultimately show ?thesis by (simp add: step_ok_def)
qed

lemma step_Consume:
  assumes "own_controllers ss"
  shows "step_ok unrep (Consume ip key bytes now) ss"
proof (cases "controller_of ip key ss")
  case None
  then show ?thesis
    using assms by (auto simp: step_ok_def consume_def view_of_def)
next
  case (Some i)
  let ?tc = "fst (ConsumeBytes unrep bytes (ss_controllers ss ! i, now))"
  let ?ss = "ss\<lparr>ss_controllers := (ss_controllers ss)[i := ?tc]\<rparr>"
  have same: "controller_of ip' key' ?ss = controller_of ip' key' ss" for ip' key'
    by (simp add: controller_of_def)
  have "own_controllers ?ss" by (rule own_drop [OF assms]) (simp_all add: same)
  moreover have "map_option (nth (ss_controllers ?ss)) (controller_of ip' key' ss) =
      (if ip' = ip \<and> key' = key then Some ?tc
       else map_option (nth (ss_controllers ss)) (controller_of ip' key' ss))" for ip' key'
    using own_unique [OF assms Some, of ip' key'] own_range [OF assms Some] Some
    by (cases "controller_of ip' key' ss") (auto simp: nth_list_update)
  ultimately show ?thesis
    using Some by (auto simp: step_ok_def consume_def view_of_def same intro!: ext)
qed

lemma step_Attach:
  assumes "own_controllers ss"
  shows "step_ok unrep (Attach ip key rate now) ss"
proof (cases "controller_of ip key ss")
  case (Some i)
  let ?ss = "ss\<lparr>ss_controllers := (ss_controllers ss)[i := tc_Add (ss_controllers ss ! i)]\<rparr>"
  have eq: "attach ip key rate now ss = ?ss"
    using Some by (auto simp: attach_def find_controller_def find_client_def add_reader_def controller_of_def
        split: option.splits)
  have same: "controller_of ip' key' ?ss = controller_of ip' key' ss" for ip' key'
    by (simp add: controller_of_def)
  have "own_controllers ?ss" by (rule own_drop [OF assms]) (simp_all add: same)
  moreover have "map_option (nth (ss_controllers ?ss)) (controller_of ip' key' ss) =
      (if ip' = ip \<and> key' = key then Some (tc_Add (ss_controllers ss ! i))
       else map_option (nth (ss_controllers ss)) (controller_of ip' key' ss))" for ip' key'
    using own_unique [OF assms Some, of ip' key'] own_range [OF assms Some] Some
    by (cases "controller_of ip' key' ss") (auto simp: nth_list_update)
  moreover have "ss_throttledConnections ss ip \<noteq> None"
    using Some by (auto simp: controller_of_def split: option.splits)
  ultimately show ?thesis
    using Some by (auto simp: step_ok_def eq view_of_def same intro!: ext)
next
  case None
  let ?i = "length (ss_controllers ss)" and ?tc = "NewThrottleController rate now"
  let ?ss = "attach ip key rate now ss"
  have conn: "controller_of ip' key' ?ss =
      (if ip' = ip \<and> key' = key then Some ?i else controller_of ip' key' ss)" for ip' key'
    using None by (auto simp: attach_def find_controller_def find_client_def add_reader_def controller_of_def Let_def
        split: option.splits)
  have store: "ss_controllers ?ss = ss_controllers ss @ [tc_Add ?tc]"
    using None by (auto simp: attach_def find_controller_def find_client_def add_reader_def controller_of_def Let_def
        split: option.splits)
  have rest: "ss_lastTimeUsed ?ss = ss_lastTimeUsed ss" "ss_rewriteRules ?ss = ss_rewriteRules ss"
    "ss_throttledConnections ?ss ip' = None \<longleftrightarrow> ip' \<noteq> ip \<and> ss_throttledConnections ss ip' = None" for ip'
    using None by (auto simp: attach_def find_controller_def find_client_def add_reader_def controller_of_def Let_def
        split: option.splits)
  have "sessions_ok ?ss"
    using own_range [OF assms] by (auto simp: sessions_ok_iff conn store less_Suc_eq split: if_splits)
  moreover have "\<not> controller_of ip' key' ss = Some ?i" for ip' key'
    using own_range [OF assms, of ip' key' ?i] by auto
  ultimately have "own_controllers ?ss"
    using own_unique [OF assms] unfolding own_controllers_def conn by (metis option.inject)
  moreover have "map_option (nth (ss_controllers ?ss)) (controller_of ip' key' ?ss) =
      (if ip' = ip \<and> key' = key then Some (tc_Add ?tc)
       else map_option (nth (ss_controllers ss)) (controller_of ip' key' ss))" for ip' key'
    using own_range [OF assms, of ip' key']
    by (cases "controller_of ip' key' ss") (auto simp: conn store nth_append)
  ultimately show ?thesis
    using None by (auto simp: step_ok_def view_of_def rest intro!: ext)
qed

text \<open>What happens to a dropped controller is seen by nobody, and it is never found again.\<close>

lemma dropped_reads:
  assumes own: "own_controllers ss" and dropped: "\<And>ip key. controller_of ip key ss \<noteq> Some i"
  shows "own_controllers (ss\<lparr>ss_controllers := (ss_controllers ss)[i := tc]\<rparr>)"
    and "view_of ip (ss\<lparr>ss_controllers := (ss_controllers ss)[i := tc]\<rparr>) = view_of ip ss"
proof -
  let ?ss = "ss\<lparr>ss_controllers := (ss_controllers ss)[i := tc]\<rparr>"
  have same: "controller_of ip' key' ?ss = controller_of ip' key' ss" for ip' key'
    by (simp add: controller_of_def)
  show "own_controllers ?ss" by (rule own_drop [OF own]) (simp_all add: same)
  have "map_option (nth (ss_controllers ?ss)) (controller_of ip key ss) =
      map_option (nth (ss_controllers ss)) (controller_of ip key ss)" for key
    using dropped [of ip key] by (cases "controller_of ip key ss") auto
  then show "view_of ip ?ss = view_of ip ss" by (simp add: view_of_def same)
qed

lemma dropped_stays:
  assumes dropped: "\<And>ip key. controller_of ip key ss \<noteq> Some i" and range: "i < length (ss_controllers ss)"
    and "clean_distinct e"
  shows "controller_of ip key (session_exec unrep e ss) \<noteq> Some i"
proof -
  have gone: "c key \<noteq> Some i" if "ss_throttledConnections ss ip = Some c" for ip c key
    using dropped [of ip key] that by (simp add: controller_of_def)
  show ?thesis
    using range \<open>clean_distinct e\<close>
    by (cases e)
      (auto simp: controller_of_def attach_def find_controller_def find_client_def add_reader_def Let_def gone
        consume_def store_used_def store_rules_def clear_rules_def clean_round_maps split: option.splits)
qed

lemma session_step:
  assumes "own_controllers ss" and "clean_distinct e"
  shows "step_ok unrep e ss"
proof (cases e)
  case (Clean expiration now keys)
  with step_Clean assms show ?thesis by simp
qed (use assms in \<open>simp_all add: step_Seen step_SetRules step_ClearRules step_Attach step_Consume\<close>)

lemma session_run_view:
  "own_controllers ss \<Longrightarrow> list_all clean_distinct es \<Longrightarrow>
    view_of ip (session_run unrep es ss) = view_run unrep ip (filter (concerns ip) es) (view_of ip ss)"
proof (induction es arbitrary: ss)
  case (Cons e es)
  then have "step_ok unrep e ss" using session_step by simp
  then have "own_controllers (session_exec unrep e ss)" "view_of ip (session_exec unrep e ss) =
      (if concerns ip e then view_exec unrep ip e (view_of ip ss) else view_of ip ss)"
    by (simp_all add: step_ok_def)
  with Cons.IH [OF this(1)] Cons.prems(2) show ?case by (simp add: session_run_def view_run_def)
qed (simp add: session_run_def view_run_def)

text \<open>(C24) Clients are isolated: after any events of any number of clients, in any order, what the proxy
  keeps for an address is what a state machine of this client alone has made of the events that
  name it (and of the cleaner); all other events could as well not have happened.\<close>

theorem sessions_isolated:
  assumes "list_all clean_distinct es"
  shows "view_of ip (session_run unrep es no_sessions) =
      view_run unrep ip (filter (concerns ip) es) (view_of ip no_sessions) \<and>
    view_of ip (session_run unrep es no_sessions) =
      view_of ip (session_run unrep (filter (concerns ip) es) no_sessions)"
proof -
  have "list_all clean_distinct (filter (concerns ip) es)"
    using assms by (simp add: list_all_iff)
  with session_run_view [OF own_no, of "filter (concerns ip) es" ip unrep]
    session_run_view [OF own_no assms, of ip unrep]
  show ?thesis by simp
qed

definition sample_events :: "session_event list" where
  "sample_events =
     [Seen ''a'' 1, Attach ''a'' ''k'' 8 2, Attach ''b'' ''k'' 16 2, Consume ''b'' ''k'' 4 3, ClearRules ''b'',
      Seen ''b'' 4, Attach ''b'' ''k'' 32 5, Clean 10 12 [''b'', ''a''], Attach ''a'' ''k'' 64 13]"

theorem sessions_isolated_witness:
  "view_of ''a'' (session_run 0 sample_events no_sessions) =
   view_of ''a'' (session_run 0 [Seen ''a'' 1, Attach ''a'' ''k'' 8 2, Clean 10 12 [''b'', ''a''], Attach ''a'' ''k'' 64 13]
     no_sessions)"
proof -
  have "list_all clean_distinct sample_events" by (simp add: sample_events_def)
  note own = sessions_isolated [OF this, of "''a''" 0, THEN conjunct2]
  have "filter (concerns ''a'') sample_events =
      [Seen ''a'' 1, Attach ''a'' ''k'' 8 2, Clean 10 12 [''b'', ''a''], Attach ''a'' ''k'' 64 13]"
    by (simp add: sample_events_def)
  with own show ?thesis by metis
qed

end
