(* ===== verification/ApiRequest.thy ===== *)
theory ApiRequest
  imports ApiRules
begin

text \<open>
  What the rules of a client do to a request on its way to the server: the loop over the rules in
  the function given to \<open>OnRequest\<close>, and then \<open>RoundTrip\<close>, which delimits the body again.
\<close>

subsection \<open>What the rules mean for a request\<close>

definition request_body_rules :: "string \<Rightarrow> Entry list \<Rightarrow> Rule list" where
  "request_body_rules originalURL entries =
     concat (map (\<lambda>entry. ty_Body (wh_Request (en_Rewrite entry))) (filter (matches originalURL) entries))"

text \<open>The URL and the header, entry by entry; a rewritten URL that does not parse ends it.\<close>

fun rewrite_targets :: "api \<Rightarrow> url \<times> header \<Rightarrow> Entry list \<Rightarrow> (url \<times> header) option" where
  "rewrite_targets ae t [] = Some t"
| "rewrite_targets ae (u, h) (entry # entries) =
     (let rules = wh_Request (en_Rewrite entry)
      in case ae_urlParse ae (foldl applyRule (ae_urlString ae u) (ty_URL rules)) of
           Inl _ \<Rightarrow> None
         | Inr u \<Rightarrow> rewrite_targets ae (u, AlterHeader (ae_walk ae h) h (ty_Header rules)) entries)"

text \<open>What no rule changes.\<close>

definition same_rest :: "'b request \<Rightarrow> 'b request \<Rightarrow> bool" where
  "same_rest r r' \<longleftrightarrow> rq_Method r' = rq_Method r \<and> rq_ProtoMajor r' = rq_ProtoMajor r \<and>
     rq_ProtoMinor r' = rq_ProtoMinor r \<and> rq_Close r' = rq_Close r \<and>
     rq_TransferEncoding r' = rq_TransferEncoding r"

definition request_is :: "rbody request \<Rightarrow> url \<times> header \<Rightarrow> bytes \<Rightarrow> goerr \<Rightarrow> res list \<Rightarrow> bool" where
  "request_is r t bs x rs \<longleftrightarrow> (rq_URL r, rq_Header r) = t \<and> body_is (rq_Body r) bs x rs"

lemma request_entry_is:
  assumes "request_is req (u, h) bs x rs" and "\<forall>rule \<in> set (ty_Body (wh_Request (en_Rewrite entry))). streamable rule"
  shows "case ae_urlParse ae (foldl applyRule (ae_urlString ae u) (ty_URL (wh_Request (en_Rewrite entry)))) of
      Inl _ \<Rightarrow> request_entry ae ip now rx entry req ss = Ret (None, ss)
    | Inr u' \<Rightarrow> \<exists>req' ss'. request_entry ae ip now rx entry req ss = Ret (Some req', ss') \<and> same_rest req req' \<and>
        request_is req' (u', AlterHeader (ae_walk ae h) h (ty_Header (wh_Request (en_Rewrite entry))))
          (foldl applyRule bs (ty_Body (wh_Request (en_Rewrite entry))))
          (last_error (ty_Body (wh_Request (en_Rewrite entry))) x) rs \<and>
        rq_ContentLength req' = (if ty_Body (wh_Request (en_Rewrite entry)) \<noteq> [] then - 1 else rq_ContentLength req)"
proof -
  let ?key = "''rq'' @ [CHR 0x0A] @ rx_expr rx"
  from assms(1) have b: "rq_URL req = u" "rq_Header req = h" "body_is (rq_Body req) bs x rs"
    by (simp_all add: request_is_def)
  from alter_message_body_is [OF b(3) assms(2), of ip ?key "en_UploadSpeed entry" now ss]
  obtain body' ss' where a: "alter_message_body (ty_Body (wh_Request (en_Rewrite entry))) ip ?key
      (en_UploadSpeed entry) now (rq_Body req) ss = Ret (body', ss')"
    "body_is body' (foldl applyRule bs (ty_Body (wh_Request (en_Rewrite entry))))
      (last_error (ty_Body (wh_Request (en_Rewrite entry))) x) rs" by blast
  then show ?thesis
    by (auto simp: request_entry_def AlterURL_def Let_def b(1,2) same_rest_def request_is_def split: sum.split)
qed

lemma request_entries_is:
  assumes "\<forall>entry \<in> set entries. en_URL entry \<noteq> None"
    and "\<forall>rule \<in> set (request_body_rules url entries). streamable rule" and "request_is req t bs x rs"
  shows "case rewrite_targets ae t (filter (matches url) entries) of
      None \<Rightarrow> \<exists>ss'. request_entries ae ip now url entries req ss = Ret (None, ss')
    | Some t' \<Rightarrow> \<exists>req' ss'. request_entries ae ip now url entries req ss = Ret (Some req', ss') \<and> same_rest req req' \<and>
        request_is req' t' (foldl applyRule bs (request_body_rules url entries))
          (last_error (request_body_rules url entries) x) rs \<and>
        rq_ContentLength req' = (if request_body_rules url entries \<noteq> [] then - 1 else rq_ContentLength req)"
  using assms
proof (induction entries arbitrary: req t ss bs x)
  case Nil
  then show ?case by (simp add: request_body_rules_def same_rest_def)
next
  case (Cons entry entries)
  from Cons.prems(1) obtain rx where rx: "en_URL entry = Some rx" by auto
  obtain u h where t: "t = (u, h)" by (cases t)
  show ?case
  proof (cases "MatchString rx url")
    case False
    then have br: "request_body_rules url (entry # entries) = request_body_rules url entries"
      and tg: "filter (matches url) (entry # entries) = filter (matches url) entries"
      and run: "request_entries ae ip now url (entry # entries) req ss = request_entries ae ip now url entries req ss"
      by (simp_all add: request_body_rules_def matches_def rx)
    show ?thesis
      unfolding run tg br
      by (rule Cons.IH) (use Cons.prems br in simp_all)
  next
    case True
    let ?rules = "ty_Body (wh_Request (en_Rewrite entry))"
    let ?h = "AlterHeader (ae_walk ae h) h (ty_Header (wh_Request (en_Rewrite entry)))"
    have m: "matches url entry" using True by (simp add: matches_def rx)
    have br: "request_body_rules url (entry # entries) = ?rules @ request_body_rules url entries"
      using m by (simp add: request_body_rules_def)
    have st: "\<forall>rule \<in> set ?rules. streamable rule" "\<forall>rule \<in> set (request_body_rules url entries). streamable rule"
      using Cons.prems(2) by (auto simp: br)
    have prems: "\<forall>entry \<in> set entries. en_URL entry \<noteq> None" using Cons.prems(1) by simp
    note one = request_entry_is [OF Cons.prems(3) [unfolded t] st(1), of ae ip now rx ss]
    show ?thesis
    proof (cases "ae_urlParse ae (foldl applyRule (ae_urlString ae u) (ty_URL (wh_Request (en_Rewrite entry))))")
      case (Inl err)
      with one m True rx show ?thesis by (simp add: t)
    next
      case (Inr u')
      with one obtain req1 ss1 where
        e: "request_entry ae ip now rx entry req ss = Ret (Some req1, ss1)" "same_rest req req1"
        "request_is req1 (u', ?h) (foldl applyRule bs ?rules) (last_error ?rules x) rs"
        "rq_ContentLength req1 = (if ?rules \<noteq> [] then - 1 else rq_ContentLength req)" by auto
      have run: "request_entries ae ip now url (entry # entries) req ss = request_entries ae ip now url entries req1 ss1"
        using e(1) True rx by simp
      have tg: "rewrite_targets ae t (filter (matches url) (entry # entries)) =
          rewrite_targets ae (u', ?h) (filter (matches url) entries)"
        using m Inr by (simp add: t)
      have rest: "same_rest req1 r \<Longrightarrow> same_rest req r" for r using e(2) by (simp add: same_rest_def)
      from Cons.IH [OF prems st(2) e(3), of ss1] rest show ?thesis
        unfolding run tg br last_error_append foldl_append
        by (cases "rewrite_targets ae (u', ?h) (filter (matches url) entries)") (fastforce simp: e(4))+
    qed
  qed
qed

subsection \<open>What RoundTrip makes of it\<close>

definition request_hop_fields :: "string list" where
  "request_hop_fields = [''Connection'', ''Content-Length'', ''Transfer-Encoding'']"

lemma request_strip_is:
  "hdr_values (rq_Header (request_strip r)) k =
     (if CanonicalHeaderKey k \<in> set request_hop_fields then []
      else if CanonicalHeaderKey k = ''Accept-Encoding'' then [''identity, gzip, deflate, br'']
      else hdr_values (rq_Header r) k)"
  by (auto simp: request_strip_def request_hop_fields_def hdr_values_Del hdr_values_Set)

lemma request_strip_keeps [simp]:
  "rq_Body (request_strip r) = rq_Body r" "rq_ContentLength (request_strip r) = rq_ContentLength r"
  "rq_Host (request_strip r) = rq_Host r" "same_rest r (request_strip r)"
  by (simp_all add: request_strip_def same_rest_def)

lemma request_measure_is:
  assumes "rq_ContentLength r \<noteq> 0" and "body_is (rq_Body r) bs x rs"
  shows "body_is (rq_Body (request_measure r)) bs x rs"
    and "rq_ContentLength (request_measure r) = rq_ContentLength r \<or>
      rq_ContentLength r = - 1 \<and> rq_ContentLength (request_measure r) = int (length bs)"
    and "rq_URL (request_measure r) = rq_URL r \<and> rq_Header (request_measure r) = rq_Header r \<and>
      rq_Host (request_measure r) = rq_Host r \<and> same_rest r (request_measure r)"
proof -
  from assms(2) obtain b ts where b: "rq_Body r = Some b" "reads_as (fst b) bs x"
    "closes (snd b) = map RThrottle ts @ rs" by (auto simp: body_is_def)
  obtain cs e b' where p: "peek_body b = (cs, e, b')" by (cases "peek_body b") auto
  from peek_body_reads [OF b(2) p] have peek:
    "reads_as (fst b') bs x" "snd b' = snd b" "e = Some EOF \<Longrightarrow> cs = bs" by auto
  then have "body_is (Some b') bs x rs" using b(3) by (auto simp: body_is_def)
  with assms b(1) p show "body_is (rq_Body (request_measure r)) bs x rs"
    by (simp add: request_measure_def Let_def)
  show "rq_ContentLength (request_measure r) = rq_ContentLength r \<or>
      rq_ContentLength r = - 1 \<and> rq_ContentLength (request_measure r) = int (length bs)"
    using assms(1) b(1) p peek(3) by (auto simp: request_measure_def Let_def)
  show "rq_URL (request_measure r) = rq_URL r \<and> rq_Header (request_measure r) = rq_Header r \<and>
      rq_Host (request_measure r) = rq_Host r \<and> same_rest r (request_measure r)"
    using assms(1) b(1) p by (simp add: request_measure_def Let_def same_rest_def)
qed

lemma request_delimit_keeps [simp]:
  "rq_Body (request_delimit r) = rq_Body r" "rq_ContentLength (request_delimit r) = rq_ContentLength r"
  "rq_URL (request_delimit r) = rq_URL r" "rq_Header (request_delimit r) = rq_Header r"
  "rq_Host (request_delimit r) = rq_Host r" "rq_Method (request_delimit r) = rq_Method r"
  by (simp_all add: request_delimit_def)

text \<open>How the server can tell where the body ends.\<close>

definition request_end :: "'b request \<Rightarrow> bool" where
  "request_end r \<longleftrightarrow> 0 \<le> rq_ContentLength r \<or> rq_TransferEncoding r = [''chunked'']"

lemma request_measure_empty:
  assumes "rq_ContentLength r = 0"
  shows "request_measure r = r\<lparr>rq_Body := None\<rparr>"
  using assms by (simp add: request_measure_def)

text \<open>(C4) What the server gets of a request when all body rules of the entries that match can be streamed
  (\<open>streamable\<close>, as for the response): the URL and the header after the rules of all these entries,
  in their order, without the fields of the connection to the client, and the body after all body
  rules as if they had been applied to it as one string, under the closers of the client's body.
  Nothing is sent when a rewritten URL does not parse.  A request of length zero that no body rule
  matches (a plain \<open>GET\<close>) is sent without a body.  A body that was rewritten, or of unknown length,
  has a length that is its length or none; the server can see where it ends if the client speaks
  HTTP/1.1 and keeps its connection (a rewritten body from an HTTP/1.0 client may have no end).\<close>

theorem rewritten_request_sent:
  assumes "\<forall>entry \<in> set entries. en_URL entry \<noteq> None"
    and "\<forall>rule \<in> set (request_body_rules url entries). streamable rule"
    and "rq_Body req = Some (rdr_of src_read s, c)" and "\<not> src_closed s"
  shows "case rewrite_targets ae (rq_URL req, rq_Header req) (filter (matches url) entries) of
      None \<Rightarrow> \<exists>ss'. request_entries ae ip now url entries req ss = Ret (None, ss')
    | Some (u, h) \<Rightarrow> \<exists>req' ss'. request_entries ae ip now url entries req ss = Ret (Some req', ss') \<and>
        (let out = request_frame (req'\<lparr>rq_Host := url_Host (rq_URL req')\<rparr>);
             body = foldl applyRule (src_rest s) (request_body_rules url entries);
             len = (if request_body_rules url entries = [] then rq_ContentLength req else - 1)
         in rq_Method out = rq_Method req \<and> rq_URL out = u \<and> rq_Host out = url_Host u \<and>
            (\<forall>k. hdr_values (rq_Header out) k =
               (if CanonicalHeaderKey k \<in> set request_hop_fields then []
                else if CanonicalHeaderKey k = ''Accept-Encoding'' then [''identity, gzip, deflate, br'']
                else hdr_values h k)) \<and>
            (if len = 0 then rq_Body out = None
             else body_is (rq_Body out) body (last_error (request_body_rules url entries) (src_fin s)) (closes c)) \<and>
            (rq_ContentLength out = len \<or> len = - 1 \<and> rq_ContentLength out = int (length body)) \<and>
            (rq_ProtoMajor req = 1 \<and> rq_ProtoMinor req = 1 \<and> \<not> rq_Close req \<longrightarrow> request_end out))"
proof -
  let ?rules = "request_body_rules url entries"
  let ?body = "foldl applyRule (src_rest s) ?rules"
  have "reads_as (rdr_of src_read s) (src_rest s) (src_fin s)"
    using src.rdr_of_reads_as assms(4) by (simp add: src_ok_def)
  then have "body_is (rq_Body req) (src_rest s) (src_fin s) (closes c)"
    using assms(3) unfolding body_is_def
    by (intro exI [of _ "(rdr_of src_read s, c)"] exI [of _ "[]"]) simp
  then have "request_is req (rq_URL req, rq_Header req) (src_rest s) (src_fin s) (closes c)"
    by (simp add: request_is_def)
  note all = request_entries_is [OF assms(1,2) this, of ae ip now ss]
  show ?thesis
  proof (cases "rewrite_targets ae (rq_URL req, rq_Header req) (filter (matches url) entries)")
    case None
    with all show ?thesis by simp
  next
    case (Some t)
    obtain u h where t: "t = (u, h)" by (cases t)
    from all Some t obtain req' ss' where
      e: "request_entries ae ip now url entries req ss = Ret (Some req', ss')" "same_rest req req'"
      "request_is req' (u, h) ?body (last_error ?rules (src_fin s)) (closes c)"
      "rq_ContentLength req' = (if ?rules \<noteq> [] then - 1 else rq_ContentLength req)" by auto
    let ?r = "request_strip (req'\<lparr>rq_Host := url_Host (rq_URL req')\<rparr>)"
    have strip: "same_rest req ?r"
      using e(2) request_strip_keeps(4) [of "req'\<lparr>rq_Host := url_Host (rq_URL req')\<rparr>"] by (simp add: same_rest_def)
    show ?thesis
    proof (cases "rq_ContentLength ?r = 0")
      case True
      with e(1,3,4) strip request_measure_empty [OF True] show ?thesis
        by (simp add: Some t request_is_def request_frame_def Let_def request_strip_is split: if_splits)
          (auto simp: same_rest_def request_end_def request_delimit_def)
    next
      case False
      have "body_is (rq_Body ?r) ?body (last_error ?rules (src_fin s)) (closes c)"
        using e(3) by (simp add: request_is_def)
      note m = request_measure_is [OF False this]
      show ?thesis
        using e(1,3,4) m strip False
        by (simp add: Some t request_is_def request_frame_def Let_def request_strip_is)
          (auto simp: same_rest_def request_end_def request_delimit_def split: if_splits)
    qed
  qed
qed

subsection \<open>Example\<close>

text \<open>A rule for the URL that prepends to it, and one for the body.\<close>

definition sample_upload :: Entry where
  "sample_upload = sample_entry\<lparr>en_Rewrite :=
     \<lparr>wh_Request = \<lparr>ty_URL = [empty_rule\<lparr>rule_Prepend := Some ''b.''\<rparr>], ty_Header = [],
        ty_Body = [empty_rule\<lparr>rule_Prepend := Some ''>>''\<rparr>], ty_Status = []\<rparr>,
      wh_Response = \<lparr>ty_URL = [], ty_Header = [], ty_Body = [], ty_Status = []\<rparr>\<rparr>\<rparr>"

definition sample_put :: "rbody request" where
  "sample_put =
     \<lparr>rq_Method = ''PUT'', rq_URL = sample_url ''h.a'', rq_Proto = ''HTTP/1.1'', rq_ProtoMajor = 1, rq_ProtoMinor = 1,
      rq_Header = Map.empty,
      rq_Body = Some (rdr_of src_read \<lparr>src_events = [(''abc'', Some EOF)], src_closed = False\<rparr>, CloseOf RBody),
      rq_ContentLength = 3, rq_TransferEncoding = [], rq_Close = False, rq_Host = [], rq_RemoteAddr = [],
      rq_RequestURI = []\<rparr>"

definition host_api :: api where
  "host_api = sample_api\<lparr>ae_urlString := url_Host\<rparr>"

theorem rewritten_request_sent_witness:
  "\<forall>ip now. \<exists>req' ss'. request_entries host_api ip now ''h.a'' [sample_upload] sample_put no_sessions =
      Ret (Some req', ss') \<and>
    (let out = request_frame (req'\<lparr>rq_Host := url_Host (rq_URL req')\<rparr>)
     in rq_Host out = ''b.h.a'' \<and> body_is (rq_Body out) ''>>abc'' EOF [RBody] \<and> request_end out)"
proof (intro allI)
  fix ip now
  let ?s = "\<lparr>src_events = [(''abc'', Some EOF)], src_closed = False\<rparr>"
  have "matches ''h.a'' sample_upload"
    by (simp add: matches_def sample_upload_def sample_entry_def MatchString_def class_find upt_rec)
  then have f: "filter (matches ''h.a'') [sample_upload] = [sample_upload]" by simp
  then have r: "request_body_rules ''h.a'' [sample_upload] = [empty_rule\<lparr>rule_Prepend := Some ''>>''\<rparr>]"
    unfolding request_body_rules_def by (simp add: sample_upload_def)
  have st: "\<forall>rule \<in> set (request_body_rules ''h.a'' [sample_upload]). streamable rule"
    by (simp add: r streamable_def wf_rule_def empty_rule_def)
  have u: "\<forall>entry \<in> set [sample_upload]. en_URL entry \<noteq> None" by (simp add: sample_upload_def sample_entry_def)
  have b: "rq_Body sample_put = Some (rdr_of src_read ?s, CloseOf RBody)" by (simp add: sample_put_def)
  have out: "foldl applyRule (src_rest ?s) (request_body_rules ''h.a'' [sample_upload]) = ''>>abc''"
    "last_error (request_body_rules ''h.a'' [sample_upload]) (src_fin ?s) = EOF"
    by (simp_all add: r applyRule_def empty_rule_def src_rest_def src_fin_def last_error_def replaces_body_def)
  have put: "rq_URL sample_put = sample_url ''h.a''" "rq_ProtoMajor sample_put = 1" "rq_ProtoMinor sample_put = 1"
    "\<not> rq_Close sample_put" "rq_Header sample_put = Map.empty" by (simp_all add: sample_put_def)
  have target: "rewrite_targets host_api (rq_URL sample_put, rq_Header sample_put) [sample_upload] =
      Some (sample_url ''b.h.a'', Map.empty)"
    by (simp add: put sample_upload_def host_api_def sample_api_def applyRule_def empty_rule_def AlterHeader_def sample_url_def)
  have host: "url_Host (sample_url ''b.h.a'') = ''b.h.a''" by (simp add: sample_url_def)
  from rewritten_request_sent [OF u st b, of host_api ip now no_sessions] 
  show "\<exists>req' ss'. request_entries host_api ip now ''h.a'' [sample_upload] sample_put no_sessions =
      Ret (Some req', ss') \<and>
    (let out = request_frame (req'\<lparr>rq_Host := url_Host (rq_URL req')\<rparr>)
     in rq_Host out = ''b.h.a'' \<and> body_is (rq_Body out) ''>>abc'' EOF [RBody] \<and> request_end out)"
    unfolding f target out by (simp add: r put host Let_def) blast
qed

end
