(* ===== verification/IsolationApi.thy ===== *)
theory IsolationApi
  imports Isolation ApiRules
begin

text \<open>
  What a request does to the sessions: the function given to \<open>OnRequest\<close> performs a list of the
  events of \<open>Isolation\<close>, all of them events of the client, but for \<open>/api/rules/set\<close>, which may
  name another address.
\<close>

definition own_event :: "string \<Rightarrow> session_event \<Rightarrow> bool" where
  "own_event ip e \<longleftrightarrow> (\<forall>ip'. ip' \<noteq> ip \<longrightarrow> \<not> concerns ip' e) \<and> clean_distinct e"

text \<open>The sessions afterwards are those before after some events that are \<open>ok\<close>.\<close>

definition evolves :: "(session_event \<Rightarrow> bool) \<Rightarrow> sessions \<Rightarrow> sessions \<Rightarrow> bool" where
  "evolves ok ss ss' \<longleftrightarrow> (\<exists>es. list_all ok es \<and> ss' = session_run 0 es ss)"

lemma evolves_refl [simp, intro]: "evolves ok ss ss"
  unfolding evolves_def by (rule exI [of _ "[]"]) (simp add: session_run_def)

lemma evolves_trans [trans]: "evolves ok ss ss1 \<Longrightarrow> evolves ok ss1 ss2 \<Longrightarrow> evolves ok ss ss2"
proof (unfold evolves_def, elim exE conjE)
  fix es1 es2
  assume "list_all ok es1" "ss1 = session_run 0 es1 ss" "list_all ok es2" "ss2 = session_run 0 es2 ss1"
  then show "\<exists>es. list_all ok es \<and> ss2 = session_run 0 es ss"
    by (intro exI [of _ "es1 @ es2"]) (simp add: session_run_def)
qed

lemma evolves_mono: "evolves ok ss ss' \<Longrightarrow> (\<And>e. ok e \<Longrightarrow> ok' e) \<Longrightarrow> evolves ok' ss ss'"
  by (auto simp: evolves_def list_all_iff)

lemma evolves_event: "ok e \<Longrightarrow> evolves ok ss (session_exec 0 e ss)"
  unfolding evolves_def by (rule exI [of _ "[e]"]) (simp add: session_run_def)

lemma evolves_used [simp]: "evolves (own_event ip) ss (store_used ip now ss)"
  using evolves_event [of "own_event ip" "Seen ip now" ss] by (simp add: own_event_def)

lemma evolves_rules [simp]: "evolves (own_event ip) ss (store_rules ip rules ss)"
  using evolves_event [of "own_event ip" "SetRules ip rules" ss] by (simp add: own_event_def)

lemma evolves_clear [simp]: "evolves (own_event ip) ss (clear_rules ip ss)"
  using evolves_event [of "own_event ip" "ClearRules ip" ss] by (simp add: own_event_def)

lemma evolves_throttle:
  assumes "throttle_body ip key speed now (b, ss) = (b', ss')"
  shows "evolves (own_event ip) ss ss'"
proof (cases speed)
  case None
  with assms show ?thesis by (simp add: throttle_body_def)
next
  case (Some rate)
  with assms have "ss' = session_exec 0 (Attach ip key rate now) ss"
    by (auto simp: throttle_body_def attach_def Let_def split: prod.splits)
  then show ?thesis using evolves_event [of "own_event ip" "Attach ip key rate now" ss] by (simp add: own_event_def)
qed

lemma evolves_body:
  assumes "alter_message_body rules ip key speed now body ss = Ret (body', ss')"
  shows "evolves (own_event ip) ss ss'"
proof -
  have "\<exists>b b'. throttle_body ip key speed now (b, ss) = (b', ss')" if "\<not> (rules = [] \<and> speed = None)"
    using assms that unfolding alter_message_body_def
    by (cases body; cases "AlterBody (the body) regexBufferSize rules") (auto split: prod.splits)
  with assms evolves_throttle show ?thesis by (cases "rules = [] \<and> speed = None") (auto simp: alter_message_body_def)
qed

lemma evolves_request_entry: "request_entry ae ip now rx entry req ss = Ret (req', ss') \<Longrightarrow> evolves (own_event ip) ss ss'"
  by (auto simp: request_entry_def Let_def bind_outcome_Ret_iff dest: evolves_body split: prod.splits if_splits)

lemma evolves_request_entries:
  "request_entries ae ip now url entries req ss = Ret (req', ss') \<Longrightarrow> evolves (own_event ip) ss ss'"
proof (induction entries arbitrary: req ss)
  case (Cons entry entries)
  then obtain rx where rx: "en_URL entry = Some rx" by (auto split: option.splits)
  show ?case
  proof (cases "MatchString rx url")
    case True
    with Cons.prems rx obtain r ss1 where "request_entry ae ip now rx entry req ss = Ret (r, ss1)"
      by (auto split: outcome.splits)
    with evolves_request_entry [OF this] Cons.prems Cons.IH [of _ ss1] True rx show ?thesis
      by (cases r) (auto intro: evolves_trans)
  qed (use Cons rx in simp)
qed simp

lemma evolves_response_entries:
  "response_entries ae ip now url entries s ss = Ret (s', ss') \<Longrightarrow> evolves (own_event ip) ss ss'"
proof (induction entries arbitrary: s ss)
  case (Cons entry entries)
  then obtain rx where rx: "en_URL entry = Some rx" by (auto split: option.splits)
  show ?case
  proof (cases "MatchString rx url")
    case True
    with Cons.prems rx obtain r ss1 where e: "response_entry ae ip now rx entry s ss = Ret (r, ss1)"
      by (auto split: outcome.splits)
    then have "evolves (own_event ip) ss ss1"
      by (auto simp: response_entry_def bind_outcome_Ret_iff dest: evolves_body split: prod.splits)
    with e Cons.prems Cons.IH [of r ss1] True rx show ?thesis
      by (auto intro: evolves_trans)
  qed (use Cons rx in simp)
qed simp

lemma round_trip_sessions:
  "round_trip dec remote server req w = Some (Ret (res, req', server', w')) \<Longrightarrow> w_sessions w' = w_sessions w"
  by (auto simp: round_trip_def Let_def split: option.splits outcome.splits prod.splits)

lemma on_request_evolves:
  assumes "on_request ae req client server w = Some (Ret (res, server', w'))"
    and "ip = fst (SplitHostAndPort (rq_RemoteAddr req))"
    and "fst (SplitHostAndPort (url_Host (rq_URL req))) \<noteq> ''a.proxi''"
  shows "evolves (own_event ip) (w_sessions w) (w_sessions w')"
proof -
  let ?ss = "store_used ip (w_time w) (w_sessions w)"
  let ?url = "ae_urlString ae (rq_URL req)"
  have "evolves (own_event ip) ?ss (w_sessions w')"
    using assms(1,3) unfolding on_request_def Let_def assms(2) [symmetric]
    by (auto split: option.splits outcome.splits prod.splits
        dest!: evolves_request_entries evolves_response_entries round_trip_sessions intro: evolves_trans)
  then show ?thesis using evolves_trans evolves_used by blast
qed

lemma evolves_api:
  assumes "handleProxyAPI ae req ss = Some (Ret (resp, ss'))" and "url_Path (rq_URL req) \<noteq> ''/api/rules/set''"
  shows "evolves (own_event (fst (SplitHostAndPort (rq_RemoteAddr req)))) ss ss'"
  using assms by (auto simp: handleProxyAPI_def Let_def split: if_splits)

text \<open>Events of one client leave what the others see alone.\<close>

lemma evolves_isolated:
  assumes "evolves (own_event ip) ss ss'" and "own_controllers ss"
  shows "own_controllers ss'" and "ip' \<noteq> ip \<Longrightarrow> view_of ip' ss' = view_of ip' ss"
proof -
  obtain es where es: "list_all (own_event ip) es" "ss' = session_run 0 es ss"
    using assms(1) by (auto simp: evolves_def)
  from es(1) assms(2) have "own_controllers (session_run 0 es ss) \<and>
      (ip' \<noteq> ip \<longrightarrow> view_of ip' (session_run 0 es ss) = view_of ip' ss)"
  proof (induction es arbitrary: ss)
    case (Cons e es)
    then have e: "own_event ip e" "clean_distinct e" by (simp_all add: own_event_def)
    from session_step [OF Cons.prems(2) e(2), of 0] have "own_controllers (session_exec 0 e ss)"
      "view_of ip' (session_exec 0 e ss) = view_of ip' ss" if "ip' \<noteq> ip"
      using that e(1) by (simp_all add: step_ok_def own_event_def)
    moreover have "own_controllers (session_exec 0 e ss)"
      using session_step [OF Cons.prems(2) e(2), of 0] by (simp add: step_ok_def)
    ultimately show ?case
      using Cons.IH [of "session_exec 0 e ss"] Cons.prems(1) by (simp add: session_run_def)
  qed (simp add: session_run_def)
  with es(2) show "own_controllers ss'" "ip' \<noteq> ip \<Longrightarrow> view_of ip' ss' = view_of ip' ss" by simp_all
qed

text \<open>A request changes the sessions only by events of the client that sent it, whether its rules
  match, the exchange with the server fails or the API answers it; so nothing that another client
  can see changes: not its rules, its speeds, the waiting times of its bodies or when it expires.
  The one exception is \<open>/api/rules/set\<close>, which may name another address.\<close>

theorem on_request_isolated:
  assumes "on_request ae req client server w = Some (Ret (res, server', w'))"
    and "fst (SplitHostAndPort (url_Host (rq_URL req))) \<noteq> ''a.proxi'' \<or> url_Path (rq_URL req) \<noteq> ''/api/rules/set''"
    and "own_controllers (w_sessions w)" and "ip \<noteq> fst (SplitHostAndPort (rq_RemoteAddr req))"
  shows "evolves (own_event (fst (SplitHostAndPort (rq_RemoteAddr req)))) (w_sessions w) (w_sessions w') \<and>
    own_controllers (w_sessions w') \<and> view_of ip (w_sessions w') = view_of ip (w_sessions w)"
proof -
  let ?ip = "fst (SplitHostAndPort (rq_RemoteAddr req))"
  have "evolves (own_event ?ip) (w_sessions w) (w_sessions w')"
  proof (cases "fst (SplitHostAndPort (url_Host (rq_URL req))) = ''a.proxi''")
    case True
    then have path: "url_Path (rq_URL req) \<noteq> ''/api/rules/set''" using assms(2) by simp
    from assms(1) True obtain resp where
      "handleProxyAPI ae req (store_used ?ip (w_time w) (w_sessions w)) = Some (Ret (resp, w_sessions w'))"
      by (auto simp: on_request_def Let_def split: option.splits outcome.splits prod.splits)
    from evolves_api [OF this path] show ?thesis by (rule evolves_trans [OF evolves_used])
  next
    case False
    with on_request_evolves [OF assms(1)] show ?thesis by simp
  qed
  with evolves_isolated [OF this assms(3)] assms(4) show ?thesis by simp
qed

text \<open>A client clears its rules while another one has some.\<close>

definition sample_reset :: "rbody request" where
  "sample_reset = sample_get\<lparr>rq_URL := (sample_url ''a.proxi:443'')\<lparr>url_Path := ''/api/rules/clear''\<rparr>\<rparr>"

definition shared_world :: world where
  "shared_world = sample_world\<lparr>w_sessions := store_rules ''b'' [sample_entry] (store_used ''b'' 5 no_sessions)\<rparr>"

theorem on_request_isolated_witness:
  "\<exists>res w'. on_request sample_api sample_reset sample_caller sample_server shared_world =
      Some (Ret (res, sample_server, w')) \<and>
    vw_rules (view_of ''b'' (w_sessions w')) = Some [sample_entry]"
proof -
  have host: "fst (SplitHostAndPort (url_Host (rq_URL sample_reset))) = ''a.proxi''"
    by (simp add: sample_reset_def sample_url_def SplitHostAndPort_def numeral_eq_Suc)
  have path: "url_Path (rq_URL sample_reset) = ''/api/rules/clear''" by (simp add: sample_reset_def)
  then obtain res w' where o: "on_request sample_api sample_reset sample_caller sample_server shared_world =
      Some (Ret (res, sample_server, w'))"
    using host by (simp add: on_request_def Let_def handleProxyAPI_def)
  have ip: "''b'' \<noteq> fst (SplitHostAndPort (rq_RemoteAddr sample_reset))"
    by (simp add: sample_reset_def sample_get_def SplitHostAndPort_def)
  have own: "own_controllers (w_sessions shared_world)"
    using evolves_isolated(1) [OF evolves_trans [OF evolves_used evolves_rules] own_no]
    by (simp add: shared_world_def)
  have "view_of ''b'' (w_sessions w') = view_of ''b'' (w_sessions shared_world)"
    using on_request_isolated [OF o _ own ip] path by simp
  with o show ?thesis by (auto simp: view_of_def shared_world_def store_rules_def)
qed

end
