(* ===== verification/Serving.thy ===== *)
theory Serving
  imports ProxySafety IsolationApi
begin

text \<open>
  The whole service of a client, from the accepted connection to its end, with the function that
  \<open>main\<close> gives to \<open>OnRequest\<close>: what it does to the sessions that all clients share.
\<close>

subsection \<open>One request\<close>

text \<open>The events a request may perform: those of its client, and, if \<open>sets\<close>, the setting of rules for
  any address.\<close>

definition request_event :: "string \<Rightarrow> bool \<Rightarrow> session_event \<Rightarrow> bool" where
  "request_event ip sets e \<longleftrightarrow> own_event ip e \<or> sets \<and> (\<exists>target rules. e = SetRules target rules)"

lemma own_request_event: "own_event ip e \<Longrightarrow> request_event ip sets e"
  by (simp add: request_event_def)

lemma api_performs:
  assumes "handleProxyAPI ae req ss = Some (Ret (resp, ss'))"
    and "ip = fst (SplitHostAndPort (rq_RemoteAddr req))"
    and "url_Path (rq_URL req) \<noteq> ''/api/rules/set'' \<or> sets"
  shows "evolves (request_event ip sets) ss ss'"
proof (cases "url_Path (rq_URL req) = ''/api/rules/set''")
  case True
  with assms(1) have "ss' = ss \<or> (\<exists>target rules. ss' = store_rules target rules ss)"
    by (auto simp: handleProxyAPI_def Let_def split: option.splits prod.splits sum.splits)
  moreover have "evolves (request_event ip sets) ss (session_exec 0 (SetRules target rules) ss)" for target rules
    using True assms(3) by (intro evolves_event) (simp add: request_event_def)
  ultimately show ?thesis by auto
next
  case False
  from evolves_api [OF assms(1) this] show ?thesis
    unfolding assms(2) by (rule evolves_mono) (rule own_request_event)
qed

lemma on_request_performs:
  assumes "on_request ae req client server w = Some (Ret (res, server', w'))"
    and "ip = fst (SplitHostAndPort (rq_RemoteAddr req))"
    and "url_Path (rq_URL req) \<noteq> ''/api/rules/set'' \<or> sets"
  shows "evolves (request_event ip sets) (w_sessions w) (w_sessions w')"
proof (cases "fst (SplitHostAndPort (url_Host (rq_URL req))) = ''a.proxi''")
  case True
  with assms(1,2) obtain resp where
    api: "handleProxyAPI ae req (store_used ip (w_time w) (w_sessions w)) = Some (Ret (resp, w_sessions w'))"
    by (auto simp: on_request_def Let_def split: option.splits outcome.splits prod.splits)
  have "evolves (request_event ip sets) (w_sessions w) (store_used ip (w_time w) (w_sessions w))"
    by (rule evolves_mono [OF evolves_used]) (rule own_request_event)
  from evolves_trans [OF this api_performs [OF api assms(2,3)]] show ?thesis .
next
  case False
  from on_request_evolves [OF assms(1,2) this] show ?thesis
    by (rule evolves_mono) (rule own_request_event)
qed

lemma round_trip_requests:
  "round_trip dec remote server req w = Some (Ret (res, req', server', w')) \<Longrightarrow>
     w_requests w' = w_requests w \<and> w_sessions w' = w_sessions w"
  by (auto simp: round_trip_def Let_def split: option.splits outcome.splits prod.splits)

lemma on_request_requests:
  assumes "on_request ae req client server w = Some (Ret (res, server', w'))"
  shows "w_requests w' = w_requests w"
proof (cases "fst (SplitHostAndPort (url_Host (rq_URL req))) = ''a.proxi''")
  case True
  with assms show ?thesis
    by (auto simp: on_request_def Let_def split: option.splits outcome.splits prod.splits)
next
  case False
  with assms show ?thesis
    by (auto simp: on_request_def Let_def split: option.splits outcome.splits prod.splits
        dest!: round_trip_requests)
qed

lemma respond_performs:
  assumes "respond ou st request = Some (Ret (resp, st'))" and "px_Modify (lc_px st) = Some (on_request ae)"
    and "ip = fst (SplitHostAndPort (rq_RemoteAddr request))"
    and "url_Path (rq_URL request) \<noteq> ''/api/rules/set'' \<or> sets"
  shows "evolves (request_event ip sets) (w_sessions (lc_world st)) (w_sessions (lc_world st'))"
    and "w_requests (lc_world st') = w_requests (lc_world st)"
    and "lc_px st' = lc_px st" and "lc_client st' = lc_client st"
proof -
  from assms(1,2) obtain res server w1 where
    m: "on_request ae request (lc_client st) (lc_server st) (lc_world st) = Some (Ret (res, server, w1))"
    by (auto simp: respond_def split: option.splits outcome.splits)
  have "w_sessions (lc_world st') = w_sessions w1 \<and> w_requests (lc_world st') = w_requests w1 \<and>
      lc_px st' = lc_px st \<and> lc_client st' = lc_client st"
    using assms(1,2) m
    by (auto simp: respond_def Let_def split: option.splits outcome.splits prod.splits if_splits
        dest!: round_trip_requests)
  with on_request_performs [OF m assms(3,4)] on_request_requests [OF m] show
    "evolves (request_event ip sets) (w_sessions (lc_world st)) (w_sessions (lc_world st'))"
    "w_requests (lc_world st') = w_requests (lc_world st)" "lc_px st' = lc_px st" "lc_client st' = lc_client st"
    by simp_all
qed

subsection \<open>The loop of the client\<close>

text \<open>The paths of all requests the client is going to send.\<close>

definition sends_only :: "(string \<Rightarrow> bool) \<Rightarrow> world \<Rightarrow> bool" where
  "sends_only ok w \<longleftrightarrow>
     list_all (\<lambda>(t, r, e). case r of None \<Rightarrow> True | Some rq \<Rightarrow> ok (url_Path (rq_URL rq))) (w_requests w)"

lemma client_Listen_performs:
  assumes "client_Listen read_request client w = (r, e, w')" and "sends_only ok w"
  shows "w_sessions w' = w_sessions w" and "sends_only ok w'" and "r = Some rq \<Longrightarrow> ok (url_Path (rq_URL rq))"
  using assms
  by (auto simp: client_Listen_def read_request_def sends_only_def Let_def
      split: option.splits if_splits list.splits prod.splits)

lemma handleConnect_performs:
  assumes "handleConnect ou cert r h w = Some (Ret (conn, err, w'))"
  shows "w_sessions w' = w_sessions w \<and> w_requests w' = w_requests w \<and> (\<forall>h'. conn = Some h' \<longrightarrow> fst h' = fst h)"
  using assms
  by (auto simp: handleConnect_def send_raw_def next_send_def handshake_def close_handle_def Let_def
      split: if_splits outcome.splits option.splits prod.splits list.splits)

lemma answer_performs:
  assumes "answer cid st resp = Ret (c, st')"
  shows "w_sessions (lc_world st') = w_sessions (lc_world st) \<and> w_requests (lc_world st') = w_requests (lc_world st) \<and>
    px_Modify (lc_px st') = px_Modify (lc_px st) \<and> cl_Conn (lc_client st') = cl_Conn (lc_client st)"
  using assms
  by (auto simp: answer_def client_Write_def send_response_def next_send_def Let_def
      split: if_splits outcome.splits option.splits prod.splits list.splits)

lemma prepare_request_simps [simp]:
  "rq_RemoteAddr (prepare_request addr r) = addr" "url_Path (rq_URL (prepare_request addr r)) = url_Path (rq_URL r)"
  by (simp_all add: prepare_request_def removeProxyHeaders_def removeRedundantPort_def Let_def split: prod.split)


definition serving_inv :: "api \<Rightarrow> conn \<Rightarrow> string \<Rightarrow> bool \<Rightarrow> sessions \<Rightarrow> 'k lc \<Rightarrow> bool" where
  "serving_inv ae cid ip sets ss st \<longleftrightarrow> px_Modify (lc_px st) = Some (on_request ae) \<and>
     (\<forall>h. cl_Conn (lc_client st) = Some h \<longrightarrow> fst h = cid) \<and>
     sends_only (\<lambda>path. path \<noteq> ''/api/rules/set'' \<or> sets) (lc_world st) \<and>
     evolves (request_event ip sets) ss (w_sessions (lc_world st))"

lemma serving_step:
  assumes "listen_step ou cid st = Some (Ret (c, st'))" and "serving_inv ae cid ip sets ss st"
    and "ip = fst (SplitHostAndPort (ou_remote ou cid))"
  shows "serving_inv ae cid ip sets ss st'"
proof -
  note inv = assms(2) [unfolded serving_inv_def]
  let ?ok = "\<lambda>path. path \<noteq> ''/api/rules/set'' \<or> sets"
  from assms(1) show ?thesis
  proof (cases rule: listen_step_cases)
    case (Unread r e w)
    with client_Listen_performs [OF Unread(1), of ?ok] inv show ?thesis by (simp add: serving_inv_def)
  next
    case (Connect r w h conn err w')
    with client_Listen_performs [OF Connect(1), of ?ok] handleConnect_performs [OF Connect(3)] inv show ?thesis
      by (auto simp: serving_inv_def sends_only_def)
  next
    case (Unanswered r w h)
    have cid: "fst h = cid" using inv Unanswered(2) by simp
    have l: "w_sessions w = w_sessions (lc_world st)" "sends_only ?ok w" "?ok (url_Path (rq_URL r))"
      using client_Listen_performs [OF Unanswered(1), of ?ok] inv by simp_all
    have "px_Modify (lc_px (turn_start cid st w)) = Some (on_request ae)" using inv by simp
    note re = respond_performs [OF Unanswered(3) this, of ip sets]
    have "evolves (request_event ip sets) (w_sessions w) (w_sessions (lc_world st'))"
      using re(1) l(3) assms(3) cid by simp
    with re(2-4) l inv assms(3) cid show ?thesis
      by (auto simp: serving_inv_def sends_only_def intro: evolves_trans)
  next
    case (Answered r w h resp st1)
    have cid: "fst h = cid" using inv Answered(2) by simp
    have l: "w_sessions w = w_sessions (lc_world st)" "sends_only ?ok w" "?ok (url_Path (rq_URL r))"
      using client_Listen_performs [OF Answered(1), of ?ok] inv by simp_all
    have "px_Modify (lc_px (turn_start cid st w)) = Some (on_request ae)" using inv by simp
    note re = respond_performs [OF Answered(3) this, of ip sets]
    have "evolves (request_event ip sets) (w_sessions w) (w_sessions (lc_world st1))"
      using re(1) l(3) assms(3) cid by simp
    with re(2-4) l inv assms(3) cid answer_performs [OF Answered(4)] show ?thesis
      by (auto simp: serving_inv_def sends_only_def intro: evolves_trans)
  qed
qed

lemma serving_loop:
  assumes "listen_loop ou cid st = Some res"
  shows "res = Ret st' \<Longrightarrow> serving_inv ae cid ip sets ss st \<Longrightarrow>
    ip = fst (SplitHostAndPort (ou_remote ou cid)) \<Longrightarrow> serving_inv ae cid ip sets ss st'"
  using assms
proof (induction ou cid st res rule: listen_loop.raw_induct [rotated, consumes 1, case_names 1])
  case (1 loop ou cid st res)
  from 1(2,3) obtain c st1 where step: "listen_step ou cid st = Some (Ret (c, st1))"
    by (auto split: option.splits outcome.splits)
  note s = serving_step [OF step 1(4,5)]
  show ?case
  proof (cases c)
    case Break
    with 1(2,3) step s show ?thesis by simp
  next
    case Continue
    with 1(2,3) step have "loop ou cid st1 = Some (Ret st')" by simp
    from 1(1) [OF this refl s 1(5)] show ?thesis .
  qed
qed

lemma listen_end_sessions: "w_sessions (lc_world (listen_end cid st)) = w_sessions (lc_world st)"
  by (auto simp: listen_end_def client_Close_def close_handle_def Let_def split: prod.splits option.splits)

lemma serve_client_performs:
  assumes "serve_client ou p c now w = Some (Ret st')" and "px_Modify p = Some (on_request ae)"
    and "ip = fst (SplitHostAndPort (ou_remote ou c))"
    and "sends_only (\<lambda>path. path \<noteq> ''/api/rules/set'' \<or> sets) w"
  shows "evolves (request_event ip sets) (w_sessions w) (w_sessions (lc_world st'))"
proof -
  let ?p = "p\<lparr>px_conns := cs_Add (px_conns p) c\<rparr>" and ?client = "accept_client p c now"
  from assms(1) obtain st1 where run: "listenConn ou c ?p ?client w = Some (Ret st1)"
    "st' = st1\<lparr>lc_px := (lc_px st1)\<lparr>px_conns := cs_Remove (px_conns (lc_px st1)) c\<rparr>\<rparr>"
    by (rule serve_client_run)
  then obtain st2 where l: "listen_loop ou c (listen_start ?p ?client w) = Some (Ret st2)" "st1 = listen_end c st2"
    by (auto simp: listenConn_def bind_outcome_Ret_iff)
  have "serving_inv ae c ip sets (w_sessions w) (listen_start ?p ?client w)"
    using assms(2,4) by (simp add: serving_inv_def listen_start_def sends_only_def)
  from serving_loop [OF l(1) refl this assms(3)] l(2) run(2) show ?thesis
    by (simp add: serving_inv_def listen_end_sessions)
qed


subsection \<open>The service of a client\<close>

lemma request_events_own_controllers:
  assumes "evolves (request_event ip sets) ss ss'" and "own_controllers ss"
  shows "own_controllers ss'"
proof -
  obtain es where es: "list_all (request_event ip sets) es" "ss' = session_run 0 es ss"
    using assms(1) by (auto simp: evolves_def)
  from es(1) assms(2) have "own_controllers (session_run 0 es ss)"
  proof (induction es arbitrary: ss)
    case (Cons e es)
    then have "clean_distinct e" by (auto simp: request_event_def own_event_def)
    from session_step [OF Cons.prems(2) this, of 0] Cons show ?case by (simp add: step_ok_def session_run_def)
  qed (simp add: session_run_def)
  with es(2) show ?thesis by simp
qed

text \<open>(C7) From its accepted connection to its end, through any number of requests, tunnels, failures
  and rewritten bodies, a client changes the sessions only by events of its own address and by
  the rules it sets through the API; no two names ever refer to the same throttle controller; and
  a client that never asks for \<open>/api/rules/set\<close> leaves all that other clients can see as
  it was.\<close>

theorem serve_client_sessions:
  assumes "px_Modify p = Some (on_request ae)" and "own_controllers (w_sessions w)"
    and "serve_client ou p c now w = Some (Ret st')"
  shows "own_controllers (w_sessions (lc_world st')) \<and>
    (let ip = fst (SplitHostAndPort (ou_remote ou c))
     in (\<exists>es. list_all (\<lambda>e. own_event ip e \<or> (\<exists>target rules. e = SetRules target rules)) es \<and>
           w_sessions (lc_world st') = session_run 0 es (w_sessions w)) \<and>
        (sends_only (\<lambda>path. path \<noteq> ''/api/rules/set'') w \<longrightarrow>
           (\<forall>ip'. ip' \<noteq> ip \<longrightarrow> view_of ip' (w_sessions (lc_world st')) = view_of ip' (w_sessions w))))"
proof -
  let ?ip = "fst (SplitHostAndPort (ou_remote ou c))"
  have "sends_only (\<lambda>path. path \<noteq> ''/api/rules/set'' \<or> True) w"
    by (auto simp: sends_only_def list_all_iff split: option.split)
  from serve_client_performs [OF assms(3,1) refl this] have all:
    "evolves (request_event ?ip True) (w_sessions w) (w_sessions (lc_world st'))" .
  have quiet: "evolves (own_event ?ip) (w_sessions w) (w_sessions (lc_world st'))"
    if "sends_only (\<lambda>path. path \<noteq> ''/api/rules/set'') w"
    using serve_client_performs [OF assms(3,1) refl, of False] that
    by (auto intro: evolves_mono simp: request_event_def)
  from all have "\<exists>es. list_all (\<lambda>e. own_event ?ip e \<or> (\<exists>target rules. e = SetRules target rules)) es \<and>
      w_sessions (lc_world st') = session_run 0 es (w_sessions w)"
    unfolding evolves_def request_event_def simp_thms .
  with request_events_own_controllers [OF all assms(2)] evolves_isolated(2) [OF quiet assms(2)] show ?thesis
    by (simp add: Let_def)
qed

text \<open>A client that clears its rules and hangs up before it got its answer.\<close>

definition reset_proxy :: "octets proxy" where
  "reset_proxy = sample_proxy\<lparr>px_Modify := Some (on_request sample_api)\<rparr>"

definition reset_world :: world where
  "reset_world = shared_world\<lparr>w_requests := [(7, Some (sample_reset\<lparr>rq_Host := []\<rparr>), None)],
     w_sends := [Some closed_error]\<rparr>"

lemma reset_listen:
  assumes "cl_Conn client = Some (1, False)" and "w = reset_world\<lparr>w_clientConns := n\<rparr>"
  shows "\<exists>r w'. client_Listen read_request client w = (Some r, None, w') \<and> rq_Method r = ''GET'' \<and>
    url_Path (rq_URL r) = ''/api/rules/clear'' \<and> url_Host (rq_URL r) = ''a.proxi:443'' \<and> url_Scheme (rq_URL r) = ''http'' \<and>
    w_sends w' = [Some closed_error] \<and> is_open (1, False) w' \<and> w_sessions w' = w_sessions reset_world"
  using assms
  by (simp add: client_Listen_def read_request_def is_open_def reset_world_def shared_world_def sample_world_def
      sample_net_def sample_reset_def sample_get_def sample_url_def resolveRealHost_def insertPort_def SplitHostAndPort_def numeral_eq_Suc)


lemma reset_host:
  assumes "url_Host (rq_URL r) = ''a.proxi:443''"
  shows "fst (SplitHostAndPort (url_Host (rq_URL (prepare_request addr r)))) = ''a.proxi''"
  using assms
  by (simp add: prepare_request_def removeProxyHeaders_def removeRedundantPort_def SplitHostAndPort_def Let_def numeral_eq_Suc)

lemma reset_run: "\<exists>st'. serve_client sample_outside reset_proxy 1 0 reset_world = Some (Ret st')"
proof -
  let ?p = "reset_proxy\<lparr>px_conns := cs_Add (px_conns reset_proxy) 1\<rparr>"
  let ?st = "listen_start ?p (accept_client reset_proxy 1 0) reset_world"
  have c: "cl_Conn (lc_client ?st) = Some (1, False)" by (simp add: listen_start_def)
  have "lc_world ?st = reset_world\<lparr>w_clientConns := w_clientConns reset_world + 1\<rparr>" by (simp add: listen_start_def)
  from reset_listen [OF c this] obtain r w' where
    l: "client_Listen read_request (lc_client ?st) (lc_world ?st) = (Some r, None, w')" "rq_Method r = ''GET''"
    and r: "url_Path (rq_URL r) = ''/api/rules/clear''" "url_Host (rq_URL r) = ''a.proxi:443''"
    and w: "w_sends w' = [Some closed_error]" "is_open (1, False) w'" by blast
  let ?st1 = "turn_start 1 ?st w'" and ?rq = "prepare_request (ou_remote sample_outside 1) r"
  have m: "px_Modify (lc_px ?st1) = Some (on_request sample_api)" by (simp add: listen_start_def reset_proxy_def)
  have "\<exists>resp ss. on_request sample_api ?rq (lc_client ?st1) (lc_server ?st1) (lc_world ?st1) =
      Some (Ret ((Some ?rq, Some resp), lc_server ?st1, (lc_world ?st1)\<lparr>w_sessions := ss\<rparr>))"
    using reset_host [OF r(2)] r(1) by (simp add: on_request_def handleProxyAPI_def Let_def) blast
  then obtain resp ss where "respond sample_outside ?st1 ?rq =
      Some (Ret (Some resp, ?st1\<lparr>lc_server := lc_server ?st1, lc_world := (lc_world ?st1)\<lparr>w_sessions := ss\<rparr>\<rparr>))"
    using m by (auto simp: respond_def)
  then obtain st2 where re: "respond sample_outside ?st1 ?rq = Some (Ret (Some resp, st2))"
    "cl_Conn (lc_client st2) = Some (1, False)" "w_sends (lc_world st2) = [Some closed_error]" "is_open (1, False) (lc_world st2)"
    using c w by (simp add: is_open_def)
  have "\<exists>st3. answer 1 st2 resp = Ret (Break, st3)"
    using re(2-4) by (auto simp: answer_def client_Write_def send_response_def next_send_def Let_def)
  then obtain st3 where "listen_step sample_outside 1 ?st = Some (Ret (Break, st3))"
    using l c re(1) by (auto simp: listen_step_def turn_start_def Let_def)
  then show ?thesis
    by (auto simp: serve_client_def listenConn_def Let_def listen_loop.simps)
qed

theorem serve_client_sessions_witness:
  "\<exists>st'. serve_client sample_outside reset_proxy 1 0 reset_world = Some (Ret st') \<and>
    vw_rules (view_of ''b'' (w_sessions (lc_world st'))) = Some [sample_entry]"
proof -
  from reset_run obtain st' where st': "serve_client sample_outside reset_proxy 1 0 reset_world = Some (Ret st')" by blast
  have own: "own_controllers (w_sessions reset_world)"
    using evolves_isolated(1) [OF evolves_trans [OF evolves_used evolves_rules] own_no]
    by (simp add: reset_world_def shared_world_def)
  have m: "px_Modify reset_proxy = Some (on_request sample_api)" by (simp add: reset_proxy_def)
  have ip: "fst (SplitHostAndPort (ou_remote sample_outside 1)) = ''10.0.0.1''"
    by (simp add: sample_outside_def SplitHostAndPort_def numeral_eq_Suc)
  have "sends_only (\<lambda>path. path \<noteq> ''/api/rules/set'') reset_world"
    by (simp add: sends_only_def reset_world_def sample_reset_def)
  with serve_client_sessions [OF m own st'] ip have
    "view_of ''b'' (w_sessions (lc_world st')) = view_of ''b'' (w_sessions reset_world)" by (simp add: Let_def)
  with st' show ?thesis by (simp add: view_of_def reset_world_def shared_world_def store_rules_def)
qed

end
