(* ===== verification/Exchange.thy ===== *)
theory Exchange
  imports Serving ApiRequest
begin

text \<open>
  A whole turn of a client: \<open>listenConn\<close> reads a request, the function given to \<open>OnRequest\<close> rewrites
  it, \<open>RoundTrip\<close> exchanges it with the server, the response is rewritten, framed and written to
  the client.
\<close>

text \<open>The response of a turn is on its way to the client unless the connection is gone.\<close>

definition sendable :: "handle \<Rightarrow> world \<Rightarrow> bool" where
  "sendable h w \<longleftrightarrow> fst (next_send h w) = None"

lemma round_trip_sent:
  "round_trip dec remote server req w = Some (Ret (res, req', server', w')) \<Longrightarrow> w_sent w' = w_sent w"
  by (auto simp: round_trip_def Let_def split: option.splits outcome.splits prod.splits)

lemma on_request_answers:
  assumes "fst (SplitHostAndPort (url_Host (rq_URL req))) \<noteq> ''a.proxi''"
    and "request_entries ae ip (w_time w) url entries req (store_used ip (w_time w) (w_sessions w)) = Ret (Some req1, ss1)"
    and "round_trip (ae_dec ae) (ae_remote ae) server (Some (req1\<lparr>rq_Host := url_Host (rq_URL req1)\<rparr>))
      (w\<lparr>w_sessions := ss1\<rparr>) = Some (Ret ((Some resp, err), req2, server', w1))"
    and "response_entries ae ip (w_time w1) url entries (resp, 0) (w_sessions w1) = Ret ((resp', d), ss2)"
    and "ip = fst (SplitHostAndPort (rq_RemoteAddr req))" and "entries = rules_of ip (w_sessions w)"
    and "url = ae_urlString ae (rq_URL req)"
  shows "on_request ae req client server w = Some (Ret ((req2, Some resp'), server',
      w1\<lparr>w_sessions := ss2, w_time := w_time w1 + delay_time d\<rparr>))"
  using assms(1-4) unfolding on_request_def assms(5-7) by (simp add: Let_def)

lemma answer_sends:
  assumes "cl_Conn (lc_client st) = Some h" and "sendable h (lc_world st)"
  shows "\<exists>ctl st'. answer cid st resp = Ret (ctl, st') \<and>
    w_sent (lc_world st') = w_sent (lc_world st) @
      [client_frame (finish_response (cl_closeConnAfterRequest (lc_client st)) resp)]"
proof -
  let ?r = "client_frame (finish_response (cl_closeConnAfterRequest (lc_client st)) resp)"
  obtain e w where w: "send_response ?r h (lc_world st) = (e, w)" by (cases "send_response ?r h (lc_world st)") auto
  with assms(2) have "e = None" by (auto simp: send_response_def sendable_def split: prod.splits)
  with send_response_world [OF w] w assms(1) show ?thesis
    by (auto simp: answer_def client_Write_def Let_def)
qed

text \<open>The delay of the entries that match: the longest.\<close>

definition longest_delay :: "64 word \<Rightarrow> Entry list \<Rightarrow> 64 word" where
  "longest_delay d entries =
     foldl (\<lambda>d entry. case en_ResponseDelay entry of None \<Rightarrow> d | Some d' \<Rightarrow> max d d') d entries"

lemma response_entries_delay:
  "response_entries ae ip now url entries (resp, d) ss = Ret ((resp', d'), ss') \<Longrightarrow>
     d' = longest_delay d (filter (matches url) entries)"
proof (induction entries arbitrary: resp d ss)
  case (Cons entry entries)
  from Cons.prems obtain rx where rx: "en_URL entry = Some rx" by (auto split: option.splits)
  show ?case
  proof (cases "MatchString rx url")
    case False
    with Cons rx show ?thesis by (simp add: matches_def)
  next
    case True
    from Cons.prems True rx obtain r1 d1 ss1 where
      e: "response_entry ae ip now rx entry (resp, d) ss = Ret ((r1, d1), ss1)"
      "response_entries ae ip now url entries (r1, d1) ss1 = Ret ((resp', d'), ss')"
      by (auto split: outcome.splits)
    have "d1 = (case en_ResponseDelay entry of None \<Rightarrow> d | Some d' \<Rightarrow> max d d')"
      using e(1)
      by (auto simp: response_entry_def response_head_def Let_def bind_outcome_Ret_iff max_def
          split: prod.splits option.splits if_splits)
    with Cons.IH [OF e(2)] True rx show ?thesis by (simp add: matches_def longest_delay_def)
  qed
qed (simp add: longest_delay_def)

text \<open>(C2) End to end, for rules whose response bodies can be streamed (\<open>streamable\<close>, see \<open>ApiRules\<close>) and a
  client whose connection still takes the response: a client's request, with whatever body it has
  been rewritten to, was exchanged with its server and the server's response came back; then the
  turn of the client returns and exactly one response has been sent.  It has an end the client can
  see, and its body is the server's body after all body rules of the entries that match the URL of
  the request before it was rewritten (a response that says that it is empty, and that no body rule
  matches, has none); the longest delay of these entries has passed.\<close>

theorem exchange_delivered:
  assumes "client_Listen read_request (lc_client st) (lc_world st) = (Some r, None, w)"
    and "cl_Conn (lc_client st) = Some h" and "rq_Method r \<noteq> ''CONNECT''"
    and "px_Modify (lc_px st) = Some (on_request ae)"
    and "req = prepare_request (ou_remote ou (fst h)) r"
    and "fst (SplitHostAndPort (url_Host (rq_URL req))) \<noteq> ''a.proxi''"
    and "ip = fst (SplitHostAndPort (ou_remote ou (fst h)))" and "entries = rules_of ip (w_sessions w)"
    and "url = ae_urlString ae (rq_URL req)"
    and "request_entries ae ip (w_time w) url entries req (store_used ip (w_time w) (w_sessions w)) = Ret (Some req1, ss1)"
    and "round_trip (ae_dec ae) (ae_remote ae) (lc_server st) (Some (req1\<lparr>rq_Host := url_Host (rq_URL req1)\<rparr>))
      (w\<lparr>w_sessions := ss1\<rparr>) = Some (Ret ((Some resp, err), Some req2, server', w1))"
    and "\<forall>entry \<in> set entries. en_URL entry \<noteq> None"
    and "\<forall>rule \<in> set (body_rules url entries). streamable rule"
    and "body_is (rs_Body resp) bs x rs"
    and "sendable h w1"
  shows "\<exists>ctl st' out ob c. listen_step ou cid st = Some (Ret (ctl, st')) \<and>
    w_sent (lc_world st') = w_sent (lc_world st) @ [out] \<and>
    delimited (rs_ContentLength out) (rs_TransferEncoding out) (rs_Close out) \<and>
    (if rs_ContentLength resp = 0 \<and> body_rules url entries = []
     then rs_Body out = None \<and> rs_ContentLength out = 0
     else rs_Body out = Some (ob, c) \<and> set rs \<subseteq> set (closes c) \<and>
       reads_as ob (foldl applyRule bs (body_rules url entries)) (last_error (body_rules url entries) x)) \<and>
    w_time (lc_world st') = w_time w1 + delay_time (longest_delay 0 (filter (matches url) entries))"
proof -
  let ?st = "turn_start cid st w"
  from response_entries_is [OF assms(12-14), of ae ip "w_time w1" 0 "w_sessions w1"] obtain resp' d ss2 where
    e: "response_entries ae ip (w_time w1) url entries (resp, 0) (w_sessions w1) = Ret ((resp', d), ss2)"
    "body_is (rs_Body resp') (foldl applyRule bs (body_rules url entries)) (last_error (body_rules url entries) x) rs"
    "rs_ContentLength resp' = (if body_rules url entries \<noteq> [] then - 1 else rs_ContentLength resp)" by blast
  let ?w = "w1\<lparr>w_sessions := ss2, w_time := w_time w1 + delay_time d\<rparr>"
  have ip: "ip = fst (SplitHostAndPort (rq_RemoteAddr req))" using assms(5,7) by simp
  note m = on_request_answers [OF assms(6,10,11) e(1) ip assms(8,9)]
  let ?st1 = "?st\<lparr>lc_server := server', lc_world := ?w\<rparr>"
  have re: "respond ou ?st req = Some (Ret (Some resp', ?st1))"
    using m assms(4) by (simp add: respond_def)
  have "sendable h ?w" using assms(15) by (auto simp: sendable_def next_send_def is_open_def split: if_splits list.splits)
  with answer_sends [of ?st1 h cid resp'] assms(2) obtain ctl st' where
    a: "answer cid ?st1 resp' = Ret (ctl, st')"
    "w_sent (lc_world st') = w_sent w1 @ [client_frame (finish_response (cl_closeConnAfterRequest (lc_client st)) resp')]"
    by auto
  have step: "listen_step ou cid st = Some (Ret (ctl, st'))"
    using assms(1-3) re a(1) unfolding assms(5) by (simp add: listen_step_def turn_start_def Let_def)
  have "w_sent w1 = w_sent (lc_world st)"
    using round_trip_sent [OF assms(11)] client_Listen_world [OF assms(1)] by simp
  moreover have "rs_ContentLength resp' = 0 \<longleftrightarrow> rs_ContentLength resp = 0 \<and> body_rules url entries = []"
    using e(3) by simp
  moreover have "w_time (lc_world st') = w_time ?w"
    using a(1) by (auto simp: answer_def client_Write_def send_response_def next_send_def Let_def
        split: if_splits outcome.splits option.splits prod.splits list.splits)
  ultimately show ?thesis
    using step a(2) response_entries_delay [OF e(1)] framed_body [OF e(2), of "cl_closeConnAfterRequest (lc_client st)"] unfolding Let_def by fastforce
qed


subsection \<open>Example\<close>

text \<open>A client at 10.0.0.1 with the rules of \<open>sample_entry\<close> asks for \<open>h\<close>, and the server says hello.\<close>

definition exchange_events :: "rt_event list" where
  "exchange_events = [BeginRead, BeginWrite, Write None True, ReadResponse (Some sample_resp) None, StartTimer, Cancel]"

definition exchange_request :: "rbody request" where
  "exchange_request = sample_get\<lparr>rq_Host := ''h''\<rparr>"

definition exchange_world :: world where
  "exchange_world = sample_world\<lparr>w_requests := [(7, Some exchange_request, None)],
     w_scheds := [(exchange_events, [])], w_sessions := store_rules ''10.0.0.1'' [sample_entry] no_sessions\<rparr>"

definition exchange_state :: "octets lc" where
  "exchange_state = listen_start (sample_proxy\<lparr>px_Modify := Some (on_request host_api)\<rparr>)
     (accept_client sample_proxy 1 0) exchange_world"

lemma exchange_listen:
  "\<exists>r. client_Listen read_request (lc_client exchange_state) (lc_world exchange_state) =
      (Some r, None, (lc_world exchange_state)\<lparr>w_requests := [], w_time := 7\<rparr>) \<and>
    r = exchange_request\<lparr>rq_URL := sample_url ''h:80'', rq_Host := []\<rparr>"
  by (simp add: exchange_state_def listen_start_def client_Listen_def read_request_def is_open_def exchange_world_def
      exchange_request_def sample_world_def sample_net_def sample_get_def sample_url_def resolveRealHost_def
      insertPort_def SplitHostAndPort_def)

lemma hdr_Del_empty: "hdr_Del (\<lambda>k. None) k = (\<lambda>k. None)"
  by (simp add: hdr_Del_def fun_eq_iff)

lemma exchange_prepared:
  "prepare_request addr (exchange_request\<lparr>rq_URL := sample_url ''h:80'', rq_Host := []\<rparr>) =
    exchange_request\<lparr>rq_URL := sample_url ''h'', rq_Host := [], rq_RemoteAddr := addr, rq_Header := Map.empty\<rparr>"
  by (simp add: prepare_request_def removeProxyHeaders_def removeRedundantPort_def SplitHostAndPort_def
      exchange_request_def sample_get_def sample_url_def hdr_Del_empty)


lemma exchange_round_trip:
  fixes r :: "rbody request"
  assumes "rq_URL r = sample_url ''h''" and "rq_ContentLength r = 0" and "rq_Header r = Map.empty"
  shows "\<exists>req' server' nt. sc_RoundTrip sample_dec remote exchange_events [] (new_server t) (Some r) sample_net =
    Some (Ret ((Some sample_resp, None), Some req', server', nt)) \<and> nt_open nt = [1, 3]"
proof -
  let ?r = "request_frame r"
  have r: "rq_URL ?r = sample_url ''h''" "hdr_Get (rq_Header ?r) ''Remote-Address'' = []"
    using assms
    by (simp_all add: request_frame_def request_measure_def request_delimit_def request_strip_def hdr_Get_def hdr_simps)
      (simp add: hdr_values_def)
  note dialled = sc_Open_def make_conns_def make_room_def createConn_def dial_def host_key_def insertPort_def
    SplitHostAndPort_def r new_server_def sample_net_def sample_url_def
  have "\<exists>scp nt. sc_Open (new_server t) ?r sample_net = (None, scp, nt) \<and> sc_Conn scp = Some 3 \<and> nt_open nt = [1, 3]"
    by (simp add: dialled Let_def numeral_eq_Suc)
  then obtain scp nt where o: "sc_Open (new_server t) ?r sample_net = (None, scp, nt)" "sc_Conn scp = Some 3"
    "nt_open nt = [1, 3]" by blast
  have plain: "chunk_unknown sample_resp = sample_resp" "close_with_conn c sample_resp = sample_resp" for c
    by (simp_all add: chunk_unknown_def close_with_conn_def sample_resp_def zero_response_def)
  have "\<exists>scp2 nt2 used. tryRoundTrip sample_dec remote exchange_events (new_server t) ?r sample_net =
      Some (Ret ((Some sample_resp, None, None, used), ?r, scp2, nt2)) \<and> nt_open nt2 = [1, 3]"
    unfolding tryRoundTrip_def o(1) exchange_events_def
    by (simp add: o r rt_start_def sc_Listen_def no_decoding sample_resp_plain once_cancel_def rt_finished_def plain) blast
  then show ?thesis by (auto simp: sc_RoundTrip_def Let_def)
qed


theorem exchange_delivered_witness:
  "\<exists>ctl st' out ob c. listen_step sample_outside 1 exchange_state = Some (Ret (ctl, st')) \<and>
    w_sent (lc_world st') = [out] \<and> rs_Body out = Some (ob, c) \<and> reads_as ob ''>>hello'' EOF"
proof -
  let ?st = "exchange_state"
  let ?w = "(lc_world ?st)\<lparr>w_requests := [], w_time := 7\<rparr>"
  let ?r = "exchange_request\<lparr>rq_URL := sample_url ''h:80'', rq_Host := []\<rparr>"
  let ?req = "prepare_request (ou_remote sample_outside 1) ?r"
  let ?ip = "''10.0.0.1''"
  have l: "client_Listen read_request (lc_client ?st) (lc_world ?st) = (Some ?r, None, ?w)" using exchange_listen by blast
  have st: "cl_Conn (lc_client ?st) = Some (1, False)" "px_Modify (lc_px ?st) = Some (on_request host_api)"
    "lc_server ?st = new_server (30 * second)" by (simp_all add: exchange_state_def listen_start_def sample_proxy_def Proxy_def)
  have get: "rq_Method ?r \<noteq> ''CONNECT''" by (simp add: exchange_request_def sample_get_def)
  have req: "?req = exchange_request\<lparr>rq_URL := sample_url ''h'', rq_Host := [], rq_RemoteAddr := ''10.0.0.1:80'',
      rq_Header := Map.empty\<rparr>"
    by (simp add: exchange_prepared sample_outside_def)
  have host: "fst (SplitHostAndPort (url_Host (rq_URL ?req))) \<noteq> ''a.proxi''"
    unfolding req by (simp add: sample_url_def SplitHostAndPort_def)
  have ip: "?ip = fst (SplitHostAndPort (ou_remote sample_outside (fst (1 :: conn, False))))"
    by (simp add: sample_outside_def SplitHostAndPort_def numeral_eq_Suc)
  have rules: "[sample_entry] = rules_of ?ip (w_sessions ?w)"
    by (simp add: exchange_state_def listen_start_def exchange_world_def)
  have url: "''h'' = ae_urlString host_api (rq_URL ?req)"
    unfolding req by (simp add: host_api_def sample_url_def)
  have m: "matches ''h'' sample_entry"
    by (simp add: matches_def sample_entry_def MatchString_def class_find upt_rec)
  have br: "body_rules ''h'' [sample_entry] = [empty_rule\<lparr>rule_Prepend := Some ''>>''\<rparr>]"
    using m unfolding body_rules_def by simp (simp add: sample_entry_def)
  let ?ss = "store_used ?ip (w_time ?w) (w_sessions ?w)"
  have entries: "request_entries host_api ?ip (w_time ?w) ''h'' [sample_entry] ?req ?ss = Ret (Some ?req, ?ss)"
    using m unfolding req
    by (simp add: sample_entry_def matches_def request_entry_def AlterURL_def AlterHeader_def host_api_def
        sample_api_def alter_message_body_def Let_def exchange_request_def sample_get_def sample_url_def)
  let ?sent = "?req\<lparr>rq_Host := url_Host (rq_URL ?req)\<rparr>"
  have "rq_URL ?sent = sample_url ''h''" "rq_ContentLength ?sent = 0" "rq_Header ?sent = Map.empty"
    unfolding req by simp_all (simp add: exchange_request_def sample_get_def)
  from exchange_round_trip [OF this, of "ae_remote host_api" "30 * second"] obtain req' server' nt where
    "sc_RoundTrip sample_dec (ae_remote host_api) exchange_events [] (new_server (30 * second)) (Some ?sent) sample_net =
      Some (Ret ((Some sample_resp, None), Some req', server', nt))" and open': "nt_open nt = [1, 3]" by blast
  moreover have "w_net ?w = sample_net" "w_scheds ?w = [(exchange_events, [])]" "ae_dec host_api = sample_dec"
    by (simp_all add: exchange_state_def listen_start_def exchange_world_def sample_world_def host_api_def sample_api_def)
  ultimately obtain w1 where rt: "round_trip (ae_dec host_api) (ae_remote host_api) (lc_server ?st) (Some ?sent)
      (?w\<lparr>w_sessions := ?ss\<rparr>) = Some (Ret ((Some sample_resp, None), Some req', server', w1))"
    and w1: "w1 = ?w\<lparr>w_sessions := ?ss, w_net := nt, w_scheds := []\<rparr>"
    unfolding st(3) by (simp add: round_trip_def)
  have send: "sendable (1, False) w1"
    using open' by (simp add: w1 sendable_def next_send_def is_open_def exchange_state_def listen_start_def
        exchange_world_def sample_world_def)
  have body: "body_is (rs_Body sample_resp) ''hello'' EOF [RBody]"
    unfolding body_is_def
    by (intro exI [of _ "(rdr_of string_read ''hello'', CloseOf RBody)"] exI [of _ "[]"])
      (use strr.rdr_of_reads_as [of "''hello''"] in \<open>simp add: sample_resp_def\<close>)
  have ok: "\<forall>entry \<in> set [sample_entry]. en_URL entry \<noteq> None" "\<forall>rule \<in> set (body_rules ''h'' [sample_entry]). streamable rule"
    by (simp add: sample_entry_def) (simp add: br streamable_def wf_rule_def empty_rule_def)
  have out: "foldl applyRule ''hello'' (body_rules ''h'' [sample_entry]) = ''>>hello''"
    "last_error (body_rules ''h'' [sample_entry]) EOF = EOF" "body_rules ''h'' [sample_entry] \<noteq> []"
    by (simp_all add: br applyRule_def empty_rule_def last_error_def replaces_body_def)
  have sent: "w_sent (lc_world ?st) = []"
    by (simp add: exchange_state_def listen_start_def exchange_world_def sample_world_def)
  have prepared: "?req = prepare_request (ou_remote sample_outside (fst (1 :: conn, False))) ?r" by simp
  have rewritten: "\<not> (rs_ContentLength sample_resp = 0 \<and> body_rules ''h'' [sample_entry] = [])" using out(3) by simp
  from exchange_delivered [OF l st(1) get st(2) prepared host ip rules url entries rt ok body send, of 1] show ?thesis
    unfolding out(1,2) sent append_Nil if_not_P [OF rewritten] by blast
qed

end
