(* ===== verification/Lifetimes.thy ===== *)
theory Lifetimes
  imports ProxySafety Isolation
begin

text \<open>
  The two loops that run beside the clients for as long as the program does: the session cleaner
  of \<open>main.go\<close> and the timeout checker of \<open>proxy/proxy.go\<close>.  A turn of such a loop is a script:
  how much longer than asked the sleep took, and what everybody else did in the meantime.
\<close>

subsection \<open>The session cleaner\<close>

record tick =
  tk_late :: int
  tk_events :: "session_event list"
  tk_keys :: "string list"

fun launchSessionCleaner :: "int \<Rightarrow> int \<Rightarrow> int \<Rightarrow> tick list \<Rightarrow> int \<times> sessions \<Rightarrow> int \<times> sessions" where
  "launchSessionCleaner unrep period expiration [] s = s"
| "launchSessionCleaner unrep period expiration (t # ts) (now, ss) =
     (let ss = session_run unrep (tk_events t) ss;
          now = now + period + tk_late t
      in launchSessionCleaner unrep period expiration ts (now, clean_round expiration now (tk_keys t) ss))"

text \<open>As \<open>main\<close> starts it: every minute, for clients not seen for two days.\<close>

definition session_cleaner :: "int \<Rightarrow> tick list \<Rightarrow> int \<times> sessions \<Rightarrow> int \<times> sessions" where
  "session_cleaner unrep = launchSessionCleaner unrep (60 * second) (48 * 3600 * second)"

text \<open>A turn in which a client does nothing.  \<open>Range\<close> visits every key that stays in the map, and no
  key twice.\<close>

definition silent :: "string \<Rightarrow> tick \<Rightarrow> bool" where
  "silent ip t \<longleftrightarrow> 0 \<le> tk_late t \<and> distinct (tk_keys t) \<and> ip \<in> set (tk_keys t) \<and>
     list_all (\<lambda>e. clean_distinct e \<and> \<not> concerns ip e) (tk_events t)"

definition forgotten :: view where
  "forgotten = \<lparr>vw_used = None, vw_rules = None, vw_throttled = False, vw_controllers = Map.empty\<rparr>"

lemma silent_events:
  assumes "own_controllers ss" and "list_all (\<lambda>e. clean_distinct e \<and> \<not> concerns ip e) es"
  shows "own_controllers (session_run unrep es ss) \<and> view_of ip (session_run unrep es ss) = view_of ip ss"
  using assms
proof (induction es arbitrary: ss)
  case (Cons e es)
  from Cons.prems session_step [OF Cons.prems(1), of e unrep]
  have "own_controllers (session_exec unrep e ss)" "view_of ip (session_exec unrep e ss) = view_of ip ss"
    by (simp_all add: step_ok_def)
  with Cons.IH [of "session_exec unrep e ss"] Cons.prems(2) show ?case by (simp add: session_run_def)
qed (simp add: session_run_def)

lemma silent_tick:
  assumes "own_controllers ss" and "silent ip t"
  shows "own_controllers (clean_round expiration now (tk_keys t) (session_run unrep (tk_events t) ss))"
    and "view_of ip (clean_round expiration now (tk_keys t) (session_run unrep (tk_events t) ss)) =
      (if view_stale expiration now (view_of ip ss) then forgotten else view_of ip ss)"
proof -
  let ?ss = "session_run unrep (tk_events t) ss"
  have ev: "own_controllers ?ss" "view_of ip ?ss = view_of ip ss"
    using silent_events [OF assms(1), of ip "tk_events t" unrep] assms(2) by (simp_all add: silent_def)
  have "step_ok unrep (Clean expiration now (tk_keys t)) ?ss"
    using assms(2) by (intro step_Clean ev(1)) (simp add: silent_def)
  then show "own_controllers (clean_round expiration now (tk_keys t) ?ss)"
    and "view_of ip (clean_round expiration now (tk_keys t) ?ss) =
      (if view_stale expiration now (view_of ip ss) then forgotten else view_of ip ss)"
    using assms(2) ev(2) by (simp_all add: step_ok_def silent_def forgotten_def)
qed

lemma cleaner_time:
  "launchSessionCleaner unrep period expiration ts (now, ss) = (now', ss') \<Longrightarrow> list_all (\<lambda>t. 0 \<le> tk_late t) ts \<Longrightarrow>
     now + int (length ts) * period \<le> now'"
proof (induction ts arbitrary: now ss)
  case (Cons t ts)
  let ?now = "now + period + tk_late t"
  from Cons have "?now + int (length ts) * period \<le> now'" by (simp add: Let_def)
  with Cons.prems(2) show ?case by (simp add: algebra_simps)
qed simp

lemma cleaner_view:
  assumes "own_controllers ss" and "list_all (silent ip) ts" and "0 \<le> period"
    and "launchSessionCleaner unrep period expiration ts (now, ss) = (now', ss')"
  shows "view_of ip ss' = (if ts \<noteq> [] \<and> view_stale expiration now' (view_of ip ss) then forgotten else view_of ip ss)"
  using assms(1,2,4)
proof (induction ts arbitrary: now ss)
  case (Cons t ts)
  let ?now = "now + period + tk_late t"
  let ?ss = "clean_round expiration ?now (tk_keys t) (session_run unrep (tk_events t) ss)"
  have t: "silent ip t" "list_all (silent ip) ts" using Cons.prems(2) by simp_all
  have run: "launchSessionCleaner unrep period expiration ts (?now, ?ss) = (now', ss')"
    using Cons.prems(3) by (simp add: Let_def)
  note tick = silent_tick [OF Cons.prems(1) t(1), of expiration ?now unrep]
  have "list_all (\<lambda>t. 0 \<le> tk_late t) ts" using t(2) by (auto simp: list_all_iff silent_def)
  from cleaner_time [OF run this] have "?now \<le> now'"
    using mult_nonneg_nonneg [of "int (length ts)" period] assms(3) by linarith
  then have later: "view_stale expiration ?now v \<Longrightarrow> view_stale expiration now' v" for v
    by (auto simp: view_stale_def split: option.splits)
  have none: "\<not> view_stale expiration now' forgotten" by (simp add: view_stale_def forgotten_def)
  have one: "view_stale expiration ?now (view_of ip ss)" if "ts = []" "view_stale expiration now' (view_of ip ss)"
    using that run by simp
  from Cons.IH [OF tick(1) t(2) run] tick(2) later none one show ?case by auto
qed simp

text \<open>(C25) How long a client is remembered.  While a client is silent, whatever all others do and
  however late the cleaner wakes up, all of its state stays as it is until a turn of the cleaner
  more than \<open>expiration\<close> after its last request, and that turn removes all of it: its rules, its
  controllers and the record of the request.  That turn comes: the clock has advanced by at least
  \<open>period\<close> with every turn.\<close>

theorem session_lifetime:
  assumes "own_controllers ss" and "ss_lastTimeUsed ss ip = Some used" and "0 \<le> period"
    and "list_all (silent ip) ts"
    and "launchSessionCleaner unrep period expiration ts (now, ss) = (now', ss')"
  shows "view_of ip ss' = (if ts \<noteq> [] \<and> used + expiration < now' then forgotten else view_of ip ss) \<and>
    now + int (length ts) * period \<le> now'"
proof -
  have "view_stale expiration now' (view_of ip ss) \<longleftrightarrow> used + expiration < now'"
    using assms(2) by (simp add: view_stale_def view_of_def)
  moreover have "list_all (\<lambda>t. 0 \<le> tk_late t) ts" using assms(4) by (auto simp: list_all_iff silent_def)
  ultimately show ?thesis
    using cleaner_view [OF assms(1,4,3,5)] cleaner_time [OF assms(5)] by simp
qed

theorem session_lifetime_witness:
  "view_of ''a'' (snd (launchSessionCleaner 0 10 15
      [\<lparr>tk_late = 1, tk_events = [Seen ''b'' 3], tk_keys = [''b'', ''a'']\<rparr>,
       \<lparr>tk_late = 0, tk_events = [], tk_keys = [''a'', ''b'']\<rparr>] (0, store_used ''a'' 0 no_sessions))) = forgotten"
proof -
  let ?ts = "[\<lparr>tk_late = 1, tk_events = [Seen ''b'' 3], tk_keys = [''b'', ''a'']\<rparr>,
    \<lparr>tk_late = 0, tk_events = [], tk_keys = [''a'', ''b'']\<rparr>]"
  let ?run = "launchSessionCleaner 0 10 15 ?ts (0, store_used ''a'' 0 no_sessions)"
  have own: "own_controllers (store_used ''a'' 0 no_sessions)"
    using step_Seen [OF own_no, of 0 "''a''" 0] by (simp add: step_ok_def)
  have used: "ss_lastTimeUsed (store_used ''a'' 0 no_sessions) ''a'' = Some 0" by (simp add: store_used_def)
  have silent: "list_all (silent ''a'') ?ts" by (simp add: silent_def)
  have "fst ?run = 21" by simp
  with session_lifetime [OF own used _ silent, of 10 0 15 0 "fst ?run" "snd ?run"] show ?thesis by simp
qed


subsection \<open>The cleaner and a client at the same time\<close>

text \<open>A round is not atomic: the function given to \<open>Range\<close> gets the time of a key, and removes the key
  from the three maps one after the other; requests may come in between.\<close>

datatype removal = FromTimes string | FromRules string | FromControllers string

fun remove_key :: "removal \<Rightarrow> sessions \<Rightarrow> sessions" where
  "remove_key (FromTimes ip) ss = ss\<lparr>ss_lastTimeUsed := (ss_lastTimeUsed ss)(ip := None)\<rparr>"
| "remove_key (FromRules ip) ss = ss\<lparr>ss_rewriteRules := (ss_rewriteRules ss)(ip := None)\<rparr>"
| "remove_key (FromControllers ip) ss = ss\<lparr>ss_throttledConnections := (ss_throttledConnections ss)(ip := None)\<rparr>"

datatype cleaner_event = Visit string int | Remove | Other session_event

fun cleaner_exec ::
  "int \<Rightarrow> int \<Rightarrow> cleaner_event \<Rightarrow> sessions \<times> removal list \<Rightarrow> (sessions \<times> removal list) option" where
  "cleaner_exec unrep expiration (Visit ip now) (ss, todo) =
     (if todo \<noteq> [] then None
      else case ss_lastTimeUsed ss ip of
             None \<Rightarrow> Some (ss, [])
           | Some used \<Rightarrow>
               Some (ss, if used + expiration < now then [FromTimes ip, FromRules ip, FromControllers ip] else []))"
| "cleaner_exec unrep expiration Remove (ss, todo) =
     (case todo of [] \<Rightarrow> None | r # rs \<Rightarrow> Some (remove_key r ss, rs))"
| "cleaner_exec unrep expiration (Other e) (ss, todo) = Some (session_exec unrep e ss, todo)"

fun cleaner_run ::
  "int \<Rightarrow> int \<Rightarrow> cleaner_event list \<Rightarrow> sessions \<times> removal list \<Rightarrow> (sessions \<times> removal list) option" where
  "cleaner_run unrep expiration [] s = Some s"
| "cleaner_run unrep expiration (e # es) s =
     (case cleaner_exec unrep expiration e s of None \<Rightarrow> None | Some s \<Rightarrow> cleaner_run unrep expiration es s)"

text \<open>When nothing comes in between, the steps of the cleaner are \<open>clean_session\<close>.  A client that
  comes back and sets rules between the look at its time and the removals gets its answer, and
  loses the rules and the record of its request all the same, although it was seen just now.\<close>

theorem cleaner_loses_new_rules:
  assumes "ss_lastTimeUsed ss ip = Some used" and "used + expiration < now" and "rules \<noteq> []"
  shows "cleaner_run unrep expiration [Visit ip now, Remove, Remove, Remove] (ss, []) =
      Some (clean_session expiration now ip ss, []) \<and>
    (\<exists>ss'. cleaner_run unrep expiration
        [Visit ip now, Other (Seen ip now), Other (SetRules ip rules), Remove, Remove, Remove] (ss, []) = Some (ss', []) \<and>
      rules_of ip (session_run unrep [Seen ip now, SetRules ip rules] ss) = rules \<and>
      rules_of ip ss' = [] \<and> ss_lastTimeUsed ss' ip = None)"
  using assms
  by (simp add: clean_session_def store_used_def store_rules_def session_run_def rules_of_def)

definition plain_entry :: Entry where
  "plain_entry =
     \<lparr>en_URL = None, en_UploadSpeed = None, en_DownloadSpeed = Some 8000, en_ResponseDelay = None,
      en_Rewrite =
        \<lparr>wh_Request = \<lparr>ty_URL = [], ty_Header = [], ty_Body = [], ty_Status = []\<rparr>,
         wh_Response = \<lparr>ty_URL = [], ty_Header = [], ty_Body = [], ty_Status = []\<rparr>\<rparr>\<rparr>"

theorem cleaner_loses_new_rules_witness:
  "rules_of ''a'' (fst (the (cleaner_run 0 10
      [Visit ''a'' 20, Other (Seen ''a'' 20), Other (SetRules ''a'' [plain_entry]), Remove, Remove, Remove]
      (store_used ''a'' 0 no_sessions, [])))) = []"
  using cleaner_loses_new_rules [of "store_used ''a'' 0 no_sessions" "''a''" 0 10 20 "[plain_entry]" 0]
  by (auto simp: store_used_def)

subsection \<open>The timeout checker\<close>

record 'k moment =
  mo_late :: int
  mo_others :: "world \<Rightarrow> world"
  mo_clients :: "conn \<Rightarrow> handle ClientConnProps"
  mo_px :: "'k proxy"

fun launchTimeoutChecker :: "'k moment list \<Rightarrow> int \<times> world \<Rightarrow> int \<times> world" where
  "launchTimeoutChecker [] s = s"
| "launchTimeoutChecker (m # ms) (now, w) =
     (let w = mo_others m w;
          now = now + second + mo_late m
      in launchTimeoutChecker ms (now, timeout_round (mo_clients m) now (mo_px m) w))"

text \<open>A turn in which a client waits: it is in the set of the idle ones, and nobody else opens or closes
  its connection.\<close>

definition waiting :: "conn \<Rightarrow> handle ClientConnProps \<Rightarrow> 'k moment \<Rightarrow> bool" where
  "waiting c client m \<longleftrightarrow> 0 \<le> mo_late m \<and> cs_Contains (px_idleConns (mo_px m)) c \<and> mo_clients m c = client \<and>
     (\<forall>d \<in> set (cs_m (px_idleConns (mo_px m))). map_option fst (cl_Conn (mo_clients m d)) = Some d) \<and>
     (\<forall>w. c \<in> set (nt_open (w_net (mo_others m w))) \<longleftrightarrow> c \<in> set (nt_open (w_net w)))"

lemma waiting_round:
  assumes "waiting c client m"
  shows "c \<in> set (nt_open (w_net (timeout_round (mo_clients m) now (mo_px m) (mo_others m w)))) \<longleftrightarrow>
    c \<in> set (nt_open (w_net w)) \<and> now \<le> cl_lastUsedTime client + cl_idleTimeout client"
  using assms
  by (auto simp: waiting_def timeout_round_def cs_Range_def timeout_loop cs_Contains_def expired_def)

lemma checker_time:
  "launchTimeoutChecker ms (now, w) = (now', w') \<Longrightarrow> list_all (\<lambda>m. 0 \<le> mo_late m) ms \<Longrightarrow>
     now + int (length ms) * second \<le> now'"
proof (induction ms arbitrary: now w)
  case (Cons m ms)
  let ?now = "now + second + mo_late m"
  from Cons have "?now + int (length ms) * second \<le> now'" by (simp add: Let_def)
  with Cons.prems(2) show ?case by (simp add: algebra_simps)
qed simp

text \<open>(C26) The idle timeout is kept to the second: a client that waits for longer than its timeout is
  disconnected by the first turn of the checker after that, not before, whatever the other
  clients do; and the turns are at least a second apart.\<close>

theorem idle_client_closed:
  assumes "list_all (waiting c client) ms" and "launchTimeoutChecker ms (now, w) = (now', w')"
  shows "(c \<in> set (nt_open (w_net w')) \<longleftrightarrow> c \<in> set (nt_open (w_net w)) \<and>
      (ms = [] \<or> now' \<le> cl_lastUsedTime client + cl_idleTimeout client)) \<and>
    now + int (length ms) * second \<le> now'"
proof
  show "now + int (length ms) * second \<le> now'"
    using checker_time [OF assms(2)] assms(1) by (simp add: list_all_iff waiting_def)
  show "c \<in> set (nt_open (w_net w')) \<longleftrightarrow> c \<in> set (nt_open (w_net w)) \<and>
      (ms = [] \<or> now' \<le> cl_lastUsedTime client + cl_idleTimeout client)"
    using assms
  proof (induction ms arbitrary: now w)
    case (Cons m ms)
    let ?now = "now + second + mo_late m"
    let ?w = "timeout_round (mo_clients m) ?now (mo_px m) (mo_others m w)"
    have m: "waiting c client m" "list_all (waiting c client) ms" using Cons.prems(1) by simp_all
    have run: "launchTimeoutChecker ms (?now, ?w) = (now', w')" using Cons.prems(2) by (simp add: Let_def)
    have "list_all (\<lambda>m. 0 \<le> mo_late m) ms" using m(2) by (simp add: list_all_iff waiting_def)
    from checker_time [OF run this] have "?now \<le> now'" by (simp add: second_def)
    moreover have "ms = [] \<Longrightarrow> now' = ?now" using run by simp
    ultimately show ?case using Cons.IH [OF m(2) run] waiting_round [OF m(1), of ?now w] by auto
  qed simp
qed

text \<open>Two seconds of a client with a timeout of one.\<close>

definition sample_moment :: "octets moment" where
  "sample_moment =
     \<lparr>mo_late = 0, mo_others = (\<lambda>w. w\<lparr>w_time := w_time w + 1\<rparr>),
      mo_clients = (\<lambda>c. (accept_client sample_proxy c 0)\<lparr>cl_idleTimeout := second\<rparr>),
      mo_px = sample_proxy\<lparr>px_idleConns := cs_Add new_connSet 1\<rparr>\<rparr>"

theorem idle_client_closed_witness:
  "1 \<notin> set (nt_open (w_net (snd (launchTimeoutChecker [sample_moment, sample_moment] (0, sample_world)))))"
proof -
  let ?client = "(accept_client sample_proxy 1 0)\<lparr>cl_idleTimeout := second\<rparr>"
  have set: "cs_m (cs_Add new_connSet (1 :: conn)) = [1]" by (simp add: cs_Add_def new_connSet_def cs_Contains_def)
  then have m: "list_all (waiting 1 ?client) [sample_moment, sample_moment]"
    by (simp add: waiting_def sample_moment_def cs_Contains_def accept_client_def del: One_nat_def)
  let ?run = "launchTimeoutChecker [sample_moment, sample_moment] (0, sample_world)"
  have "fst ?run = 2 * second" by (simp add: sample_moment_def Let_def)
  then obtain w' where run: "?run = (2 * second, w')" by (cases ?run) simp
  have "cl_lastUsedTime ?client = 0" "cl_idleTimeout ?client = second" by (simp_all add: accept_client_def)
  with idle_client_closed [OF m run] have "1 \<notin> set (nt_open (w_net w'))" by (simp add: second_def)
  with run show ?thesis by (simp del: launchTimeoutChecker.simps)
qed

end
