(* ===== verification/Program.thy ===== *)
theory Program
  imports Startup AcceptLoop
begin

text \<open>
  The program as a process: the end of \<open>main\<close> in \<open>main.go\<close>, \<open>launchExposedAPI\<close>, and \<open>Listen\<close> of
  \<open>proxy/proxy.go\<close> around its loop.  \<open>main\<close> starts the session cleaner and the API as goroutines
  and listens itself; when \<open>Listen\<close> returns, so does \<open>main\<close>, and its goroutines and listeners go with it.
  The system is an argument: the port an address stands for, and whether that port is granted,
  given the ports the process listens on already (port 0 asks for any free one).
\<close>

subsection \<open>Listening\<close>

record system =
  sy_resolve :: "string \<Rightarrow> goerr + int"
  sy_grant :: "int \<Rightarrow> int list \<Rightarrow> goerr + int"

text \<open>What is relied on: a port that is granted is free and is the one that was asked for.\<close>

definition system_ok :: "system \<Rightarrow> bool" where
  "system_ok sy \<longleftrightarrow> (\<forall>p bound q. sy_grant sy p bound = Inr q \<longrightarrow> q \<notin> set bound \<and> (p \<noteq> 0 \<longrightarrow> q = p))"

definition net_Listen :: "system \<Rightarrow> string \<Rightarrow> int list \<Rightarrow> goerr + int" where
  "net_Listen sy host bound =
     (case sy_resolve sy host of
        Inl err \<Rightarrow> Inl err
      | Inr port \<Rightarrow> sy_grant sy port bound)"

subsection \<open>The process\<close>

datatype owner = API | PROXY
datatype goroutine = SessionCleaner | LaunchAPI | ServeAPI | TimeoutChecker

text \<open>Where \<open>main\<close> is: before one of its last three statements, in the loop of \<open>Listen\<close>, or past its end.\<close>

datatype 'k main_pc = AtCleaner | AtAPI | AtListen | InListen "'k accept_state" | Returned

record 'k process =
  ps_main :: "'k main_pc"
  ps_goroutines :: "goroutine list"
  ps_ports :: "(int \<times> owner) list"

text \<open>A step of \<open>main\<close>; the end of \<open>launchExposedAPI\<close>'s call of \<open>net.Listen\<close>; the API's listener fails later;
  a step of the loop of \<open>Listen\<close>, or the error of \<open>Accept\<close> that ends it.\<close>

datatype process_event = Main | StartAPI | FailAPI | Client accept_event | AcceptFailed

definition new_process :: "'k process" where
  "new_process = \<lparr>ps_main = AtCleaner, ps_goroutines = [], ps_ports = []\<rparr>"

text \<open>The proxy as \<open>main\<close> makes it.\<close>

definition main_proxy :: "api \<Rightarrow> 'k tls_certificate service \<Rightarrow> 'k proxy" where
  "main_proxy ae sv =
     OnRequest (Proxy\<lparr>px_Cert := sv_Cert sv\<rparr>) (Some (on_request (ae\<lparr>ae_caBytes := sv_caBytes sv\<rparr>)))"

definition go :: "goroutine \<Rightarrow> 'k process \<Rightarrow> 'k process" where
  "go g s = s\<lparr>ps_goroutines := ps_goroutines s @ [g]\<rparr>"

text \<open>The end of \<open>main\<close> is the end of the process.\<close>

definition main_returns :: "'k process \<Rightarrow> 'k process" where
  "main_returns s = s\<lparr>ps_main := Returned, ps_goroutines := [], ps_ports := []\<rparr>"

definition launchExposedAPI :: "system \<Rightarrow> string \<Rightarrow> 'k process \<Rightarrow> 'k process" where
  "launchExposedAPI sy host s =
     (let s = s\<lparr>ps_goroutines := remove1 LaunchAPI (ps_goroutines s)\<rparr>
      in case net_Listen sy host (map fst (ps_ports s)) of
           Inl err \<Rightarrow> s
         | Inr port \<Rightarrow> go ServeAPI (s\<lparr>ps_ports := (port, API) # ps_ports s\<rparr>))"

definition proxy_Listen :: "system \<Rightarrow> 'k proxy \<Rightarrow> string \<Rightarrow> 'k process \<Rightarrow> 'k process" where
  "proxy_Listen sy p host s =
     (case net_Listen sy host (map fst (ps_ports s)) of
        Inl err \<Rightarrow> main_returns s
      | Inr port \<Rightarrow> go TimeoutChecker (s\<lparr>ps_main := InListen (new_listener p), ps_ports := (port, PROXY) # ps_ports s\<rparr>))"

fun process_exec ::
  "system \<Rightarrow> api \<Rightarrow> 'k tls_certificate service \<Rightarrow> process_event \<Rightarrow> 'k process \<Rightarrow> 'k process option" where
  "process_exec sy ae sv Main s =
     (case ps_main s of
        AtCleaner \<Rightarrow> Some ((go SessionCleaner s)\<lparr>ps_main := AtAPI\<rparr>)
      | AtAPI \<Rightarrow> Some ((go LaunchAPI s)\<lparr>ps_main := AtListen\<rparr>)
      | AtListen \<Rightarrow> Some (proxy_Listen sy (main_proxy ae sv) (sv_proxyAddress sv) s)
      | _ \<Rightarrow> None)"
| "process_exec sy ae sv StartAPI s =
     (if LaunchAPI \<in> set (ps_goroutines s) then Some (launchExposedAPI sy (sv_apiAddress sv) s) else None)"
| "process_exec sy ae sv FailAPI s =
     (if ServeAPI \<in> set (ps_goroutines s)
      then Some (s\<lparr>ps_goroutines := remove1 ServeAPI (ps_goroutines s),
                  ps_ports := filter (\<lambda>x. snd x \<noteq> API) (ps_ports s)\<rparr>)
      else None)"
| "process_exec sy ae sv (Client e) s =
     (case ps_main s of InListen a \<Rightarrow> map_option (\<lambda>a. s\<lparr>ps_main := InListen a\<rparr>) (accept_exec e a) | _ \<Rightarrow> None)"
| "process_exec sy ae sv AcceptFailed s =
     (case ps_main s of InListen a \<Rightarrow> Some (main_returns s) | _ \<Rightarrow> None)"

fun process_run ::
  "system \<Rightarrow> api \<Rightarrow> 'k tls_certificate service \<Rightarrow> process_event list \<Rightarrow> 'k process \<Rightarrow> 'k process option" where
  "process_run sy ae sv [] s = Some s"
| "process_run sy ae sv (e # es) s =
     (case process_exec sy ae sv e s of None \<Rightarrow> None | Some s \<Rightarrow> process_run sy ae sv es s)"

text \<open>Who answers a connection to a port.\<close>

definition answers_at :: "'k process \<Rightarrow> int \<Rightarrow> owner option" where
  "answers_at s port = map_of (ps_ports s) port"

subsection \<open>The invariant\<close>

definition stands_for :: "system \<Rightarrow> string \<Rightarrow> int \<Rightarrow> bool" where
  "stands_for sy host q \<longleftrightarrow> (\<exists>p. sy_resolve sy host = Inr p \<and> (p \<noteq> 0 \<longrightarrow> q = p))"

definition ports_ok :: "system \<Rightarrow> 'k tls_certificate service \<Rightarrow> (int \<times> owner) list \<Rightarrow> bool" where
  "ports_ok sy sv ports \<longleftrightarrow> distinct (map fst ports) \<and>
     (\<forall>q. (q, API) \<in> set ports \<longrightarrow> stands_for sy (sv_apiAddress sv) q) \<and>
     (\<forall>q. (q, PROXY) \<in> set ports \<longrightarrow> stands_for sy (sv_proxyAddress sv) q)"

definition process_inv :: "system \<Rightarrow> api \<Rightarrow> 'k tls_certificate service \<Rightarrow> 'k process \<Rightarrow> bool" where
  "process_inv sy ae sv s \<longleftrightarrow> ports_ok sy sv (ps_ports s) \<and> distinct (ps_goroutines s) \<and>
     (LaunchAPI \<in> set (ps_goroutines s) \<longrightarrow> API \<notin> snd ` set (ps_ports s) \<and> ServeAPI \<notin> set (ps_goroutines s)) \<and>
     (case ps_main s of
        AtCleaner \<Rightarrow> ps_ports s = [] \<and> ps_goroutines s = []
      | AtAPI \<Rightarrow> ps_ports s = [] \<and> ps_goroutines s = [SessionCleaner]
      | AtListen \<Rightarrow> PROXY \<notin> snd ` set (ps_ports s) \<and> TimeoutChecker \<notin> set (ps_goroutines s)
      | InListen a \<Rightarrow> PROXY \<in> snd ` set (ps_ports s) \<and> (\<exists>ces. accept_reach (\<lambda>_ _. True) (main_proxy ae sv) ces a)
      | Returned \<Rightarrow> ps_ports s = [] \<and> ps_goroutines s = [])"

lemma net_Listen_ok:
  assumes "system_ok sy" and "net_Listen sy host bound = Inr q"
  shows "q \<notin> set bound \<and> stands_for sy host q"
  using assms unfolding system_ok_def net_Listen_def stands_for_def by (auto split: sum.splits)

lemma ports_ok_Cons:
  assumes "system_ok sy" and "net_Listen sy (case ow of API \<Rightarrow> sv_apiAddress sv | PROXY \<Rightarrow> sv_proxyAddress sv) (map fst ports) = Inr q"
    and "ports_ok sy sv ports"
  shows "ports_ok sy sv ((q, ow) # ports)"
  using net_Listen_ok [OF assms(1,2)] assms(3) by (cases ow) (auto simp: ports_ok_def)

lemma ports_ok_filter: "ports_ok sy sv ports \<Longrightarrow> ports_ok sy sv (filter P ports)"
  by (auto simp: ports_ok_def distinct_map_filter)

lemma process_inv_step:
  assumes "system_ok sy" and "process_exec sy ae sv e s = Some s'" and "process_inv sy ae sv s"
  shows "process_inv sy ae sv s'"
proof (cases e)
  case Main
  have start: "\<exists>ces. accept_reach (\<lambda>_ _. True) (main_proxy ae sv) ces (new_listener (main_proxy ae sv))"
    using accept_reach.start by blast
  show ?thesis
  proof (cases "ps_main s = AtListen")
    case True
    show ?thesis
    proof (cases "net_Listen sy (sv_proxyAddress sv) (map fst (ps_ports s))")
      case (Inl err)
      with True Main assms(2) show ?thesis
        by (auto simp: proxy_Listen_def main_returns_def process_inv_def ports_ok_def)
    next
      case (Inr q)
      with ports_ok_Cons [OF assms(1), where ow = PROXY and sv = sv and ports = "ps_ports s" and q = q] True Main assms(2,3) start show ?thesis
        by (auto simp: proxy_Listen_def go_def process_inv_def)
    qed
  next
    case False
    with Main assms(2,3) show ?thesis by (auto simp: go_def process_inv_def ports_ok_def split: main_pc.splits)
  qed
next
  case StartAPI
  let ?g = "remove1 LaunchAPI (ps_goroutines s)"
  have pc: "LaunchAPI \<in> set (ps_goroutines s)" "ps_main s = AtListen \<or> (\<exists>a. ps_main s = InListen a)"
    using StartAPI assms(2,3) by (auto simp: process_inv_def split: if_splits main_pc.splits)
  show ?thesis
  proof (cases "net_Listen sy (sv_apiAddress sv) (map fst (ps_ports s))")
    case (Inl err)
    with pc StartAPI assms(2,3) show ?thesis
      by (auto simp: launchExposedAPI_def process_inv_def Let_def split: main_pc.splits)
  next
    case (Inr q)
    with ports_ok_Cons [OF assms(1), where ow = API and sv = sv and ports = "ps_ports s" and q = q] pc StartAPI assms(2,3) show ?thesis
      by (auto simp: launchExposedAPI_def go_def process_inv_def Let_def split: main_pc.splits)
  qed
next
  case FailAPI
  then have "ps_main s = AtListen \<or> (\<exists>a. ps_main s = InListen a)"
    using assms(2,3) by (auto simp: process_inv_def split: if_splits main_pc.splits)
  moreover have "PROXY \<in> snd ` set (filter (\<lambda>x. snd x \<noteq> API) ports) \<longleftrightarrow> PROXY \<in> snd ` set ports" for ports :: "(int \<times> owner) list"
    by force
  ultimately show ?thesis
    using FailAPI assms(2,3) ports_ok_filter [of sy sv "ps_ports s"]
    by (auto simp: process_inv_def simp del: set_filter split: if_splits)
next
  case (Client ce)
  with assms(2) obtain a a' where a: "ps_main s = InListen a" "accept_exec ce a = Some a'"
    "s' = s\<lparr>ps_main := InListen a'\<rparr>" by (auto split: main_pc.splits)
  with assms(3) obtain ces where "accept_reach (\<lambda>_ _. True) (main_proxy ae sv) ces a" by (auto simp: process_inv_def)
  from accept_reach.step [OF this TrueI a(2)] a assms(3) show ?thesis by (auto simp: process_inv_def)
next
  case AcceptFailed
  with assms(2) show ?thesis
    by (auto simp: main_returns_def process_inv_def ports_ok_def split: main_pc.splits)
qed

lemma process_inv_run:
  "process_run sy ae sv es s = Some s' \<Longrightarrow> system_ok sy \<Longrightarrow> process_inv sy ae sv s \<Longrightarrow> process_inv sy ae sv s'"
  by (induction es arbitrary: s) (auto split: option.splits dest: process_inv_step)

lemma process_inv_new: "process_inv sy ae sv new_process"
  by (simp add: process_inv_def new_process_def ports_ok_def)

lemma answers_at_iff: "process_inv sy ae sv s \<Longrightarrow> answers_at s q = Some ow \<longleftrightarrow> (q, ow) \<in> set (ps_ports s)"
  by (simp add: answers_at_def process_inv_def ports_ok_def)

lemma main_addresses:
  assumes "main pk args dk = Ret (Serving sv dk')"
  shows "2 < length args \<and> sv_apiAddress sv = '':'' @ args ! 1 \<and> sv_proxyAddress sv = '':'' @ args ! 2"
proof -
  from assms obtain caPath keyPath where "parse_flags (drop 1 args) (''ca.pem'', ''key.pem'') = Some (caPath, keyPath)"
    by (auto simp: main_def split: option.splits)
  from main_serving [OF this] assms show ?thesis by blast
qed

subsection \<open>Which port leads where\<close>

text \<open>(C27) Whatever the order of the goroutines, and whatever of them has failed: the API answers only at the
  port that the first argument of the program stands for, and the proxy only at that of the second
  (any port, if the argument asks for port 0); when both arguments stand for one port, only one of
  the two is there.  While \<open>main\<close> is in the loop of \<open>Listen\<close> the proxy answers, as it was configured
  and in a state that its accept loop reaches; and once \<open>main\<close> has returned, because the proxy's
  port was not to be had or \<open>Accept\<close> failed, no port of the process answers and nothing happens any
  more, the API included.\<close>

theorem process_ports:
  assumes "main pk args dk = Ret (Serving sv dk')" and "system_ok sy"
    and "process_run sy ae sv es new_process = Some s"
  shows "(\<forall>q. answers_at s q = Some API \<longrightarrow> stands_for sy ('':'' @ args ! 1) q) \<and>
    (\<forall>q. answers_at s q = Some PROXY \<longrightarrow> stands_for sy ('':'' @ args ! 2) q) \<and>
    (\<forall>p q q'. sy_resolve sy ('':'' @ args ! 1) = Inr p \<and> sy_resolve sy ('':'' @ args ! 2) = Inr p \<and> p \<noteq> 0 \<longrightarrow>
       answers_at s q = Some API \<longrightarrow> answers_at s q' \<noteq> Some PROXY) \<and>
    (case ps_main s of
       InListen a \<Rightarrow> (\<exists>q. answers_at s q = Some PROXY) \<and> (\<exists>ces. accept_reach (\<lambda>_ _. True) (main_proxy ae sv) ces a)
     | Returned \<Rightarrow> (\<forall>q. answers_at s q = None) \<and> (\<forall>e. process_exec sy ae sv e s = None)
     | _ \<Rightarrow> \<forall>q. answers_at s q \<noteq> Some PROXY)"
proof -
  have inv: "process_inv sy ae sv s" by (rule process_inv_run [OF assms(3,2) process_inv_new])
  note at = answers_at_iff [OF inv]
  note args = main_addresses [OF assms(1)]
  have "\<forall>q. answers_at s q = Some API \<longrightarrow> stands_for sy ('':'' @ args ! 1) q"
    and "\<forall>q. answers_at s q = Some PROXY \<longrightarrow> stands_for sy ('':'' @ args ! 2) q"
    using inv args by (auto simp: at process_inv_def ports_ok_def)
  moreover from this have "q = p \<and> q' = p"
    if "sy_resolve sy ('':'' @ args ! 1) = Inr p" "sy_resolve sy ('':'' @ args ! 2) = Inr p" "p \<noteq> 0"
      "answers_at s q = Some API" "answers_at s q' = Some PROXY" for p q q'
    using that by (fastforce simp: stands_for_def)
  moreover have "case ps_main s of
       InListen a \<Rightarrow> (\<exists>q. answers_at s q = Some PROXY) \<and> (\<exists>ces. accept_reach (\<lambda>_ _. True) (main_proxy ae sv) ces a)
     | Returned \<Rightarrow> (\<forall>q. answers_at s q = None) \<and> (\<forall>e. process_exec sy ae sv e s = None)
     | _ \<Rightarrow> \<forall>q. answers_at s q \<noteq> Some PROXY"
  proof (cases "ps_main s")
    case Returned
    with inv have "ps_ports s = []" "ps_goroutines s = []" by (simp_all add: process_inv_def)
    moreover from this Returned have "process_exec sy ae sv e s = None" for e by (cases e) simp_all
    ultimately show ?thesis using Returned by (simp add: answers_at_def)
  qed (use inv in \<open>force simp: at process_inv_def\<close>)+
  ultimately show ?thesis by (intro conjI) (blast, blast, metis option.inject owner.distinct(1), assumption)
qed

definition sample_system :: system where
  "sample_system =
     \<lparr>sy_resolve = (\<lambda>host. if host = '':1'' then Inr 1 else if host = '':2'' then Inr 2 else Inl (Err ''unknown port'')),
      sy_grant = (\<lambda>p bound. if p \<in> set bound then Inl (Err ''address already in use'') else Inr p)\<rparr>"

lemma sample_system_ok: "system_ok sample_system"
  by (simp add: system_ok_def sample_system_def)

definition tls_pki :: "(string, octets tls_certificate) pki" where
  "tls_pki = \<lparr>pk_randInt = (\<lambda>n. Inr 5), pk_generateKey = (\<lambda>n. Some ''K''), pk_now = 0,
     pk_addYears = (\<lambda>t n. t + int n), pk_createCertificate = (\<lambda>t k. Inr ''D''), pk_pem = (\<lambda>l b. ''-'' @ b),
     pk_pkcs1 = (\<lambda>k. k), pk_keyPair = (\<lambda>ca key. Inr \<lparr>tc_Certificate = [], tc_PrivateKey = OtherKey\<rparr>),
     pk_Certificate = (\<lambda>c. [])\<rparr>"

definition tls_service :: "string \<Rightarrow> string \<Rightarrow> octets tls_certificate service" where
  "tls_service api prx =
     \<lparr>sv_Cert = \<lparr>tc_Certificate = [], tc_PrivateKey = OtherKey\<rparr>, sv_caBytes = ''-D'', sv_apiAddress = '':'' @ api,
      sv_proxyAddress = '':'' @ prx\<rparr>"

lemma tls_main: "main tls_pki [''p'', ''1'', [c]] sample_disk = Ret (Serving (tls_service ''1'' [c]) sample_disk)"
  by (simp add: main_def arg_def load_or_create_def LoadX509KeyPair_def read_file_def tls_pki_def sample_disk_def
      empty_disk_def tls_service_def)

text \<open>Both ports are the same, and the API comes first.\<close>

theorem process_ports_witness:
  "\<forall>ae. \<exists>s. process_run sample_system ae (tls_service ''1'' ''1'') [Main, Main, StartAPI, Main] new_process = Some s \<and>
    answers_at s 1 = None \<and> process_exec sample_system ae (tls_service ''1'' ''1'') Main s = None"
proof
  fix ae
  let ?sv = "tls_service ''1'' ''1''"
  obtain s where s: "process_run sample_system ae ?sv [Main, Main, StartAPI, Main] new_process = Some s"
    "ps_main s = Returned"
    by (simp add: new_process_def go_def launchExposedAPI_def proxy_Listen_def net_Listen_def sample_system_def
        tls_service_def main_returns_def)
  from process_ports [OF tls_main sample_system_ok s(1)] s
  show "\<exists>s. process_run sample_system ae ?sv [Main, Main, StartAPI, Main] new_process = Some s \<and>
    answers_at s 1 = None \<and> process_exec sample_system ae ?sv Main s = None" by auto
qed

subsection \<open>Both services come up\<close>

text \<open>How far the start has come, as far as the events so far say.\<close>

definition started :: "int \<Rightarrow> process_event list \<Rightarrow> 'k process \<Rightarrow> bool" where
  "started port es s \<longleftrightarrow>
     (case ps_main s of
        AtCleaner \<Rightarrow> count_list es Main = 0
      | AtAPI \<Rightarrow> count_list es Main = 1
      | AtListen \<Rightarrow> count_list es Main = 2
      | InListen a \<Rightarrow> count_list es Main = 3
      | Returned \<Rightarrow> False) \<and>
     (if StartAPI \<in> set es then (port, API) \<in> set (ps_ports s)
      else 2 \<le> count_list es Main \<longrightarrow> LaunchAPI \<in> set (ps_goroutines s))"

text \<open>The two arguments stand for two ports, which the system grants when they are free.\<close>

definition two_ports :: "system \<Rightarrow> string \<Rightarrow> string \<Rightarrow> int \<Rightarrow> int \<Rightarrow> bool" where
  "two_ports sy host host' p p' \<longleftrightarrow> sy_resolve sy host = Inr p \<and> sy_resolve sy host' = Inr p' \<and>
     p \<noteq> p' \<and> p \<noteq> 0 \<and> p' \<noteq> 0 \<and>
     (\<forall>bound. (p \<notin> set bound \<longrightarrow> sy_grant sy p bound = Inr p) \<and> (p' \<notin> set bound \<longrightarrow> sy_grant sy p' bound = Inr p'))"

lemma ports_are:
  assumes "process_inv sy ae sv s" and "two_ports sy (sv_apiAddress sv) (sv_proxyAddress sv) p p'"
  shows "(q, API) \<in> set (ps_ports s) \<Longrightarrow> q = p" "(q, PROXY) \<in> set (ps_ports s) \<Longrightarrow> q = p'"
  using assms by (auto simp: process_inv_def ports_ok_def stands_for_def two_ports_def)

lemma free_port:
  assumes "process_inv sy ae sv s" and two: "two_ports sy (sv_apiAddress sv) (sv_proxyAddress sv) p p'"
  shows "API \<notin> snd ` set (ps_ports s) \<Longrightarrow> p \<notin> set (map fst (ps_ports s))"
    and "PROXY \<notin> snd ` set (ps_ports s) \<Longrightarrow> p' \<notin> set (map fst (ps_ports s))"
proof -
  have b: "b = API \<and> q = p \<or> b = PROXY \<and> q = p'" if "(q, b) \<in> set (ps_ports s)" for q b
    using that ports_are [OF assms] by (cases b) auto
  have "p \<noteq> p'" using two by (simp add: two_ports_def)
  with b show "API \<notin> snd ` set (ps_ports s) \<Longrightarrow> p \<notin> set (map fst (ps_ports s))"
    and "PROXY \<notin> snd ` set (ps_ports s) \<Longrightarrow> p' \<notin> set (map fst (ps_ports s))" by force+
qed

lemma started_step:
  assumes "process_exec sy ae sv e s = Some s'" and "process_inv sy ae sv s" and "started p es s"
    and "e \<noteq> FailAPI" and "e \<noteq> AcceptFailed" and two: "two_ports sy (sv_apiAddress sv) (sv_proxyAddress sv) p p'"
  shows "started p (es @ [e]) s'"
proof (cases e)
  case Main
  show ?thesis
  proof (cases "ps_main s = AtListen")
    case True
    then have "p' \<notin> set (map fst (ps_ports s))"
      using assms(2) free_port(2) [OF assms(2) two] by (auto simp: process_inv_def)
    then have "net_Listen sy (sv_proxyAddress sv) (map fst (ps_ports s)) = Inr p'"
      using two by (simp add: net_Listen_def two_ports_def)
    with Main True assms(1,3) show ?thesis by (auto simp: started_def proxy_Listen_def go_def)
  next
    case False
    with Main assms(1-3) show ?thesis by (auto simp: started_def go_def process_inv_def split: main_pc.splits if_splits)
  qed
next
  case StartAPI
  then have g: "LaunchAPI \<in> set (ps_goroutines s)" using assms(1) by (auto split: if_splits)
  then have "p \<notin> set (map fst (ps_ports s))"
    using assms(2) free_port(1) [OF assms(2) two] by (auto simp: process_inv_def)
  then have "net_Listen sy (sv_apiAddress sv) (map fst (ps_ports s)) = Inr p"
    using two by (simp add: net_Listen_def two_ports_def)
  with StartAPI g assms(1,3) show ?thesis
    by (auto simp: started_def launchExposedAPI_def go_def Let_def split: main_pc.splits)
next
  case (Client ce)
  with assms(1,3) show ?thesis by (auto simp: started_def split: main_pc.splits)
qed (use assms in simp_all)

lemma run_snoc:
  "process_run sy ae sv (es @ [e]) s = (case process_run sy ae sv es s of None \<Rightarrow> None | Some s \<Rightarrow> process_exec sy ae sv e s)"
  by (induction es arbitrary: s) (auto split: option.split)

lemma started_run:
  "process_run sy ae sv es new_process = Some s \<Longrightarrow> FailAPI \<notin> set es \<Longrightarrow> AcceptFailed \<notin> set es \<Longrightarrow>
     system_ok sy \<Longrightarrow> two_ports sy (sv_apiAddress sv) (sv_proxyAddress sv) p p' \<Longrightarrow>
     process_inv sy ae sv s \<and> started p es s"
proof (induction es arbitrary: s rule: rev_induct)
  case Nil
  then have "s = new_process" by simp
  then show ?case using process_inv_new by (auto simp: started_def) (simp_all add: new_process_def)
next
  case (snoc e es)
  then obtain s1 where "process_run sy ae sv es new_process = Some s1" "process_exec sy ae sv e s1 = Some s"
    by (auto simp: run_snoc split: option.splits)
  with snoc started_step process_inv_step show ?case by fastforce
qed

lemma completes:
  assumes "process_run sy ae sv es new_process = Some s" and "FailAPI \<notin> set es" and "AcceptFailed \<notin> set es"
    and "system_ok sy" and "two_ports sy (sv_apiAddress sv) (sv_proxyAddress sv) p p'"
  shows "\<exists>more s'. process_run sy ae sv (es @ more) new_process = Some s' \<and> FailAPI \<notin> set (es @ more) \<and>
    AcceptFailed \<notin> set (es @ more) \<and> count_list (es @ more) Main = 3 \<and> StartAPI \<in> set (es @ more)"
  using assms
proof (induction "(3 - count_list es Main) + (if StartAPI \<in> set es then 0 else 1)" arbitrary: es s rule: less_induct)
  case less
  note st = started_run [OF less(2-6)]
  have le: "count_list es Main \<le> 3" using st by (auto simp: started_def split: main_pc.splits)
  show ?case
  proof (cases "count_list es Main = 3 \<and> StartAPI \<in> set es")
    case True
    with less(2-4) show ?thesis by (intro exI [of _ "[]"] exI [of _ s]) simp
  next
    case False
    define e where "e = (if count_list es Main = 3 then StartAPI else Main)"
    have "process_exec sy ae sv e s \<noteq> None"
      using st False le by (auto simp: e_def started_def split: main_pc.splits if_splits)
    then obtain s1 where s1: "process_run sy ae sv (es @ [e]) new_process = Some s1"
      using less(2) by (auto simp: run_snoc)
    have "(3 - count_list (es @ [e]) Main) + (if StartAPI \<in> set (es @ [e]) then 0 else 1) <
        (3 - count_list es Main) + (if StartAPI \<in> set es then 0 else (1::nat))"
      using False le by (auto simp: e_def)
    moreover have "FailAPI \<notin> set (es @ [e])" "AcceptFailed \<notin> set (es @ [e])"
      using less(3,4) by (auto simp: e_def)
    ultimately obtain more s' where
      "process_run sy ae sv ((es @ [e]) @ more) new_process = Some s' \<and> FailAPI \<notin> set ((es @ [e]) @ more) \<and>
       AcceptFailed \<notin> set ((es @ [e]) @ more) \<and> count_list ((es @ [e]) @ more) Main = 3 \<and> StartAPI \<in> set ((es @ [e]) @ more)"
      using less(1) [OF _ s1 _ _ less(5,6)] by blast
    then show ?thesis by (intro exI [of _ "e # more"] exI [of _ s']) simp
  qed
qed

text \<open>(C28) If the two arguments stand for two ports that can be had, the program comes to serve both, in
  every order of \<open>main\<close> and the goroutine of the API: as long as neither listener fails later, \<open>main\<close>
  never returns; after its three last statements connections to the port of the second argument get
  the proxy, after the API's \<open>net.Listen\<close> those to the port of the first get the API, no other
  port answers, and no state that can be reached is one from which this cannot be reached.\<close>

theorem process_serves:
  assumes "main pk args dk = Ret (Serving sv dk')" and "system_ok sy"
    and "two_ports sy ('':'' @ args ! 1) ('':'' @ args ! 2) p p'"
    and "process_run sy ae sv es new_process = Some s" and "FailAPI \<notin> set es" and "AcceptFailed \<notin> set es"
  shows "ps_main s \<noteq> Returned \<and> (count_list es Main = 3 \<longrightarrow> answers_at s p' = Some PROXY) \<and>
    (StartAPI \<in> set es \<longrightarrow> answers_at s p = Some API) \<and> (\<forall>q. q \<noteq> p \<longrightarrow> q \<noteq> p' \<longrightarrow> answers_at s q = None) \<and>
    (\<exists>more s'. process_run sy ae sv (es @ more) new_process = Some s' \<and>
       answers_at s' p = Some API \<and> answers_at s' p' = Some PROXY)"
proof -
  have two: "two_ports sy (sv_apiAddress sv) (sv_proxyAddress sv) p p'"
    using main_addresses [OF assms(1)] assms(3) by simp
  have served: "(count_list es Main = 3 \<longrightarrow> answers_at s p' = Some PROXY) \<and> (StartAPI \<in> set es \<longrightarrow> answers_at s p = Some API)"
    if "process_run sy ae sv es new_process = Some s" "FailAPI \<notin> set es" "AcceptFailed \<notin> set es" for es s
  proof -
    note st = started_run [OF that assms(2) two]
    have "count_list es Main = 3 \<longrightarrow> PROXY \<in> snd ` set (ps_ports s)"
      using st by (auto simp: started_def process_inv_def split: main_pc.splits)
    then show ?thesis
      using st ports_are(2) [OF conjunct1 [OF st] two] by (auto simp: answers_at_iff [OF conjunct1 [OF st]] started_def)
  qed
  note st = started_run [OF assms(4-6,2) two]
  have "answers_at s q = None" if "q \<noteq> p" "q \<noteq> p'" for q
    using that ports_are [OF conjunct1 [OF st] two, of q]
    by (cases "answers_at s q") (auto simp: answers_at_iff [OF conjunct1 [OF st]], metis owner.exhaust)
  moreover from completes [OF assms(4-6,2) two] obtain more s' where
    "process_run sy ae sv (es @ more) new_process = Some s' \<and> answers_at s' p = Some API \<and> answers_at s' p' = Some PROXY"
    using served by blast
  ultimately show ?thesis using served [OF assms(4-6)] st by (auto simp: started_def)
qed

theorem process_serves_witness:
  "\<forall>ae. \<exists>s. process_run sample_system ae (tls_service ''1'' ''2'') [Main, Main, Main, StartAPI] new_process = Some s \<and>
    answers_at s 1 = Some API \<and> answers_at s 2 = Some PROXY \<and> answers_at s 3 = None"
proof
  fix ae
  let ?sv = "tls_service ''1'' ''2''" and ?es = "[Main, Main, Main, StartAPI]"
  obtain s where s: "process_run sample_system ae ?sv ?es new_process = Some s"
    by (simp add: new_process_def go_def launchExposedAPI_def proxy_Listen_def net_Listen_def sample_system_def
        tls_service_def)
  have two: "two_ports sample_system ('':'' @ [''p'', ''1'', ''2''] ! 1) ('':'' @ [''p'', ''1'', ''2''] ! 2) 1 2"
    by (simp add: two_ports_def sample_system_def)
  from process_serves [OF tls_main sample_system_ok two s] s
  show "\<exists>s. process_run sample_system ae ?sv ?es new_process = Some s \<and>
    answers_at s 1 = Some API \<and> answers_at s 2 = Some PROXY \<and> answers_at s 3 = None" by auto
qed

end
