(* ===== verification/Spec2Isabelle.thy ===== *)
theory Spec2Isabelle
  imports HostPort BodyReaders RegexStream PrxConfig RewriteLogic Signer ConnSet ClientConn ServerConn ProxyLoop ProxySafety Throttle Sessions Api ApiRules RequestLog Startup AcceptLoop BodyCopies Wire Isolation ApiRequest IsolationApi Serving Exchange Lifetimes Program
begin

text \<open>
  A verification development for RestfulHttpsProxy, a proxy written in Go that decrypts HTTPS
  and rewrites the traffic of its clients by rules that are set through an HTTP API.

  \<^bold>\<open>The program.\<close>  \<open>main\<close> loads or makes a certificate authority, gives the proxy the function that
  rewrites (\<open>OnRequest\<close>), and starts the session cleaner, the API on a port of its own and the
  proxy.  The proxy accepts clients; the goroutine of a client (\<open>listenConn\<close>) reads requests one
  after the other, answers \<open>CONNECT\<close> with a forged certificate or a tunnel, hands every other
  request to \<open>OnRequest\<close>, which applies the rules of the address of the client, sends it through
  the connections of this client to the servers (\<open>ServerConnProps\<close>) and rewrites the response,
  and sends the response to the client (\<open>ClientConnProps\<close>).  Bodies are streams: rewriting and
  throttling wrap the reader of a body in further readers.

  \<^bold>\<open>The theories\<close>, in the order of the layers, with the files they model:

  \<^item> \<open>Prelude\<close>, \<open>GoStrings\<close>: bytes, errors, panics, and what is used of \<open>strings\<close>, \<open>strconv\<close> and
    \<open>http.Header\<close>.  \<open>GoIo\<close>: the contract of \<open>io.Reader\<close> as the locale \<open>io_reader\<close>, \<open>MultiReader\<close>.
    \<open>GoRegexp\<close>: \<open>MatchString\<close> and \<open>ReplaceAll\<close> over an arbitrary matcher.
  \<^item> \<open>HostPort\<close>: the address helpers of \<open>proxy/helpers.go\<close>.  \<open>HttpMsg\<close>: requests and responses.
  \<^item> \<open>BodyReaders\<close>: \<open>readCustomCloser.go\<close>, \<open>doubleReadCloser.go\<close>, \<open>ReadCloserStats.go\<close> and
    \<open>TeeReadCloser.go\<close>; each wrapper is shown to satisfy \<open>io_reader\<close> again.
    \<open>ReaderObjects\<close>: a reader as an object with hidden state.
  \<^item> \<open>ChunkedRegex\<close>, \<open>RegexStream\<close>: \<open>rewriteLogic/chunkedRegexReader.go\<close>, the streaming search and
    replace with its buffers and indices.  \<open>RewriteLogic\<close>: \<open>rewriteLogic/rewriteLogic.go\<close>.
  \<^item> \<open>PrxConfig\<close>: \<open>prxConfig/prxConfig.go\<close>, the configuration and its compilation to rules.
  \<^item> \<open>Signer\<close>: \<open>proxy/signer.go\<close> and \<open>proxy/counterecryptor.go\<close>, the forged certificates.
  \<^item> \<open>ConnSet\<close>, \<open>ClientConn\<close>: \<open>proxy/clientConnProps.go\<close>.  \<open>ServerConn\<close>: \<open>proxy/serverConnProps.go\<close>.
    \<open>Wire\<close>: how requests are cut out of the bytes of a connection, with the \<open>bufio.Reader\<close> that
    \<open>Listen\<close> makes for each.  \<open>Tunnel\<close>: \<open>doubleSidedCopy\<close> of \<open>proxy/helpers.go\<close>.
  \<^item> \<open>ProxyLoop\<close>, \<open>ProxySafety\<close>: \<open>proxy/proxy.go\<close> for one client and for a round of the timeout
    checker.  \<open>AcceptLoop\<close>: the accept loop with all clients at once.  \<open>Serving\<close>, \<open>Exchange\<close>: a client
    and a turn of it with the function of \<open>main.go\<close> in place, which is what the parts come to together.
  \<^item> \<open>Throttle\<close>: \<open>throttle/throttle.go\<close>, with its \<open>float64\<close> arithmetic.  \<open>Sessions\<close>: the three maps of
    \<open>main.go\<close> and their cleaner.  \<open>Isolation\<close>, \<open>IsolationApi\<close>: these maps under the events of many
    clients, and which of these events a request performs.  \<open>Lifetimes\<close>: the loops of the session
    cleaner and of the timeout checker beside everything else.
    \<open>Api\<close>, \<open>ApiRules\<close>, \<open>ApiRequest\<close>: \<open>handleProxyAPI\<close> and the function given to
    \<open>OnRequest\<close> in \<open>main.go\<close>.
  \<^item> \<open>RequestLog\<close>, \<open>BodyCopies\<close>: \<open>requestLogger.go\<close>, which the program does not call at this commit.
  \<^item> \<open>Startup\<close>: \<open>main\<close> up to its loops, \<open>certUtil.go\<close>, the handler of \<open>launchExposedAPI\<close>, \<open>helpers.go\<close>.
    \<open>Program\<close>: the process after that, with the last statements of \<open>main\<close>, its goroutines and its
    two ports.

  \<^bold>\<open>Conventions.\<close>  A struct is a record with the field names of the code behind a short prefix, a
  method a function from the record to its results and the record afterwards.  Byte strings are
  \<open>string\<close> (\<open>8 word list\<close> in \<open>Signer\<close>, where they are computed with).  A nil error is \<open>None\<close>, a run-time
  panic is \<open>Panic\<close> of type \<open>outcome\<close>, and not returning is \<open>None\<close> of a function to an option.
  Integers have their width where they can wrap: the counter of \<open>connSet\<close>, rates and delays.

  \<^bold>\<open>Interfaces.\<close>  \<open>io_reader\<close> is the contract between every reader and its user; the wrappers are
  proved against it and interpreted on the readers of the model.  \<open>reader_pair\<close> is what
  \<open>MultiReader\<close> needs of its two parts.  \<open>modify_function\<close> (in \<open>Api\<close>) is what the loop of the proxy
  relies on in the function given to \<open>OnRequest\<close>: that it leaves the sockets of the client alone
  and keeps the invariant of the server connections; it is interpreted on \<open>on_request\<close>.

  \<^bold>\<open>Concurrency.\<close>  What goroutines do is a list of events, each the part of the code that one lock or
  one channel makes atomic; the theorems hold for every list.  This is how the counter of
  \<open>connSet\<close> (\<open>cs_exec\<close>), the two sides of an exchange with a server with its timeout (\<open>rt_exec\<close>),
  the two directions of a tunnel (\<open>tn_exec\<close>), the accept loop (\<open>accept_exec\<close>) and the copied body
  (\<open>clone_exec\<close>) are modelled.  In an exchange the fetch of the current connection is an event of
  its own, before the write or the read it is for.  The clients of \<open>ProxyLoop\<close> run one at a time;
  what they share in \<open>main.go\<close>, the sessions, is treated in \<open>Isolation\<close>, for all interleavings of
  what they do to it (\<open>session_exec\<close>); \<open>Serving\<close> shows that what one client does from its accepted
  connection to its end is a list of such events.  The cleaner is taken apart into its single steps
  (\<open>cleaner_exec\<close>), and the start of the process into the steps of \<open>main\<close> and of its goroutines
  (\<open>process_exec\<close>).  Each of these lists says what happens, not that it does: a goroutine that waits
  for a lock, a \<open>WaitGroup\<close> or the network has no step meanwhile, and no theorem says that such a wait ends.

  \<^bold>\<open>The outside\<close> is a script that is part of the state: the requests a client sends and when
  (\<open>Wire\<close> shows for which clients the bytes of the connection give that script), the outcomes of
  dials, writes and handshakes, the files and what opening them gives, the clock, the port that
  an address stands for and whether the system grants it (\<open>system\<close>).
  Arguments stand for the cryptography, DER, PEM and TLS of the standard library, \<open>json.Unmarshal\<close>
  and \<open>json.Marshal\<close>, \<open>regexp.Compile\<close> and its matcher, \<open>URL.String\<close> and \<open>url.Parse\<close>, the decoders of
  \<open>Content-Encoding\<close>, and the order in which a map is walked.

  \<^bold>\<open>Loops.\<close>  The read loops and the loop of a client may run for ever and are partial functions
  (\<open>drain\<close>, \<open>readUntilFull\<close>, \<open>fc_stream\<close>, \<open>listen_loop\<close>); that they return is proved: for readers
  from a measure of the input that every read brings down, for a client from its script coming to
  an end.  Loops over data are structural.  The two loops that are meant to run for ever
  (\<open>launchSessionCleaner\<close>, \<open>launchTimeoutChecker\<close>) run over a list of turns of any length, which says
  how late each turn is and what happened in between.  No fuel is used.

  \<^bold>\<open>What is shown.\<close>
  \<^item> Streaming: the chunked replacement is an algorithm on windows, equal to \<open>ReplaceAll\<close> on the
    whole body for exact rules; where it is not, it is shown how it fails (a rule that makes the
    text longer loses bytes or panics; an append rule panics).
  \<^item> Rules: a configuration is accepted exactly when it is legal, means what it says, is in force
    after it was set; the server receives the request, and the client the response, as the rules
    make them.  The head is rewritten by any rules; for the body the rules that match must be those
    the streaming rewrites exactly (\<open>streamable\<close>).  The result is delimited but for the rewritten
    body of an HTTP/1.0 request.
  \<^item> Connections: requests are written once, connections are neither lost nor leaked; the socket of a
    client is closed at its end unless its last turn was a \<open>CONNECT\<close> that failed.  The responses of a
    client are those of its requests, at most one for each and in their order; limits and
    timeouts are what they are; the interleavings in which the code panics are exhibited.  A client
    that waits for its answers and whose bodies are read is read as it writes; one that pipelines
    loses requests, and a body that nobody reads is taken for a request.  A whole turn delivers the
    response of the server as the rules make it, decoded by the decoder its encoding names; an exchange
    that fails is repeated without the rules.  A tunnel delivers what the two sides sent, each a
    prefix of it while it runs and all of it when it has ended without a failed write.
    A waiting client is disconnected when its time is up, and not before.
  \<^item> Certificates: the generator is a counter-mode stream; the forged key depends on public data
    only; a restart keeps the authority.
  \<^item> Throttling, sessions, logs and start-up: the delay of a body from its rate up to rounding, the
    clients that are forgotten and when, what a client can see of the sessions as a state machine of this
    client alone, the log as the list of the exchanges, the arguments that are read as ports.  The
    API answers at the port of the first and the proxy at that of the second, never the other way
    round; both come up in every order when their ports can be had, and nothing answers once the
    proxy's listener has failed.

  \<^bold>\<open>Not modelled:\<close> the socket calls themselves (their results are arguments or part of a script;
  the same goes for \<open>http.ListenAndServe\<close> and \<open>tls\<close> handshakes), waiting for locks and for the
  network, the time that passes other than in \<open>time.Sleep\<close> or as a script says, request bodies that
  arrive chunked (in \<open>Wire\<close>; elsewhere a body is a reader), reading and closing the body of a
  response inside the loop of a client (\<open>Exchange\<close> and \<open>ApiRules\<close> treat it by itself), the bytes a failed
  write has already taken from a request body, the log lines, code that is commented out, and the
  unit test.  Unsynchronised access to a Go map (\<open>logProps\<close>) is a data race and has no semantics; the
  model runs such functions one at a time.
\<close>

end
